(* ===== verification/Prelude.thy ===== *)
theory Prelude
  imports Main "HOL-Library.Word"
begin

text \<open>
  What every component of the development shares: the C integer types as words, the two
  representations of \<^verbatim>\<open>char\<close> the supported platforms use, the string and memory functions of
  the C library that the sources call, and the collections of simplification rules of the
  component theories.

  A C string argument is the list of the bytes readable from the pointer on: \<open>strnlen\<close> stops
  at the first zero byte or at its limit. An array field of a struct is a list of the array's
  length. A pointer argument that the code compares with \<^verbatim>\<open>NULL\<close> is an \<open>option\<close>.
\<close>

unbundle bit_operations_syntax

subsection \<open>Collections\<close>

named_theorems state_defs \<open>definitions of the accessors of the encoder state\<close>
named_theorems group_defs \<open>definitions of the group generators\<close>
named_theorems frame_simps \<open>what an operation leaves unchanged\<close>

subsection \<open>Integer types\<close>

type_synonym uint8 = "8 word"
type_synonym uint16 = "16 word"
type_synonym uint32 = "32 word"
type_synonym byte = "8 word"
type_synonym cstring = "byte list"

text \<open>
  A plain \<^verbatim>\<open>char\<close> is signed on x86 and unsigned on ARM, both of which the program runs on.
  Where the sources compare or shift a \<^verbatim>\<open>char\<close>, its promotion to \<^verbatim>\<open>int\<close> depends on that.
\<close>

datatype char_abi = Signed_Char | Unsigned_Char

definition char_int :: "char_abi \<Rightarrow> byte \<Rightarrow> int" where
  "char_int abi c = (case abi of Signed_Char \<Rightarrow> sint c | Unsigned_Char \<Rightarrow> uint c)"

definition char_promote :: "char_abi \<Rightarrow> byte \<Rightarrow> uint32" where
  "char_promote abi c = (case abi of Signed_Char \<Rightarrow> scast c | Unsigned_Char \<Rightarrow> ucast c)"

subsection \<open>The C library\<close>

definition strnlen :: "cstring \<Rightarrow> nat \<Rightarrow> nat" where
  "strnlen s n = length (takeWhile (\<lambda>c. c \<noteq> 0) (take n s))"

text \<open>The reads of \<open>strnlen s n\<close> stay within the bytes that are readable.\<close>

definition strnlen_ok :: "cstring \<Rightarrow> nat \<Rightarrow> bool" where
  "strnlen_ok s n \<longleftrightarrow> n \<le> length s \<or> 0 \<in> set s"

text \<open>\<open>strncpy\<close> into a buffer: the bytes up to the first zero, then zero padding up to \<open>n\<close>.\<close>

definition strncpy :: "cstring \<Rightarrow> cstring \<Rightarrow> nat \<Rightarrow> cstring" where
  "strncpy dst src n =
     take (strnlen src n) src @ replicate (n - strnlen src n) 0 @ drop n dst"

text \<open>\<open>isspace\<close> in the C locale, which the program never leaves.\<close>

definition isspace :: "byte \<Rightarrow> bool" where
  "isspace c \<longleftrightarrow> c = 0x20 \<or> (0x09 \<le> c \<and> c \<le> 0x0D)"

lemma strnlen_le [simp]: "strnlen s n \<le> n"
  using length_takeWhile_le [of "\<lambda>c. c \<noteq> 0" "take n s"] by (simp add: strnlen_def)

lemma strnlen_le_length [simp]: "strnlen s n \<le> length s"
  using length_takeWhile_le [of "\<lambda>c. c \<noteq> 0" "take n s"] by (simp add: strnlen_def)

lemma strnlen_0 [simp]: "strnlen s 0 = 0"
  by (simp add: strnlen_def)

lemma strnlen_Nil [simp]: "strnlen [] n = 0"
  by (simp add: strnlen_def)

lemma take_strnlen: "take (strnlen s n) s = takeWhile (\<lambda>c. c \<noteq> 0) (take n s)"
proof -
  have "takeWhile (\<lambda>c. c \<noteq> 0) (take n s) = take (strnlen s n) (take n s)"
    unfolding strnlen_def by (rule takeWhile_eq_take)
  then show ?thesis by (simp add: min.absorb1)
qed

lemma strnlen_nonzero:
  assumes "i < strnlen s n"
  shows "s ! i \<noteq> 0"
proof -
  have "takeWhile (\<lambda>c. c \<noteq> 0) (take n s) ! i \<in> set (takeWhile (\<lambda>c. c \<noteq> 0) (take n s))"
    using assms by (simp add: strnlen_def)
  then have "take (strnlen s n) s ! i \<noteq> 0"
    unfolding take_strnlen by (blast dest: set_takeWhileD)
  then show ?thesis using assms by simp
qed

lemma strnlen_stop: "strnlen s n < n \<Longrightarrow> strnlen s n < length s \<Longrightarrow> s ! strnlen s n = 0"
  using nth_length_takeWhile [of "\<lambda>c. c \<noteq> 0" "take n s"] by (simp add: strnlen_def)

lemma isspace_zero [simp]: "\<not> isspace 0"
  by (simp add: isspace_def)

subsection \<open>Index loops over arrays\<close>

text \<open>
  The copy loops of the sources, \<^verbatim>\<open>for (i = 0; i < n; i++) dst[i] = f(src[i])\<close>, as recursion
  over the index, and what they compute.
\<close>

function copy_loop :: "('a \<Rightarrow> 'b) \<Rightarrow> 'a list \<Rightarrow> nat \<Rightarrow> nat \<Rightarrow> 'b list \<Rightarrow> 'b list" where
  "copy_loop f src n i dst =
     (if i < n then copy_loop f src n (Suc i) (dst[i := f (src ! i)]) else dst)"
  by pat_completeness auto
termination
  by (relation "measure (\<lambda>(f, src, n, i, dst). n - i)") auto

declare copy_loop.simps [simp del]

lemma copy_loop_nth:
  "length (copy_loop f src n i dst) = length dst \<and>
   (\<forall>j < length dst. copy_loop f src n i dst ! j =
      (if i \<le> j \<and> j < n then f (src ! j) else dst ! j))"
proof (induction f src n i dst rule: copy_loop.induct)
  case (1 f src n i dst)
  show ?case
  proof (cases "i < n")
    case True
    with "1.IH" show ?thesis
      by (subst (1 2) copy_loop.simps) (auto simp: nth_list_update Suc_le_eq)
  next
    case False
    then show ?thesis by (subst (1 2) copy_loop.simps) auto
  qed
qed

lemma length_copy_loop [simp]: "length (copy_loop f src n i dst) = length dst"
  by (simp add: copy_loop_nth)

lemma copy_loop_eq:
  assumes "n \<le> length src" "n \<le> length dst"
  shows "copy_loop f src n 0 dst = map f (take n src) @ drop n dst"
  using assms by (intro nth_equalityI) (auto simp: copy_loop_nth nth_append)

subsection \<open>Words\<close>

text \<open>Storing into a narrower bit field and reading it back keeps the low bits.\<close>

lemma ucast_ucast_down:
  fixes v :: "'a::len word"
  shows "(ucast (ucast v :: 'b::len word) :: 'a word) = take_bit LENGTH('b) v"
  by (rule bit_word_eqI) (auto simp: bit_simps)

lemma ucast_ucast_up:
  fixes w :: "'a::len word"
  assumes "LENGTH('a) \<le> LENGTH('b::len)"
  shows "(ucast (ucast w :: 'b word) :: 'a word) = w"
  using assms by (auto intro: bit_word_eqI simp: bit_simps dest: bit_imp_le_length)

lemma take_bit_ucast:
  fixes w :: "'a::len word"
  assumes "LENGTH('a) \<le> n"
  shows "take_bit n (ucast w :: 'b::len word) = ucast w"
  using assms by (intro bit_word_eqI) (auto simp: bit_simps dest: bit_imp_le_length)

lemma and_1_take_bit: "(v AND 1 :: 'a::len word) = take_bit 1 v"
  by (simp add: take_bit_eq_mask)

lemma and_3_take_bit: "(v AND 3 :: 'a::len word) = take_bit 2 v"
  by (simp add: take_bit_eq_mask mask_numeral)

lemma and_15_take_bit: "(v AND 0xF :: 'a::len word) = take_bit 4 v"
  by (simp add: take_bit_eq_mask mask_numeral)

lemma and_31_take_bit: "(v AND 0x1F :: 'a::len word) = take_bit 5 v"
  by (simp add: take_bit_eq_mask mask_numeral)

lemma and_255_take_bit: "(v AND 0xFF :: 'a::len word) = take_bit 8 v"
  by (simp add: take_bit_eq_mask mask_numeral)

lemma and_4095_take_bit: "(v AND 0xFFF :: 'a::len word) = take_bit 12 v"
  by (simp add: take_bit_eq_mask mask_numeral)

lemmas and_mask_simps =
  and_1_take_bit and_3_take_bit and_15_take_bit and_31_take_bit and_255_take_bit and_4095_take_bit

text \<open>The C test \<^verbatim>\<open>w & (1 << k)\<close>.\<close>

lemma and_push_bit_1:
  fixes w :: "'a::len word"
  shows "w AND push_bit k 1 = 0 \<longleftrightarrow> \<not> bit w k"
  by (simp add: and_exp_eq_0_iff_not_bit)

text \<open>Natural-number views of masked and incremented words.\<close>

lemma unat_and_mask: "unat (w AND mask n) = unat (w :: 'a::len word) mod 2 ^ n"
  by (simp only: take_bit_eq_mask [symmetric] unsigned_take_bit_eq take_bit_nat_def)

lemma unat_add_of_nat:
  fixes w :: "'a::len word"
  assumes "unat w + k < 2 ^ LENGTH('a)"
  shows "unat (w + of_nat k) = unat w + k"
  using assms by (simp add: unat_word_ariths(1) unat_of_nat)

lemma bit_unat: "bit w k \<longleftrightarrow> odd (unat (w :: 'a::len word) div 2 ^ k)"
  using bit_unsigned_iff [of w k, where ?'a = nat]
  by (auto simp: bit_iff_odd dest: bit_imp_le_length)

lemma unat_ucast_up:
  fixes w :: "'a::len word"
  assumes "LENGTH('a) \<le> LENGTH('b::len)"
  shows "unat (ucast w :: 'b word) = unat w"
proof -
  have "unat w < 2 ^ LENGTH('b)"
    using unsigned_less [of w, where ?'a = nat] power_increasing [OF assms, of "2 :: nat"] by linarith
  then show ?thesis by (simp add: unsigned_ucast_eq take_bit_nat_eq_self_iff)
qed

end
