(* ===== verification/Rds_State.thy ===== *)
theory Rds_State
  imports Prelude
begin

text \<open>
  The shared state of the RDS encoder (\<^verbatim>\<open>struct rds_encoder_state\<close> of \<^verbatim>\<open>rds_encoder.h\<close>) and
  its accessors (\<^verbatim>\<open>rds_config.c\<close>). Bit fields are words of their width, so that a store into
  one truncates as the C store does. The state lives in shared memory and is passed by pointer:
  an argument \<open>st\<close> is \<open>None\<close> for \<^verbatim>\<open>NULL\<close>, and a setter returns its C result together with
  the state after the call. A getter without a \<^verbatim>\<open>NULL\<close> check returns \<open>None\<close> where the code
  would dereference \<^verbatim>\<open>NULL\<close>.
\<close>

subsection \<open>The state\<close>

abbreviation (input) RDS_PS_LENGTH :: nat where "RDS_PS_LENGTH \<equiv> 8"
abbreviation (input) RDS_PTYN_LENGTH :: nat where "RDS_PTYN_LENGTH \<equiv> 8"
abbreviation (input) RDS_RT_LENGTH :: nat where "RDS_RT_LENGTH \<equiv> 64"

record rds_encoder_state =
  st_enabled :: uint8
  st_pi :: uint16
  st_ecc :: uint8
  st_ecc_set :: "1 word"
  st_lic :: "12 word"
  st_lic_set :: "1 word"
  st_pty :: "5 word"
  st_ta :: "1 word"
  st_tp :: "1 word"
  st_ms :: "1 word"
  st_di :: "4 word"
  st_ps :: "byte list"
  st_ps_set :: "1 word"
  st_ps_idx :: "2 word"
  st_ptyn :: "byte list"
  st_ptyn_set :: "1 word"
  st_ptyn_idx :: "1 word"
  st_ptyn_flush :: "1 word"
  st_rt :: "byte list"
  st_rt_set :: "1 word"
  st_rt_idx :: "4 word"
  st_rt_segments :: "4 word"
  st_rt_flush :: "1 word"
  st_af_data :: "uint8 list"
  st_af_set :: "1 word"
  st_af_len :: "4 word"
  st_af_idx :: "4 word"

type_synonym st_ptr = "rds_encoder_state option"

text \<open>The state as \<^verbatim>\<open>utils_shm_init\<close> leaves it: all bytes zero.\<close>

definition rds_state_zero :: rds_encoder_state where
  "rds_state_zero =
     \<lparr>st_enabled = 0, st_pi = 0, st_ecc = 0, st_ecc_set = 0, st_lic = 0, st_lic_set = 0,
      st_pty = 0, st_ta = 0, st_tp = 0, st_ms = 0, st_di = 0,
      st_ps = replicate RDS_PS_LENGTH 0, st_ps_set = 0, st_ps_idx = 0,
      st_ptyn = replicate RDS_PTYN_LENGTH 0, st_ptyn_set = 0, st_ptyn_idx = 0, st_ptyn_flush = 0,
      st_rt = replicate RDS_RT_LENGTH 0, st_rt_set = 0, st_rt_idx = 0, st_rt_segments = 0,
      st_rt_flush = 0,
      st_af_data = replicate 12 0, st_af_set = 0, st_af_len = 0, st_af_idx = 0\<rparr>"

subsection \<open>Scalar fields\<close>

definition rds_get_pi :: "st_ptr \<Rightarrow> uint16" where
  "rds_get_pi st = (case st of None \<Rightarrow> - 1 | Some s \<Rightarrow> st_pi s)"

definition rds_set_pi :: "st_ptr \<Rightarrow> uint16 \<Rightarrow> int \<times> st_ptr" where
  "rds_set_pi st v = (case st of None \<Rightarrow> (- 1, None) | Some s \<Rightarrow> (0, Some (s\<lparr>st_pi := v\<rparr>)))"

definition rds_get_ecc :: "st_ptr \<Rightarrow> uint8" where
  "rds_get_ecc st = (case st of None \<Rightarrow> 0 | Some s \<Rightarrow> st_ecc s)"

definition rds_set_ecc :: "st_ptr \<Rightarrow> uint8 \<Rightarrow> int \<times> st_ptr" where
  "rds_set_ecc st v =
     (case st of None \<Rightarrow> (- 1, None)
      | Some s \<Rightarrow>
          (let s1 = s\<lparr>st_ecc := v\<rparr>
           in (0, Some (s1\<lparr>st_ecc_set := (if st_ecc s1 = 0 then 0 else 1)\<rparr>))))"

definition rds_get_lic :: "st_ptr \<Rightarrow> uint16" where
  "rds_get_lic st = (case st of None \<Rightarrow> 0 | Some s \<Rightarrow> ucast (st_lic s))"

definition rds_set_lic :: "st_ptr \<Rightarrow> uint16 \<Rightarrow> int \<times> st_ptr" where
  "rds_set_lic st v =
     (case st of None \<Rightarrow> (- 1, None)
      | Some s \<Rightarrow>
          (let s1 = s\<lparr>st_lic := ucast (v AND 0xFFF)\<rparr>
           in (0, Some (s1\<lparr>st_lic_set := (if st_lic s1 = 0 then 0 else 1)\<rparr>))))"

text \<open>\<^verbatim>\<open>rds_get_pty\<close> has no \<^verbatim>\<open>NULL\<close> check.\<close>

definition rds_get_pty :: "st_ptr \<Rightarrow> uint8 option" where
  "rds_get_pty st = map_option (\<lambda>s. ucast (st_pty s)) st"

definition rds_set_pty :: "st_ptr \<Rightarrow> uint8 \<Rightarrow> int \<times> st_ptr" where
  "rds_set_pty st v =
     (case st of None \<Rightarrow> (- 1, None)
      | Some s \<Rightarrow> if v \<le> 31 then (0, Some (s\<lparr>st_pty := ucast v\<rparr>)) else (- 1, Some s))"

definition rds_get_ta :: "st_ptr \<Rightarrow> uint8" where
  "rds_get_ta st = (case st of None \<Rightarrow> 0 | Some s \<Rightarrow> ucast (st_ta s))"

definition rds_set_ta :: "st_ptr \<Rightarrow> uint8 \<Rightarrow> int \<times> st_ptr" where
  "rds_set_ta st v =
     (case st of None \<Rightarrow> (- 1, None) | Some s \<Rightarrow> (0, Some (s\<lparr>st_ta := ucast (v AND 1)\<rparr>)))"

definition rds_get_tp :: "st_ptr \<Rightarrow> uint8" where
  "rds_get_tp st = (case st of None \<Rightarrow> 0 | Some s \<Rightarrow> ucast (st_tp s))"

definition rds_set_tp :: "st_ptr \<Rightarrow> uint8 \<Rightarrow> int \<times> st_ptr" where
  "rds_set_tp st v =
     (case st of None \<Rightarrow> (- 1, None) | Some s \<Rightarrow> (0, Some (s\<lparr>st_tp := ucast (v AND 1)\<rparr>)))"

definition rds_get_ms :: "st_ptr \<Rightarrow> uint8" where
  "rds_get_ms st = (case st of None \<Rightarrow> 0 | Some s \<Rightarrow> ucast (st_ms s))"

definition rds_set_ms :: "st_ptr \<Rightarrow> uint8 \<Rightarrow> int \<times> st_ptr" where
  "rds_set_ms st v =
     (case st of None \<Rightarrow> (- 1, None) | Some s \<Rightarrow> (0, Some (s\<lparr>st_ms := ucast (v AND 1)\<rparr>)))"

definition rds_get_di :: "st_ptr \<Rightarrow> uint8" where
  "rds_get_di st = (case st of None \<Rightarrow> 0 | Some s \<Rightarrow> ucast (st_di s))"

definition rds_set_di :: "st_ptr \<Rightarrow> uint8 \<Rightarrow> int \<times> st_ptr" where
  "rds_set_di st v =
     (case st of None \<Rightarrow> (- 1, None) | Some s \<Rightarrow> (0, Some (s\<lparr>st_di := ucast (v AND 0xF)\<rparr>)))"

subsection \<open>Text fields\<close>

text \<open>
  The getters return a static buffer, one byte longer than the field: the field's bytes and a
  terminating zero.
\<close>

definition rds_get_ps :: "st_ptr \<Rightarrow> cstring option" where
  "rds_get_ps st = (case st of None \<Rightarrow> None | Some s \<Rightarrow> Some (take RDS_PS_LENGTH (st_ps s) @ [0]))"

text \<open>The character filter of \<^verbatim>\<open>rds_set_ps\<close> and \<^verbatim>\<open>rds_set_ptyn\<close>.\<close>

definition ps_char :: "char_abi \<Rightarrow> byte \<Rightarrow> byte" where
  "ps_char abi c = (if char_int abi c \<ge> 0x20 \<or> char_int abi c = 0x7F then c else 0)"

definition rds_set_ps :: "char_abi \<Rightarrow> st_ptr \<Rightarrow> cstring option \<Rightarrow> int \<times> st_ptr" where
  "rds_set_ps abi st ps =
     (case st of None \<Rightarrow> (- 1, st)
      | Some s \<Rightarrow>
        (case ps of None \<Rightarrow> (- 1, st)
         | Some p \<Rightarrow>
           (let pslen = strnlen p RDS_PS_LENGTH in
            if pslen = 0 \<or> pslen > RDS_PS_LENGTH then (- 2, st)
            else
              let s1 = s\<lparr>st_ps := replicate RDS_PS_LENGTH 0\<rparr> in
              if pslen = 0 then (0, Some (s1\<lparr>st_ps_set := 0\<rparr>))
              else
                (0, Some (s1\<lparr>st_ps := copy_loop (ps_char abi) p pslen 0 (st_ps s1),
                             st_ps_set := 1, st_ps_idx := 0\<rparr>)))))"

definition rds_get_ptyn :: "st_ptr \<Rightarrow> cstring option" where
  "rds_get_ptyn st =
     (case st of None \<Rightarrow> None
      | Some s \<Rightarrow>
          if st_ptyn_set s = 0 then None else Some (take RDS_PTYN_LENGTH (st_ptyn s) @ [0]))"

definition rds_set_ptyn :: "char_abi \<Rightarrow> st_ptr \<Rightarrow> cstring option \<Rightarrow> int \<times> st_ptr" where
  "rds_set_ptyn abi st ptyn =
     (case st of None \<Rightarrow> (- 1, st)
      | Some s \<Rightarrow>
        (case ptyn of None \<Rightarrow> (- 1, st)
         | Some p \<Rightarrow>
           (let ptynlen = strnlen p RDS_PTYN_LENGTH in
            if ptynlen > RDS_PTYN_LENGTH then (- 1, st)
            else if ptynlen = 0 then
              (0, Some (s\<lparr>st_ptyn_set := 0, st_ptyn := replicate RDS_PTYN_LENGTH 0\<rparr>))
            else
              let s1 = (if st_ptyn_set s \<noteq> 0
                        then s\<lparr>st_ptyn_flush := (if st_ptyn_flush s \<noteq> 0 then 0 else 1)\<rparr> else s);
                  s2 = s1\<lparr>st_ptyn := replicate RDS_PTYN_LENGTH 0\<rparr>
              in (0, Some (s2\<lparr>st_ptyn := copy_loop (ps_char abi) p ptynlen 0 (st_ptyn s2),
                              st_ptyn_set := 1, st_ptyn_idx := 0\<rparr>)))))"

text \<open>\<^verbatim>\<open>rds_get_rt\<close> has no \<^verbatim>\<open>NULL\<close> check: the outer \<open>None\<close> is the dereference of \<^verbatim>\<open>NULL\<close>.\<close>

definition rds_get_rt :: "st_ptr \<Rightarrow> cstring option option" where
  "rds_get_rt st =
     (case st of None \<Rightarrow> None
      | Some s \<Rightarrow>
          Some (if st_rt_set s = 0 then None else Some (take RDS_RT_LENGTH (st_rt s) @ [0])))"

text \<open>
  The character filter of \<^verbatim>\<open>rds_set_rt\<close>, with the condition as the source writes it.
\<close>

definition rt_char :: "char_abi \<Rightarrow> byte \<Rightarrow> byte" where
  "rt_char abi c =
     (let v = char_int abi c in
      if (v < 0x20 \<and> (v \<noteq> 0x0D \<or> v \<noteq> 0x0A \<or> v \<noteq> 0x0B \<or> v \<noteq> 0x1F)) \<or> v = 0x7F
      then 0 else c)"

text \<open>The loop that pads the text with spaces to a multiple of four.\<close>

function rt_pad :: "nat \<Rightarrow> byte list \<Rightarrow> nat \<times> byte list" where
  "rt_pad i rt =
     (if i mod 4 \<noteq> 0 \<and> i < RDS_RT_LENGTH - 1 then rt_pad (Suc i) (rt[i := 0x20]) else (i, rt))"
  by pat_completeness auto
termination
  by (relation "measure (\<lambda>(i, rt). RDS_RT_LENGTH - i)") auto

declare rt_pad.simps [simp del]

definition rds_set_rt :: "char_abi \<Rightarrow> st_ptr \<Rightarrow> cstring option \<Rightarrow> int \<Rightarrow> int \<times> st_ptr" where
  "rds_set_rt abi st rt flush =
     (case st of None \<Rightarrow> (- 1, st)
      | Some s \<Rightarrow>
        (case rt of None \<Rightarrow> (- 1, st)
         | Some p \<Rightarrow>
           (let rtlen = strnlen p RDS_RT_LENGTH in
            if rtlen > RDS_RT_LENGTH then (- 1, st)
            else if rtlen = 0 then
              (0, Some (s\<lparr>st_rt_set := 0, st_rt := replicate RDS_RT_LENGTH 0\<rparr>))
            else
              let s1 = (if flush \<noteq> 0 \<and> st_rt_set s \<noteq> 0
                        then s\<lparr>st_rt_flush := (if st_rt_flush s \<noteq> 0 then 0 else 1)\<rparr> else s);
                  s2 = s1\<lparr>st_rt := replicate RDS_RT_LENGTH 0\<rparr>;
                  (i, text) = rt_pad rtlen (copy_loop (rt_char abi) p rtlen 0 (st_rt s2))
              in (0, Some (s2\<lparr>st_rt := text, st_rt_segments := of_nat (i div 4),
                              st_rt_set := 1, st_rt_idx := 0\<rparr>)))))"

lemmas rds_accessor_defs [state_defs] =
  rds_get_pi_def rds_set_pi_def rds_get_ecc_def rds_set_ecc_def rds_get_lic_def rds_set_lic_def
  rds_get_pty_def rds_set_pty_def rds_get_ta_def rds_set_ta_def rds_get_tp_def rds_set_tp_def
  rds_get_ms_def rds_set_ms_def rds_get_di_def rds_set_di_def
  rds_get_ps_def rds_get_ptyn_def rds_get_rt_def

subsection \<open>The filters and the padding\<close>

text \<open>A stored character is zero or printable in the sense of the platform's \<^verbatim>\<open>char\<close>.\<close>

definition char_ok :: "char_abi \<Rightarrow> byte \<Rightarrow> bool" where
  "char_ok abi c \<longleftrightarrow> c = 0 \<or> 0x20 \<le> char_int abi c"

lemma char_int_eq_iff: "char_int abi c = char_int abi d \<longleftrightarrow> c = d"
  using word_eq_iff_signed [where ?'a = int, of c d]
  by (cases abi) (auto simp: char_int_def word_uint_eq_iff)

lemma char_int_7F [simp]: "char_int abi c = 0x7F \<longleftrightarrow> c = 0x7F"
  using char_int_eq_iff [of abi c "0x7F"] by (cases abi) (simp_all add: char_int_def)

lemma char_int_127 [simp]: "char_int abi 0x7F = 0x7F"
  by (simp only: char_int_7F)

lemma char_ok_0 [simp]: "char_ok abi 0"
  by (simp add: char_ok_def)

lemma char_ok_space [simp]: "char_ok abi 0x20"
  by (cases abi) (simp_all add: char_ok_def char_int_def)

lemma ps_char_ok [simp]: "char_ok abi (ps_char abi c)"
  by (auto simp: ps_char_def char_ok_def)

lemma rt_char_ok [simp]: "char_ok abi (rt_char abi c)"
  by (auto simp: rt_char_def char_ok_def Let_def)

text \<open>The disjunction of inequalities in \<open>rt_char\<close> holds for every character.\<close>

lemma rt_char_eq: "rt_char abi c = (if char_int abi c < 0x20 \<or> c = 0x7F then 0 else c)"
  by (auto simp: rt_char_def Let_def)

lemma ps_char_eq: "ps_char abi c = (if char_int abi c < 0x20 then 0 else c)"
  by (auto simp: ps_char_def)

text \<open>Where the padding loop stops.\<close>

definition rt_padded :: "nat \<Rightarrow> nat" where
  "rt_padded n = (if n mod 4 = 0 then n else min 63 (4 * (n div 4 + 1)))"

lemma rt_padded_split: "r < 4 \<Longrightarrow> rt_padded (4 * q + r) = (if r = 0 then 4 * q else min 63 (4 + 4 * q))"
  by (simp add: rt_padded_def)

lemma quot4E: obtains q r :: nat where "n = 4 * q + r" "r < 4"
  by (rule that [of "n div 4" "n mod 4"]) simp_all

lemma rt_padded_Suc:
  assumes "n mod 4 \<noteq> 0" "n < 63"
  shows "rt_padded (Suc n) = rt_padded n"
proof -
  obtain q r where n: "n = 4 * q + r" "r < 4" by (rule quot4E)
  show ?thesis
  proof (cases "r = 3")
    case True
    with n have "Suc n = 4 * Suc q + 0" by simp
    then have "rt_padded (Suc n) = 4 * Suc q" by (simp only: rt_padded_split) simp
    with n True assms show ?thesis by (simp add: rt_padded_split)
  next
    case False
    with n have "Suc n = 4 * q + Suc r" "Suc r < 4" by simp_all
    then have "rt_padded (Suc n) = min 63 (4 + 4 * q)" by (simp only: rt_padded_split) simp
    moreover have "rt_padded n = min 63 (4 + 4 * q)"
      using n assms by (simp add: rt_padded_split)
    ultimately show ?thesis by simp
  qed
qed

lemma quot4_le_63: "4 * q + r \<le> 64 \<Longrightarrow> r < 4 \<Longrightarrow> 0 < r \<Longrightarrow> 4 * q + r \<le> (63::nat)"
  by arith

lemma rt_padded_ge: "n \<le> 64 \<Longrightarrow> n \<le> rt_padded n"
  by (rule quot4E [of n]) (auto simp: rt_padded_split quot4_le_63)

lemma rt_padded_idle: "n \<le> 64 \<Longrightarrow> n mod 4 = 0 \<or> \<not> n < 63 \<Longrightarrow> rt_padded n = n"
proof (cases "n mod 4 = 0")
  case False
  assume "n \<le> 64" "n mod 4 = 0 \<or> \<not> n < 63"
  with False have "n = 63 \<or> n = 64" by auto
  with False show ?thesis by (auto simp: rt_padded_def)
qed (simp add: rt_padded_def)

lemma rt_padded_le: "n \<le> 64 \<Longrightarrow> rt_padded n \<le> 64"
  unfolding rt_padded_def by auto

lemma rt_pad_eq:
  "i \<le> 64 \<Longrightarrow> length rt = 64 \<Longrightarrow>
   rt_pad i rt = (rt_padded i, take i rt @ replicate (rt_padded i - i) 0x20 @ drop (rt_padded i) rt)"
proof (induction i rt rule: rt_pad.induct)
  case (1 i rt)
  show ?case
  proof (cases "i mod 4 \<noteq> 0 \<and> i < 63")
    case True
    then have ge: "Suc i \<le> rt_padded i"
      using rt_padded_ge [of "Suc i"] rt_padded_Suc [of i] by simp
    have "rt_pad i rt = rt_pad (Suc i) (rt[i := 0x20])"
      using True by (subst rt_pad.simps) simp
    also have "\<dots> = (rt_padded i, take (Suc i) (rt[i := 0x20]) @
        replicate (rt_padded i - Suc i) 0x20 @ drop (rt_padded i) (rt[i := 0x20]))"
      using True "1.IH" "1.prems" by (simp add: rt_padded_Suc)
    also have "take (Suc i) (rt[i := 0x20]) = take i rt @ [0x20]"
      using True "1.prems" by (simp add: take_Suc_conv_app_nth take_update_cancel)
    also have "drop (rt_padded i) (rt[i := 0x20]) = drop (rt_padded i) rt"
      using ge by simp
    finally show ?thesis
      using ge by (simp add: Suc_diff_Suc flip: replicate_Suc)
  next
    case False
    then have "rt_padded i = i"
      using "1.prems"(1) by (intro rt_padded_idle) simp_all
    with False show ?thesis by (subst rt_pad.simps) auto
  qed
qed

text \<open>What \<open>rds_set_rt\<close> stores for a non-empty text.\<close>

definition rt_text :: "char_abi \<Rightarrow> cstring \<Rightarrow> nat \<Rightarrow> byte list" where
  "rt_text abi p n =
     map (rt_char abi) (take n p) @ replicate (rt_padded n - n) 0x20 @ replicate (64 - rt_padded n) 0"

lemma rds_set_rt_eq:
  assumes "strnlen p RDS_RT_LENGTH = n" "n \<noteq> 0"
  shows "rds_set_rt abi (Some s) (Some p) flush =
    (0, Some (s\<lparr>st_rt_flush := (if flush \<noteq> 0 \<and> st_rt_set s \<noteq> 0
                                then (if st_rt_flush s \<noteq> 0 then 0 else 1) else st_rt_flush s),
               st_rt := rt_text abi p n, st_rt_segments := of_nat (rt_padded n div 4),
               st_rt_set := 1, st_rt_idx := 0\<rparr>))"
proof -
  have n: "n \<le> 64" "n \<le> length p"
    using assms strnlen_le [of p 64] strnlen_le_length [of p 64] by auto
  have "rt_pad n (copy_loop (rt_char abi) p n 0 (replicate 64 0)) = (rt_padded n, rt_text abi p n)"
    using n rt_padded_ge [of n] by (simp add: copy_loop_eq rt_pad_eq rt_text_def)
  with assms n show ?thesis
    by (simp add: rds_set_rt_def Let_def)
qed

lemma rds_set_rt_empty:
  "strnlen p RDS_RT_LENGTH = 0 \<Longrightarrow>
   rds_set_rt abi (Some s) (Some p) flush =
     (0, Some (s\<lparr>st_rt_set := 0, st_rt := replicate RDS_RT_LENGTH 0\<rparr>))"
  by (simp add: rds_set_rt_def)

lemma rds_set_ps_eq:
  assumes "strnlen p RDS_PS_LENGTH = n" "n \<noteq> 0"
  shows "rds_set_ps abi (Some s) (Some p) =
    (0, Some (s\<lparr>st_ps := map (ps_char abi) (take n p) @ replicate (8 - n) 0,
               st_ps_set := 1, st_ps_idx := 0\<rparr>))"
proof -
  have "n \<le> 8" "n \<le> length p"
    using assms strnlen_le [of p 8] strnlen_le_length [of p 8] by auto
  with assms show ?thesis
    by (simp add: rds_set_ps_def Let_def copy_loop_eq)
qed

lemma rds_set_ptyn_eq:
  assumes "strnlen p RDS_PTYN_LENGTH = n" "n \<noteq> 0"
  shows "rds_set_ptyn abi (Some s) (Some p) =
    (0, Some (s\<lparr>st_ptyn_flush := (if st_ptyn_set s \<noteq> 0
                                  then (if st_ptyn_flush s \<noteq> 0 then 0 else 1) else st_ptyn_flush s),
               st_ptyn := map (ps_char abi) (take n p) @ replicate (8 - n) 0,
               st_ptyn_set := 1, st_ptyn_idx := 0\<rparr>))"
proof -
  have "n \<le> 8" "n \<le> length p"
    using assms strnlen_le [of p 8] strnlen_le_length [of p 8] by auto
  with assms show ?thesis
    by (simp add: rds_set_ptyn_def Let_def copy_loop_eq)
qed

subsection \<open>The invariant of the shared state\<close>

definition rds_state_wf :: "char_abi \<Rightarrow> rds_encoder_state \<Rightarrow> bool" where
  "rds_state_wf abi s \<longleftrightarrow>
     length (st_ps s) = 8 \<and> length (st_ptyn s) = 8 \<and> length (st_rt s) = 64 \<and>
     length (st_af_data s) = 12 \<and>
     list_all (char_ok abi) (st_ps s) \<and> list_all (char_ok abi) (st_ptyn s) \<and>
     list_all (char_ok abi) (st_rt s) \<and>
     unat (st_rt_idx s) < max 1 (unat (st_rt_segments s)) \<and>
     unat (st_af_idx s) \<le> 10 \<and> even (unat (st_af_idx s))"

lemma rds_state_wf_zero: "rds_state_wf abi rds_state_zero"
  by (simp add: rds_state_wf_def rds_state_zero_def list_all_iff)

lemma length_rt_text: "n \<le> 64 \<Longrightarrow> n \<le> length p \<Longrightarrow> length (rt_text abi p n) = 64"
  using rt_padded_ge [of n] rt_padded_le [of n] by (simp add: rt_text_def)

lemma rt_text_ok: "list_all (char_ok abi) (rt_text abi p n)"
  by (auto simp: rt_text_def list_all_iff)

lemma list_all_filtered: "list_all (char_ok abi) (map (ps_char abi) xs @ replicate k 0)"
  by (auto simp: list_all_iff)

lemma rds_set_ps_wf:
  assumes "rds_state_wf abi s"
  shows "\<exists>s'. snd (rds_set_ps abi (Some s) ps) = Some s' \<and> rds_state_wf abi s'"
proof (cases "ps = None \<or> strnlen (the ps) 8 = 0")
  case True
  with assms show ?thesis by (auto simp: rds_set_ps_def Let_def split: option.splits)
next
  case False
  with assms show ?thesis
    by (auto simp: rds_set_ps_eq rds_state_wf_def list_all_iff)
qed

lemma rds_set_ptyn_wf:
  assumes "rds_state_wf abi s"
  shows "\<exists>s'. snd (rds_set_ptyn abi (Some s) ptyn) = Some s' \<and> rds_state_wf abi s'"
proof (cases "ptyn = None \<or> strnlen (the ptyn) 8 = 0")
  case True
  with assms show ?thesis
    by (auto simp: rds_set_ptyn_def rds_state_wf_def list_all_iff Let_def split: option.splits)
next
  case False
  with assms show ?thesis
    by (auto simp: rds_set_ptyn_eq rds_state_wf_def list_all_iff)
qed

lemma rds_set_rt_wf:
  assumes "rds_state_wf abi s"
  shows "\<exists>s'. snd (rds_set_rt abi (Some s) rt flush) = Some s' \<and> rds_state_wf abi s'"
proof (cases "rt = None \<or> strnlen (the rt) 64 = 0")
  case True
  with assms show ?thesis
    by (auto simp: rds_set_rt_def rds_state_wf_def list_all_iff Let_def split: option.splits)
next
  case False
  with assms show ?thesis
    by (auto simp: rds_set_rt_eq rds_state_wf_def length_rt_text rt_text_ok)
qed

text \<open>
  Everything a client of the shared memory (the command line tool, the GUI) does to the state,
  as commands.
\<close>

datatype rds_cmd =
    Set_Enabled uint8
  | Set_Pi uint16
  | Set_Ecc uint8
  | Set_Lic uint16
  | Set_Pty uint8
  | Set_Ta uint8
  | Set_Tp uint8
  | Set_Ms uint8
  | Set_Di uint8
  | Set_Ps "cstring option"
  | Set_Ptyn "cstring option"
  | Set_Rt "cstring option" int

fun rds_apply :: "char_abi \<Rightarrow> rds_cmd \<Rightarrow> st_ptr \<Rightarrow> int \<times> st_ptr" where
  "rds_apply abi (Set_Enabled v) st = (0, map_option (\<lambda>s. s\<lparr>st_enabled := v\<rparr>) st)"
| "rds_apply abi (Set_Pi v) st = rds_set_pi st v"
| "rds_apply abi (Set_Ecc v) st = rds_set_ecc st v"
| "rds_apply abi (Set_Lic v) st = rds_set_lic st v"
| "rds_apply abi (Set_Pty v) st = rds_set_pty st v"
| "rds_apply abi (Set_Ta v) st = rds_set_ta st v"
| "rds_apply abi (Set_Tp v) st = rds_set_tp st v"
| "rds_apply abi (Set_Ms v) st = rds_set_ms st v"
| "rds_apply abi (Set_Di v) st = rds_set_di st v"
| "rds_apply abi (Set_Ps p) st = rds_set_ps abi st p"
| "rds_apply abi (Set_Ptyn p) st = rds_set_ptyn abi st p"
| "rds_apply abi (Set_Rt p f) st = rds_set_rt abi st p f"

lemma rds_state_wf_frame:
  assumes "rds_state_wf abi s"
    and "st_ps s' = st_ps s" "st_ptyn s' = st_ptyn s" "st_rt s' = st_rt s"
    and "st_af_data s' = st_af_data s" "st_rt_idx s' = st_rt_idx s"
    and "st_rt_segments s' = st_rt_segments s" "st_af_idx s' = st_af_idx s"
  shows "rds_state_wf abi s'"
  using assms by (simp add: rds_state_wf_def)

lemma rds_apply_wf:
  assumes "rds_state_wf abi s"
  shows "\<exists>s'. snd (rds_apply abi c (Some s)) = Some s' \<and> rds_state_wf abi s'"
proof (cases "(\<exists>p. c = Set_Ps p) \<or> (\<exists>p. c = Set_Ptyn p) \<or> (\<exists>p f. c = Set_Rt p f)")
  case True
  with assms show ?thesis
    by (auto intro: rds_set_ps_wf rds_set_ptyn_wf rds_set_rt_wf)
next
  case False
  then show ?thesis
    by (cases c) (auto simp: state_defs Let_def intro!: rds_state_wf_frame [OF assms])
qed

subsection \<open>The bit-field interface\<close>

text \<open>
  \<^verbatim>\<open>rds_encoder.h\<close> declares \<^verbatim>\<open>rds_bf_getter\<close> and \<^verbatim>\<open>rds_bf_setter\<close>, the function types through
  which the GUI accesses a flag of the state. Their contract: a setter stores the bits of the
  field, its getter returns them, \<^verbatim>\<open>NULL\<close> is refused.
\<close>

locale bf_access =
  fixes getter :: "st_ptr \<Rightarrow> uint8"
    and setter :: "st_ptr \<Rightarrow> uint8 \<Rightarrow> int \<times> st_ptr"
    and field_mask :: uint8
  assumes get_null: "getter None = 0"
    and set_null: "setter None v = (- 1, None)"
    and set_ok: "\<exists>s'. setter (Some s) v = (0, Some s')"
    and get_set: "getter (snd (setter (Some s) v)) = v AND field_mask"
    and get_mask: "getter st AND field_mask = getter st"
    and set_get: "setter (Some s) (getter (Some s)) = (0, Some s)"
    and set_set: "setter (snd (setter (Some s) u)) v = setter (Some s) v"
begin

lemma set_some: "\<exists>s'. snd (setter (Some s) v) = Some s'"
  using set_ok [of s v] by auto

text \<open>Setting and clearing bits of the field leaves its other bits alone.\<close>

lemma get_set_or:
  assumes "m AND field_mask = m"
  shows "getter (snd (setter (Some s) (getter (Some s) OR m))) = getter (Some s) OR m"
proof -
  have "(getter (Some s) OR m) AND field_mask = getter (Some s) AND field_mask OR m AND field_mask"
    by (rule bit_word_eqI) (auto simp: bit_simps)
  then show ?thesis by (simp only: get_set get_mask assms)
qed

lemma get_set_and_not:
  "getter (snd (setter (Some s) (getter (Some s) AND NOT m))) = getter (Some s) AND NOT m"
proof -
  have "(getter (Some s) AND NOT m) AND field_mask = (getter (Some s) AND field_mask) AND NOT m"
    by (rule bit_word_eqI) (auto simp: bit_simps)
  then show ?thesis by (simp only: get_set get_mask)
qed

end

text \<open>A field of \<open>LENGTH('n)\<close> bits in an 8-bit argument, with the mask the setters use.\<close>

lemma bf_mask:
  fixes w :: "'n::len word" and v m :: uint8
  assumes "m = mask LENGTH('n)" "LENGTH('n) \<le> 8"
  shows "(ucast (ucast (v AND m) :: 'n word) :: uint8) = v AND m"
    and "(ucast w :: uint8) AND m = ucast w"
    and "(ucast (ucast w :: uint8) :: 'n word) = w"
  using assms by (auto intro!: bit_word_eqI simp: bit_simps dest: bit_imp_le_length)

lemma mask_4_eq: "(0xF :: uint8) = mask LENGTH(4)"
  by (simp add: mask_numeral)

lemmas bf_mask_1 = bf_mask [where ?'n = 1 and m = 1, simplified]
lemmas bf_mask_4 = bf_mask [where ?'n = 4 and m = "0xF", OF mask_4_eq, simplified]

interpretation ta: bf_access rds_get_ta rds_set_ta 1
  by unfold_locales (auto simp: rds_get_ta_def rds_set_ta_def bf_mask_1 split: option.splits)

interpretation tp: bf_access rds_get_tp rds_set_tp 1
  by unfold_locales (auto simp: rds_get_tp_def rds_set_tp_def bf_mask_1 split: option.splits)

interpretation ms: bf_access rds_get_ms rds_set_ms 1
  by unfold_locales (auto simp: rds_get_ms_def rds_set_ms_def bf_mask_1 split: option.splits)

interpretation di: bf_access rds_get_di rds_set_di "0xF"
  by unfold_locales (auto simp: rds_get_di_def rds_set_di_def bf_mask_4 split: option.splits)

end
