(* ===== verification/Rds_Dyn.thy ===== *)
theory Rds_Dyn
  imports Rds_State
begin

text \<open>
  Dynamic programme service name and dynamic radio text (\<^verbatim>\<open>rds_dynpsrt.c\<close>): a monitor thread
  reads a file whenever it changes, a consumer thread feeds the text to the encoder piece by piece.
  Both threads work under one mutex, so an iteration of either is one step on the shared data; the
  sleeping, the inotify calls and the log are outside the model. The file is the list of its bytes,
  \<open>None\<close> when it cannot be opened; \<^verbatim>\<open>fgets\<close> and \<^verbatim>\<open>getline\<close> are modelled on it.
\<close>

subsection \<open>Trimming a string\<close>

text \<open>
  The loop over trailing white space (lines 59 to 62) reads \<^verbatim>\<open>string[len - i]\<close> before it tests
  \<^verbatim>\<open>i <= len\<close>. Its position is the number \<open>len + 1 - i\<close> of bytes left; at 0 the code reads the
  byte before the string, which the flag in the result records, and stops whatever it finds there.
\<close>

fun trim_trailing :: "nat \<Rightarrow> cstring \<Rightarrow> nat \<times> cstring \<times> bool" where
  "trim_trailing 0 s = (0, s, True)"
| "trim_trailing (Suc r) s = (if isspace (s ! r) then trim_trailing r (s[r := 0]) else (Suc r, s, False))"

lemma trim_trailing_numeral:
  "trim_trailing (numeral k) s =
     (if isspace (s ! pred_numeral k) then trim_trailing (pred_numeral k) (s[pred_numeral k := 0])
      else (numeral k, s, False))"
  by (simp add: numeral_eq_Suc)

text \<open>The loop over leading white space (lines 69 and 70).\<close>

function skip_leading :: "cstring \<Rightarrow> nat \<Rightarrow> nat \<Rightarrow> nat" where
  "skip_leading s len off = (if isspace (s ! off) \<and> off < len - 1 then skip_leading s len (Suc off) else off)"
  by pat_completeness auto
termination
  by (relation "measure (\<lambda>(s, len, off). len - off)") auto

declare skip_leading.simps [simp del]

definition memmove :: "cstring \<Rightarrow> nat \<Rightarrow> nat \<Rightarrow> cstring" where
  "memmove s off n = take n (drop off s) @ drop n s"

text \<open>The C result, the string after the call, and whether a byte before the string was read.\<close>

definition rds_string_sanitize :: "cstring \<Rightarrow> nat \<Rightarrow> int \<times> cstring \<times> bool" where
  "rds_string_sanitize string max_len =
     (let len = strnlen string max_len in
      if len = 0 then (- 1, string, False)
      else
        case trim_trailing len string of
          (left, string, before) \<Rightarrow>
            let i = len + 1 - left in
            if i = len then (- 2, string, before)
            else
              let off = skip_leading string len 0;
                  string = (if off > 0 then
                              let string = memmove string off (len - off)
                              in if \<not> isspace (string ! (len - 1)) then string[len - off - 1 := 0] else string
                            else string)
              in (int (strnlen string max_len), string, before))"

subsection \<open>Dynamic PS\<close>

text \<open>
  The state of the threads, without the locks. A thread id is a number, 0 where no thread was
  started. What the code asks of the system when it stops is a list of calls.
\<close>

abbreviation (input) DYNPS_MAX_CHARS :: nat where "DYNPS_MAX_CHARS \<equiv> 65"

record rds_dynps_state =
  dps_string :: cstring
  dps_fixed_ps :: cstring
  dps_string_len :: int
  dps_remaining_len :: int
  dps_filemon_tid :: nat
  dps_consumer_tid :: nat
  dps_active :: int
  dps_inotify_fd :: int
  dps_watch_fd :: int

datatype os_call = Cond_Signal | Pthread_Join nat | Inotify_Rm_Watch int int | Close_Fd int

definition stop_calls :: "nat \<Rightarrow> int \<Rightarrow> int \<Rightarrow> nat \<Rightarrow> os_call list" where
  "stop_calls consumer_tid inotify_fd watch_fd filemon_tid =
     [Cond_Signal] @
     (if consumer_tid \<noteq> 0 then [Pthread_Join consumer_tid] else []) @
     (if inotify_fd \<noteq> 0 \<and> watch_fd \<noteq> 0 then [Inotify_Rm_Watch inotify_fd watch_fd] else []) @
     (if inotify_fd \<noteq> 0 then [Close_Fd inotify_fd] else []) @
     (if filemon_tid \<noteq> 0 then [Pthread_Join filemon_tid] else [])"

text \<open>\<^verbatim>\<open>fgets\<close> with a buffer of \<open>n\<close> bytes: at most \<open>n - 1\<close> bytes, up to and including a newline.\<close>

definition take_line :: "byte list \<Rightarrow> byte list" where
  "take_line xs = takeWhile (\<lambda>c. c \<noteq> 0x0A) xs @ (if 0x0A \<in> set xs then [0x0A] else [])"

definition fgets :: "nat \<Rightarrow> byte list \<Rightarrow> byte list option" where
  "fgets n xs = (if xs = [] then None else Some (take_line (take (n - 1) xs)))"

text \<open>One iteration of the consumer, after its sleep (lines 114 to 138).\<close>

definition dynps_consume ::
  "char_abi \<Rightarrow> rds_dynps_state \<times> st_ptr \<Rightarrow> rds_dynps_state \<times> st_ptr" where
  "dynps_consume abi s =
     (case s of (dps, st) \<Rightarrow>
        if dps_string_len dps \<noteq> 0 then
          (if dps_remaining_len dps = 0 then
             (dps\<lparr>dps_remaining_len := dps_string_len dps\<rparr>, snd (rds_set_ps abi st (Some (dps_fixed_ps dps))))
           else
             let off = nat (dps_string_len dps - dps_remaining_len dps);
                 segment_len = nat (if dps_remaining_len dps \<ge> 8 then 8 else dps_remaining_len dps);
                 segment = take segment_len (drop off (dps_string dps)) @ replicate (8 - segment_len) 0
             in (dps\<lparr>dps_remaining_len := (if dps_remaining_len dps \<ge> 8 then dps_remaining_len dps - 8 else 0)\<rparr>,
                 snd (rds_set_ps abi st (Some segment))))
        else (dps, st))"

text \<open>One event of the file monitor that is not the end of the watch (lines 170 to 191).\<close>

definition dynps_filemon :: "byte list option \<Rightarrow> rds_dynps_state \<Rightarrow> rds_dynps_state" where
  "dynps_filemon file dps =
     (case file of
        None \<Rightarrow> dps
      | Some content \<Rightarrow>
          (case fgets DYNPS_MAX_CHARS content of
             None \<Rightarrow> dps\<lparr>dps_string := replicate DYNPS_MAX_CHARS 0, dps_string_len := 0\<rparr>
           | Some line \<Rightarrow>
               (case rds_string_sanitize (line @ replicate (DYNPS_MAX_CHARS - length line) 0) DYNPS_MAX_CHARS of
                  (ret, string, _) \<Rightarrow>
                    if ret > 0 then
                      dps\<lparr>dps_string := string, dps_string_len := ret, dps_remaining_len := ret\<rparr>
                    else dps\<lparr>dps_string := string, dps_string_len := 0\<rparr>)))"

text \<open>
  Stopping joins the threads, removes the watch and restores the fixed name. The results of the
  system calls of the initialisation are parameters: \<^verbatim>\<open>inotify_init\<close>, \<^verbatim>\<open>inotify_add_watch\<close>, and
  for each of the two \<^verbatim>\<open>pthread_create\<close> its result and the thread id it stores. A failure runs
  \<open>rds_dynps_destroy\<close> on what has been set up.
\<close>

definition rds_dynps_destroy ::
  "char_abi \<Rightarrow> rds_dynps_state \<times> st_ptr \<Rightarrow> (rds_dynps_state \<times> st_ptr) \<times> os_call list" where
  "rds_dynps_destroy abi s =
     (case s of (dps, st) \<Rightarrow>
        ((dps\<lparr>dps_active := 0\<rparr>, snd (rds_set_ps abi st (Some (dps_fixed_ps dps)))),
         stop_calls (dps_consumer_tid dps) (dps_inotify_fd dps) (dps_watch_fd dps) (dps_filemon_tid dps)))"

definition rds_dynps_zero :: rds_dynps_state where
  "rds_dynps_zero =
     \<lparr>dps_string = replicate DYNPS_MAX_CHARS 0, dps_fixed_ps = replicate 9 0, dps_string_len = 0,
      dps_remaining_len = 0, dps_filemon_tid = 0, dps_consumer_tid = 0, dps_active = 0,
      dps_inotify_fd = 0, dps_watch_fd = 0\<rparr>"

definition rds_dynps_init ::
  "char_abi \<Rightarrow> int \<Rightarrow> int \<Rightarrow> int \<times> nat \<Rightarrow> int \<times> nat \<Rightarrow> rds_dynps_state \<Rightarrow> rds_encoder_state \<Rightarrow>
   int \<times> (rds_dynps_state \<times> st_ptr) \<times> os_call list" where
  "rds_dynps_init abi ifd wfd create1 create2 dps st =
     (if st_ps_set st = 0 then (- 1, (dps, Some st), [])
      else
        let dps = rds_dynps_zero;
            dps = dps\<lparr>dps_fixed_ps := strncpy (dps_fixed_ps dps) (st_ps st) RDS_PS_LENGTH,
                      dps_inotify_fd := ifd\<rparr>
        in if ifd < 0 then (- 2, rds_dynps_destroy abi (dps, Some st))
           else
             let dps = dps\<lparr>dps_watch_fd := wfd\<rparr>
             in if wfd < 0 then (- 3, rds_dynps_destroy abi (dps, Some st))
                else
                  let dps = dps\<lparr>dps_active := 1, dps_filemon_tid := snd create1\<rparr>
                  in if fst create1 \<noteq> 0 then (- 4, rds_dynps_destroy abi (dps, Some st))
                     else
                       let dps = dps\<lparr>dps_consumer_tid := snd create2\<rparr>
                       in if fst create2 \<noteq> 0 then (- 5, rds_dynps_destroy abi (dps, Some st))
                          else (fst create2, (dps, Some st), []))"

subsection \<open>Dynamic RT\<close>

abbreviation (input) DYNRT_MAX_SEGMENTS :: nat where "DYNRT_MAX_SEGMENTS \<equiv> 3"

record rds_dynrt_state =
  drt_rt_segments :: "cstring list"
  drt_fixed_rt :: cstring
  drt_curr_segment :: int
  drt_num_segments :: int
  drt_filemon_tid :: nat
  drt_consumer_tid :: nat
  drt_active :: int
  drt_inotify_fd :: int
  drt_watch_fd :: int

text \<open>One iteration of the consumer (lines 298 to 308).\<close>

definition dynrt_consume ::
  "char_abi \<Rightarrow> rds_dynrt_state \<times> st_ptr \<Rightarrow> rds_dynrt_state \<times> st_ptr" where
  "dynrt_consume abi s =
     (case s of (drt, st) \<Rightarrow>
        if drt_num_segments drt \<noteq> 0 then
          let drt = (if drt_curr_segment drt \<ge> drt_num_segments drt then drt\<lparr>drt_curr_segment := 0\<rparr> else drt);
              seg = drt_rt_segments drt ! nat (drt_curr_segment drt)
          in (drt\<lparr>drt_curr_segment := drt_curr_segment drt + 1\<rparr>, snd (rds_set_rt abi st (Some seg) 1))
        else (drt, st))"

text \<open>
  \<^verbatim>\<open>getline\<close> returns the length of the next line with its newline, \<open>- 1\<close> at the end of the file;
  the line and a zero byte are in the buffer.
\<close>

definition rds_dynrt_get_line :: "byte list \<Rightarrow> int \<times> cstring \<times> byte list" where
  "rds_dynrt_get_line content =
     (let line = take_line content; rest = drop (length line) content in
      if content = [] then (- 1, [], rest)
      else if length line > 64 then (- 1, line @ [0], rest)
      else case rds_string_sanitize (line @ [0]) (length line + 1) of (ret, res, _) \<Rightarrow> (ret, res, rest))"

text \<open>The loop over the lines of the file (lines 379 to 387).\<close>

fun dynrt_lines :: "nat \<Rightarrow> byte list \<Rightarrow> rds_dynrt_state \<Rightarrow> rds_dynrt_state" where
  "dynrt_lines 0 content drt = drt"
| "dynrt_lines (Suc n) content drt =
     (case rds_dynrt_get_line content of
        (ret, res, rest) \<Rightarrow>
          if ret < 0 then drt
          else
            dynrt_lines n rest
              (drt\<lparr>drt_rt_segments := (drt_rt_segments drt)[nat (drt_num_segments drt) :=
                     strncpy (replicate 65 0) res (nat ret)],
                   drt_num_segments := drt_num_segments drt + 1\<rparr>))"

text \<open>
  One event of the monitor. The fallback at the end runs after the lock is released; only this
  thread writes \<open>drt_num_segments\<close>, and the consumer does nothing while it is 0, so the two parts
  are one step.
\<close>

definition dynrt_filemon ::
  "char_abi \<Rightarrow> byte list option \<Rightarrow> rds_dynrt_state \<times> st_ptr \<Rightarrow> rds_dynrt_state \<times> st_ptr" where
  "dynrt_filemon abi file s =
     (case s of (drt, st) \<Rightarrow>
        (case file of
           None \<Rightarrow> (drt, st)
         | Some content \<Rightarrow>
             let drt = dynrt_lines DYNRT_MAX_SEGMENTS content (drt\<lparr>drt_num_segments := 0\<rparr>)
             in (drt, if drt_num_segments drt = 0 then snd (rds_set_rt abi st (Some (drt_fixed_rt drt)) 1) else st)))"

definition rds_dynrt_destroy ::
  "char_abi \<Rightarrow> rds_dynrt_state \<times> st_ptr \<Rightarrow> (rds_dynrt_state \<times> st_ptr) \<times> os_call list" where
  "rds_dynrt_destroy abi s =
     (case s of (drt, st) \<Rightarrow>
        ((drt\<lparr>drt_active := 0\<rparr>, snd (rds_set_rt abi st (Some (drt_fixed_rt drt)) 1)),
         stop_calls (drt_consumer_tid drt) (drt_inotify_fd drt) (drt_watch_fd drt) (drt_filemon_tid drt)))"

definition rds_dynrt_zero :: rds_dynrt_state where
  "rds_dynrt_zero =
     \<lparr>drt_rt_segments = replicate DYNRT_MAX_SEGMENTS (replicate 65 0), drt_fixed_rt = replicate 65 0,
      drt_curr_segment = 0, drt_num_segments = 0, drt_filemon_tid = 0, drt_consumer_tid = 0,
      drt_active = 0, drt_inotify_fd = 0, drt_watch_fd = 0\<rparr>"

definition rds_dynrt_init ::
  "char_abi \<Rightarrow> int \<Rightarrow> int \<Rightarrow> int \<times> nat \<Rightarrow> int \<times> nat \<Rightarrow> rds_dynrt_state \<Rightarrow> rds_encoder_state \<Rightarrow>
   int \<times> (rds_dynrt_state \<times> st_ptr) \<times> os_call list" where
  "rds_dynrt_init abi ifd wfd create1 create2 drt st =
     (if st_rt_set st = 0 then (- 1, (drt, Some st), [])
      else
        let drt = rds_dynrt_zero;
            drt = drt\<lparr>drt_fixed_rt := strncpy (drt_fixed_rt drt) (st_rt st) RDS_RT_LENGTH,
                      drt_inotify_fd := ifd\<rparr>
        in if ifd < 0 then (- 2, rds_dynrt_destroy abi (drt, Some st))
           else
             let drt = drt\<lparr>drt_watch_fd := wfd\<rparr>
             in if wfd < 0 then (- 3, rds_dynrt_destroy abi (drt, Some st))
                else
                  let drt = drt\<lparr>drt_active := 1, drt_filemon_tid := snd create1\<rparr>
                  in if fst create1 \<noteq> 0 then (- 4, rds_dynrt_destroy abi (drt, Some st))
                     else
                       let drt = drt\<lparr>drt_consumer_tid := snd create2\<rparr>
                       in if fst create2 \<noteq> 0 then (- 5, rds_dynrt_destroy abi (drt, Some st))
                          else (fst create2, (drt, Some st), []))"

subsection \<open>What trimming returns\<close>

definition strip_end :: "cstring \<Rightarrow> cstring" where
  "strip_end xs = rev (dropWhile isspace (rev xs))"

lemma strip_end_snoc [simp]: "strip_end (xs @ [c]) = (if isspace c then strip_end xs else xs @ [c])"
  by (simp add: strip_end_def)

lemma strip_end_Nil [simp]: "strip_end [] = []"
  by (simp add: strip_end_def)

lemma strip_end_le: "length (strip_end xs) \<le> length xs"
  using length_dropWhile_le [of isspace "rev xs"] by (simp add: strip_end_def)

lemma strip_end_take: "strip_end xs = take (length (strip_end xs)) xs"
  using strip_end_le by (induction xs rule: rev_induct) auto

lemma strip_end_last: "strip_end xs \<noteq> [] \<Longrightarrow> \<not> isspace (last (strip_end xs))"
  by (induction xs rule: rev_induct) auto

lemma trim_trailing_eq:
  "n \<le> length s \<Longrightarrow>
   trim_trailing n s =
     (length (strip_end (take n s)),
      strip_end (take n s) @ replicate (n - length (strip_end (take n s))) 0 @ drop n s,
      strip_end (take n s) = [])"
proof (induction n arbitrary: s)
  case (Suc r)
  then have t: "take (Suc r) s = take r s @ [s ! r]" "take r (s[r := 0]) = take r s"
    "drop r (s[r := 0]) = 0 # drop (Suc r) s"
    by (auto simp: take_Suc_conv_app_nth drop_update_swap Cons_nth_drop_Suc [symmetric])
  have "Suc r - length (strip_end (take r s)) = Suc (r - length (strip_end (take r s)))"
    using strip_end_le [of "take r s"] Suc.prems by (simp add: Suc_diff_le)
  with Suc t show ?case
    by (auto simp: replicate_append_same intro: id_take_nth_drop)
qed simp

lemma skip_leading_eq:
  "off + length (takeWhile isspace (drop off s)) < len \<Longrightarrow>
   off + length (takeWhile isspace (drop off s)) < length s \<Longrightarrow>
   skip_leading s len off = off + length (takeWhile isspace (drop off s))"
proof (induction s len off rule: skip_leading.induct)
  case (1 s len off)
  then have d: "drop off s = s ! off # drop (Suc off) s"
    by (simp add: Cons_nth_drop_Suc)
  show ?case
    using 1 d by (subst skip_leading.simps) auto
qed

text \<open>The text the buffer holds, without white space at its ends; and what the code keeps of it.\<close>

definition sanitized :: "cstring \<Rightarrow> cstring" where
  "sanitized text =
     (let core = strip_end text; stripped = dropWhile isspace core
      in if core = text \<and> stripped \<noteq> core then butlast stripped else stripped)"

lemma dropWhile_drop: "dropWhile P xs = drop (length (takeWhile P xs)) xs"
  by (rule dropWhile_eq_drop)

lemma takeWhile_core:
  assumes "core \<noteq> []" "\<not> isspace (last core)"
  shows "takeWhile isspace (core @ ys) = takeWhile isspace core"
    and "length (takeWhile isspace core) < length core"
proof -
  have "last core \<in> set core" using assms by simp
  with assms(2) show "takeWhile isspace (core @ ys) = takeWhile isspace core"
    by (metis takeWhile_append1)
  have "\<exists>x \<in> set core. \<not> isspace x" using assms by auto
  then show "length (takeWhile isspace core) < length core"
    by (metis takeWhile_eq_all_conv length_takeWhile_le le_neq_implies_less takeWhile_eq_take take_all_iff le_refl)
qed

lemma strnlen_prefix:
  assumes "0 \<notin> set xs" "length xs < n"
  shows "strnlen (xs @ 0 # ys) n = length xs"
proof -
  obtain m where m: "n - length xs = Suc m" using assms(2) by (metis Suc_diff_Suc)
  have "takeWhile (\<lambda>c. c \<noteq> 0) (xs @ 0 # take m ys) = xs"
    using assms(1) by (subst takeWhile_append2) auto
  with m assms(2) show ?thesis by (simp add: strnlen_def)
qed

lemma strnlen_full:
  assumes "0 \<notin> set xs" "length xs = n"
  shows "strnlen (xs @ ys) n = n"
proof -
  have "takeWhile (\<lambda>c. c \<noteq> 0) xs = xs" using assms(1) by (auto simp: takeWhile_eq_all_conv)
  then have "length (takeWhile (\<lambda>c. c \<noteq> 0) xs) = n" using assms(2) by (simp only:)
  with assms(2) show ?thesis by (simp add: strnlen_def)
qed

text \<open>Shifting the core of the string to the front (lines 73 to 79).\<close>

lemma shift_core:
  assumes core: "core \<noteq> []" "\<not> isspace (last core)" and off: "0 < off" "off < length core"
    and len: "len = length core + t" and S: "S = core @ replicate t 0 @ rest"
  defines "S' \<equiv> memmove S off (len - off)"
  shows "\<exists>ys. (if \<not> isspace (S' ! (len - 1)) then S'[len - off - 1 := 0] else S') =
           (if t = 0 then butlast (drop off core) else drop off core) @ 0 # ys"
proof -
  have S': "S' = drop off core @ replicate t 0 @ drop (len - off) S"
    using off by (simp add: S'_def memmove_def S len)
  have lenS: "len \<le> length S" by (simp add: S len)
  have pos: "\<not> len - 1 < len - off" "len - 1 - (len - off) = off - 1" using off len by arith+
  have "length (take (len - off) (drop off S)) = len - off" using off len lenS by simp
  then have "S' ! (len - 1) = drop (len - off) S ! (off - 1)"
    unfolding S'_def memmove_def nth_append by (simp only: pos if_False)
  also have "\<dots> = S ! (len - 1)"
    using off len lenS by (subst nth_drop) (simp_all add: add.commute)
  also have "\<dots> = (if t = 0 then last core else 0)"
    using core off by (auto simp: S len nth_append last_conv_nth)
  finally have ns: "\<not> isspace (S' ! (len - 1))" using core by simp
  show ?thesis
  proof (cases t)
    case 0
    have "drop off core = butlast (drop off core) @ [last core]"
      using off by (metis append_butlast_last_id drop_eq_Nil last_drop not_le)
    then have "S' = butlast (drop off core) @ last core # drop (len - off) S"
      unfolding S' 0 by (metis append.assoc append_Cons append_Nil replicate_0)
    moreover have "len - off - 1 = length (butlast (drop off core))"
      using off 0 len by simp
    ultimately have "S'[len - off - 1 := 0] = butlast (drop off core) @ 0 # drop (len - off) S"
      by (simp only: list_update_length)
    with ns 0 show ?thesis by auto
  next
    case (Suc k)
    have "S' ! (len - off - 1) = 0"
    proof -
      have "S' = (drop off core @ replicate k 0) @ 0 # drop (len - off) S"
        unfolding S' Suc by (simp add: replicate_append_same)
      moreover have "len - off - 1 = length (drop off core @ replicate k 0)"
        using off len Suc by simp
      ultimately show ?thesis by (simp only: nth_append_length)
    qed
    then have "S'[len - off - 1 := 0] = S'" by (metis list_update_id)
    moreover have "S' = drop off core @ 0 # (replicate k 0 @ drop (len - off) S)"
      unfolding S' Suc by simp
    ultimately show ?thesis using ns Suc by auto
  qed
qed

lemma sanitized_subset: "set (sanitized text) \<subseteq> set text"
proof -
  have core: "set (strip_end text) \<subseteq> set text"
    by (subst strip_end_take) (rule set_take_subset)
  have "set (dropWhile isspace (strip_end text)) \<subseteq> set text"
    using core set_dropWhileD by fast
  moreover have "set (butlast xs) \<subseteq> set xs" for xs :: cstring
    by (auto dest: in_set_butlastD)
  ultimately show ?thesis
    unfolding sanitized_def Let_def by (simp only: split: if_split) blast
qed

lemma sanitized_le: "length (sanitized text) \<le> length text"
  using length_dropWhile_le [of isspace "strip_end text"] strip_end_le [of "text"]
  by (cases "strip_end text = text") (auto simp: sanitized_def Let_def)

lemma length_memmove: "off + n \<le> length s \<Longrightarrow> length (memmove s off n) = length s"
  by (simp add: memmove_def)

lemma skip_leading_le: "off < len \<Longrightarrow> skip_leading s len off \<le> len"
proof (induction s len off rule: skip_leading.induct)
  case (1 s len off)
  then show ?case by (subst skip_leading.simps) auto
qed

lemma rds_string_sanitize_empty:
  "strnlen s n = 0 \<Longrightarrow> rds_string_sanitize s n = (- 1, s, False)"
  by (simp add: rds_string_sanitize_def)

lemma rds_string_sanitize_single:
  assumes "length (strip_end (take (strnlen s n) s)) = 1"
  shows "\<exists>s'. rds_string_sanitize s n = (- 2, s', False) \<and> length s' = length s"
proof -
  have "strnlen s n \<noteq> 0" using assms by (intro notI) simp
  moreover from this have "0 < length s" using strnlen_le_length [of s n] by linarith
  moreover have "strip_end (take (strnlen s n) s) \<noteq> []" using assms by auto
  ultimately show ?thesis
    using assms by (simp add: rds_string_sanitize_def trim_trailing_eq Let_def)
qed

lemma rds_string_sanitize_ok:
  fixes s n
  defines "str \<equiv> take (strnlen s n) s"
  assumes "str \<noteq> []" and not1: "length (strip_end str) \<noteq> 1"
  shows "\<exists>ys. rds_string_sanitize s n =
    (int (length (sanitized str)), sanitized str @ ys, strip_end str = []) \<and>
    length (sanitized str @ ys) = length s"
proof -
  define len where "len = strnlen s n"
  define core where "core = strip_end str"
  define t where "t = len - length core"
  define rest where "rest = drop len s"
  define S where "S = core @ replicate t 0 @ rest"
  define off where "off = skip_leading S len 0"
  define S2 where "S2 = (if off > 0 then let string = memmove S off (len - off)
      in if \<not> isspace (string ! (len - 1)) then string[len - off - 1 := 0] else string else S)"
  have len: "len = length str" "len \<le> n" "len \<le> length s" "0 < len"
    using assms by (auto simp: len_def)
  have nz: "0 \<notin> set str" using take_strnlen [of s n] by (auto simp: str_def dest: set_takeWhileD)
  have trim: "trim_trailing len s = (length core, S, core = [])"
    using trim_trailing_eq [of len s] len by (simp add: core_def t_def rest_def S_def str_def len_def)
  have lt: "len = length core + t" using strip_end_le [of str] len by (simp add: t_def core_def)
  have "len + 1 - length core \<noteq> len" using not1 lt by (simp add: core_def)
  then have eq: "rds_string_sanitize s n = (int (strnlen S2 n), S2, core = [])"
    using len trim by (simp add: rds_string_sanitize_def Let_def off_def S2_def flip: len_def)
  have full: "core = str \<longleftrightarrow> t = 0"
    using lt len strip_end_take [of str] by (auto simp: core_def)
  have "off \<le> len" unfolding off_def by (rule skip_leading_le) (use len in simp)
  then have lenS: "length S2 = length s"
    using lt len by (simp add: S2_def S_def rest_def Let_def length_memmove)
  have san: "sanitized str = (if t = 0 \<and> dropWhile isspace core \<noteq> core
      then butlast (dropWhile isspace core) else dropWhile isspace core)"
    unfolding sanitized_def Let_def core_def [symmetric] full ..
  have "S2 = s \<and> sanitized str = str \<or>
        (\<exists>ys. S2 = sanitized str @ 0 # ys \<and> length (sanitized str) < n)"
  proof (cases "core = []")
    case True
    then obtain k where "t = Suc k" using lt len by (cases t) auto
    with True have S: "S = 0 # (replicate k 0 @ rest)" by (simp add: S_def)
    then have "off = 0" by (simp add: off_def skip_leading.simps [of _ _ 0])
    moreover have "0 < n" using len by linarith
    ultimately show ?thesis using S True san by (auto simp: S2_def)
  next
    case False
    then have last: "\<not> isspace (last core)" unfolding core_def by (rule strip_end_last)
    note lead = takeWhile_core [OF False last]
    have off: "off = length (takeWhile isspace core)"
      unfolding off_def using lead lt
      by (subst skip_leading_eq) (simp_all add: S_def)
    have dw: "dropWhile isspace core = drop off core" unfolding off by (rule dropWhile_drop)
    show ?thesis
    proof (cases "off = 0")
      case True
      with san dw have core': "sanitized str = core" by simp
      show ?thesis
      proof (cases t)
        case 0
        with full have "core = str" by simp
        moreover have "str @ rest = s" by (simp add: str_def rest_def len_def)
        ultimately show ?thesis using core' True 0 by (simp add: S2_def S_def)
      next
        case (Suc k)
        with core' True lt len show ?thesis by (simp add: S2_def S_def)
      qed
    next
      case 2: False
      with lead off have lt_core: "off < length core" by simp
      have "sanitized str = (if t = 0 then butlast (drop off core) else drop off core)"
        unfolding san dw using 2 lt_core by (auto dest: arg_cong [where f = length])
      moreover obtain ys where "S2 = (if t = 0 then butlast (drop off core) else drop off core) @ 0 # ys"
        using shift_core [OF False last _ lt_core lt S_def] 2 by (auto simp: S2_def Let_def)
      ultimately show ?thesis using lt len 2 lt_core by auto
    qed
  qed
  then show ?thesis
  proof
    assume "S2 = s \<and> sanitized str = str"
    moreover from this have "strnlen S2 n = length str" using len(1) by (simp only: len_def)
    moreover have "str @ rest = s" by (simp add: str_def rest_def len_def)
    ultimately show ?thesis using eq by (intro exI [of _ rest]) (simp add: core_def)
  next
    assume "\<exists>ys. S2 = sanitized str @ 0 # ys \<and> length (sanitized str) < n"
    then obtain ys where ys: "S2 = sanitized str @ 0 # ys" "length (sanitized str) < n" by blast
    have "strnlen S2 n = length (sanitized str)"
      unfolding ys(1) using nz sanitized_subset [of str] ys(2) by (intro strnlen_prefix) auto
    with eq ys lenS show ?thesis
      by (intro exI [of _ "0 # ys"]) (simp add: core_def)
  qed
qed

lemma rds_string_sanitize_result:
  assumes "rds_string_sanitize s n = (ret, s', before)"
  shows "length s' = length s"
    and "0 \<le> ret \<Longrightarrow> take (nat ret) s' = sanitized (take (strnlen s n) s)"
    and "0 \<le> ret \<Longrightarrow> nat ret = length (sanitized (take (strnlen s n) s))"
    and "ret \<le> int (strnlen s n)"
    and "0 \<le> ret \<Longrightarrow> 0 \<notin> set (take (nat ret) s')"
proof -
  let ?str = "take (strnlen s n) s"
  have *: "length s' = length s \<and> (0 \<le> ret \<longrightarrow> take (nat ret) s' = sanitized ?str \<and>
      ret = int (length (sanitized ?str)))"
  proof (cases "strnlen s n = 0 \<or> length (strip_end ?str) = 1")
    case True
    with assms show ?thesis
      using rds_string_sanitize_empty [of s n] rds_string_sanitize_single [of s n] by auto
  next
    case False
    then have "?str \<noteq> []" using strnlen_le_length [of s n] by auto
    with assms False show ?thesis using rds_string_sanitize_ok [of s n] by auto
  qed
  then show "length s' = length s" by simp
  show 1: "take (nat ret) s' = sanitized ?str" if "0 \<le> ret" using * that by blast
  show 2: "nat ret = length (sanitized ?str)" if "0 \<le> ret" using * that by simp
  show "ret \<le> int (strnlen s n)"
    using 2 sanitized_le [of ?str] strnlen_le_length [of s n] by (cases "0 \<le> ret") auto
  show "0 \<notin> set (take (nat ret) s')" if "0 \<le> ret"
    using 1 [OF that] sanitized_subset [of ?str] set_takeWhileD
    by (fastforce simp: take_strnlen)
qed

text \<open>
  C35: what trimming returns for every buffer: \<open>- 1\<close> for an empty string, \<open>- 2\<close> when a single
  character is left after the trailing white space is cut, otherwise the length of the string that
  is then in the buffer: the text without white space at its ends, except that a text with leading
  and no trailing white space also loses its last character. The byte before the buffer is read
  exactly when the text is white space only. The buffer keeps its size.
\<close>

theorem rds_string_sanitize_spec:
  assumes "str = take (strnlen s n) s" "rds_string_sanitize s n = (ret, s', before)"
  shows "ret = (if str = [] then - 1 else if length (strip_end str) = 1 then - 2
                else int (length (sanitized str))) \<and>
         before = (str \<noteq> [] \<and> strip_end str = []) \<and>
         length s' = length s \<and>
         (0 \<le> ret \<longrightarrow> take (nat ret) s' = sanitized str)"
proof (cases "str = [] \<or> length (strip_end str) = 1")
  case True
  with assms show ?thesis
    using rds_string_sanitize_empty [of s n] rds_string_sanitize_single [of s n] by auto
next
  case False
  with assms show ?thesis using rds_string_sanitize_ok [of s n] by auto
qed

lemmas sanitize_eval =
  rds_string_sanitize_def Let_def strnlen_def trim_trailing_numeral isspace_def memmove_def
  skip_leading.simps [of _ _ 0] skip_leading.simps [of _ _ "Suc 0"]

theorem rds_string_sanitize_spec_witness:
  "rds_string_sanitize [0x20, 0x41, 0x42, 0x0A, 0] 5 = (2, [0x41, 0x42, 0, 0, 0], False) \<and>
   sanitized [0x20, 0x41, 0x42, 0x0A] = [0x41, 0x42]"
proof -
  have "[0x20, 0x41, 0x42, 0x0A] = take (strnlen [0x20, 0x41, 0x42, 0x0A, 0] 5) [0x20, 0x41, 0x42, 0x0A, 0 :: byte]"
    by (simp add: strnlen_def)
  moreover have run: "rds_string_sanitize [0x20, 0x41, 0x42, 0x0A, 0] 5 = (2, [0x41, 0x42, 0, 0, 0], False)"
    by (simp add: sanitize_eval)
  ultimately have "take (nat 2) [0x41, 0x42, 0, 0, 0] = sanitized [0x20, 0x41, 0x42, 0x0A]"
    by (rule rds_string_sanitize_spec [THEN conjunct2, THEN conjunct2, THEN conjunct2, rule_format]) simp
  with run show ?thesis by simp
qed

subsection \<open>Invariants\<close>

text \<open>The text that is being scrolled, and the invariants of the two feeders.\<close>

definition dynps_text :: "rds_dynps_state \<Rightarrow> cstring" where
  "dynps_text dps = take (nat (dps_string_len dps)) (dps_string dps)"

definition dynps_wf :: "rds_dynps_state \<Rightarrow> bool" where
  "dynps_wf dps \<longleftrightarrow>
     length (dps_string dps) = 65 \<and> length (dps_fixed_ps dps) = 9 \<and>
     0 \<le> dps_string_len dps \<and> dps_string_len dps \<le> 64 \<and>
     (dps_string_len dps \<noteq> 0 \<longrightarrow>
        0 \<le> dps_remaining_len dps \<and> dps_remaining_len dps \<le> dps_string_len dps) \<and>
     0 \<notin> set (dynps_text dps)"

definition dynrt_wf :: "rds_dynrt_state \<Rightarrow> bool" where
  "dynrt_wf drt \<longleftrightarrow>
     length (drt_rt_segments drt) = 3 \<and> list_all (\<lambda>seg. length seg = 65) (drt_rt_segments drt) \<and>
     length (drt_fixed_rt drt) = 65 \<and>
     0 \<le> drt_num_segments drt \<and> drt_num_segments drt \<le> 3 \<and>
     0 \<le> drt_curr_segment drt \<and> drt_curr_segment drt \<le> 3"

lemma dynps_wf_zero: "dynps_wf rds_dynps_zero"
  by (simp add: dynps_wf_def rds_dynps_zero_def dynps_text_def)

lemma dynrt_wf_zero: "dynrt_wf rds_dynrt_zero"
  by (simp add: dynrt_wf_def rds_dynrt_zero_def list_all_iff)

text \<open>A step that works on a feeder and the encoder state keeps both well-formed.\<close>

definition keeps ::
  "char_abi \<Rightarrow> ('d \<Rightarrow> bool) \<Rightarrow> ('d \<times> st_ptr \<Rightarrow> 'd \<times> st_ptr) \<Rightarrow> bool" where
  "keeps abi ok f \<longleftrightarrow>
     (\<forall>d s. ok d \<longrightarrow> rds_state_wf abi s \<longrightarrow>
        (\<exists>d' s'. f (d, Some s) = (d', Some s') \<and> ok d' \<and> rds_state_wf abi s'))"

lemma keepsI:
  assumes "\<And>d s. ok d \<Longrightarrow> rds_state_wf abi s \<Longrightarrow>
    ok (fst (f (d, Some s))) \<and> (\<exists>s'. snd (f (d, Some s)) = Some s' \<and> rds_state_wf abi s')"
  shows "keeps abi ok f"
  unfolding keeps_def
proof (intro allI impI)
  fix d s
  assume "ok d" "rds_state_wf abi s"
  from assms [OF this] show "\<exists>d' s'. f (d, Some s) = (d', Some s') \<and> ok d' \<and> rds_state_wf abi s'"
    by (cases "f (d, Some s)") auto
qed

text \<open>What an iteration of the consumer does to its own state, and the name it sets.\<close>

definition dynps_next :: "rds_dynps_state \<Rightarrow> int" where
  "dynps_next dps =
     (if dps_string_len dps = 0 then dps_remaining_len dps
      else if dps_remaining_len dps = 0 then dps_string_len dps
      else if dps_remaining_len dps \<ge> 8 then dps_remaining_len dps - 8 else 0)"

lemma fst_dynps_consume: "fst (dynps_consume abi (dps, st)) = dps\<lparr>dps_remaining_len := dynps_next dps\<rparr>"
  by (simp add: dynps_consume_def dynps_next_def Let_def)

definition dynps_sent :: "rds_dynps_state \<Rightarrow> cstring" where
  "dynps_sent dps =
     (if dps_remaining_len dps = 0 then dps_fixed_ps dps
      else
        let off = nat (dps_string_len dps - dps_remaining_len dps);
            segment_len = nat (if dps_remaining_len dps \<ge> 8 then 8 else dps_remaining_len dps)
        in take segment_len (drop off (dps_string dps)) @ replicate (8 - segment_len) 0)"

lemma snd_dynps_consume:
  "snd (dynps_consume abi (dps, st)) =
     (if dps_string_len dps = 0 then st else snd (rds_set_ps abi st (Some (dynps_sent dps))))"
  unfolding dynps_consume_def dynps_sent_def Let_def by (simp only: prod.case if_not_P if_P snd_conv split: if_split) simp

lemma dynps_consume_wf: "keeps abi dynps_wf (dynps_consume abi)"
proof (rule keepsI)
  fix d s
  assume d: "dynps_wf d" and s: "rds_state_wf abi s"
  have "dynps_wf (fst (dynps_consume abi (d, Some s)))"
    using d by (simp add: fst_dynps_consume dynps_next_def dynps_wf_def dynps_text_def) linarith
  moreover have "\<exists>s'. snd (dynps_consume abi (d, Some s)) = Some s' \<and> rds_state_wf abi s'"
    unfolding snd_dynps_consume using s rds_set_ps_wf [OF s] by (cases "dps_string_len d = 0") simp_all
  ultimately show "dynps_wf (fst (dynps_consume abi (d, Some s))) \<and>
      (\<exists>s'. snd (dynps_consume abi (d, Some s)) = Some s' \<and> rds_state_wf abi s')" ..
qed

lemma take_line_le: "length (take_line xs) \<le> length xs"
  by (induction xs) (auto simp: take_line_def)

lemma fgets_le: "fgets n xs = Some line \<Longrightarrow> length line \<le> n - 1"
  using take_line_le [of "take (n - 1) xs"] by (auto simp: fgets_def split: if_splits)

lemma strnlen_terminated: "strnlen (xs @ 0 # ys) n \<le> length xs"
proof (rule ccontr)
  assume "\<not> ?thesis"
  then have "length xs < strnlen (xs @ 0 # ys) n" by simp
  from strnlen_nonzero [OF this] show False by simp
qed

lemma strnlen_padded:
  assumes "length line \<le> 64"
  shows "strnlen (line @ replicate (65 - length line) 0) 65 \<le> 64"
proof -
  have "replicate (65 - length line) (0 :: byte) = 0 # replicate (64 - length line) 0"
    using assms by (simp add: Suc_diff_le flip: replicate_Suc)
  then show ?thesis using strnlen_terminated [of line "replicate (64 - length line) 0" 65] assms by simp
qed

lemma dynps_filemon_wf_state:
  assumes d: "dynps_wf d"
  shows "dynps_wf (dynps_filemon fc d)"
proof (cases fc)
  case (Some content)
  show ?thesis
  proof (cases "fgets 65 content")
    case None
    with d Some show ?thesis by (simp add: dynps_filemon_def dynps_wf_def dynps_text_def)
  next
    case 2: (Some line)
    let ?buf = "line @ replicate (65 - length line) 0"
    obtain ret s' b where san: "rds_string_sanitize ?buf 65 = (ret, s', b)"
      by (cases "rds_string_sanitize ?buf 65")
    have line: "length line \<le> 64" using fgets_le [OF 2] by simp
    note res = rds_string_sanitize_result [OF san]
    have "length s' = 65" using res(1) line by simp
    moreover have "ret \<le> 64" using res(4) strnlen_padded [OF line] by linarith
    ultimately show ?thesis
      using d Some 2 san res(5) by (simp add: dynps_filemon_def dynps_wf_def dynps_text_def)
  qed
qed (simp add: dynps_filemon_def d)

lemma length_strncpy: "n \<le> length dst \<Longrightarrow> length (strncpy dst src n) = length dst"
  using le_trans [OF strnlen_le [of src n], of "length dst"] by (simp add: strncpy_def)

lemma rds_dynrt_get_line_le:
  assumes "rds_dynrt_get_line content = (ret, res, rest)"
  shows "ret \<le> 64"
proof (cases "content = [] \<or> length (take_line content) > 64")
  case True
  with assms show ?thesis by (auto simp: rds_dynrt_get_line_def Let_def split: if_splits)
next
  case False
  let ?line = "take_line content"
  obtain s' b where "rds_string_sanitize (?line @ [0]) (length ?line + 1) = (ret, s', b)"
    using assms False by (auto simp: rds_dynrt_get_line_def Let_def split: prod.splits)
  from rds_string_sanitize_result(4) [OF this] strnlen_terminated [of ?line "[]"] False
  show ?thesis by (meson le_trans not_less of_nat_le_iff order.trans numeral_le_iff of_nat_le_numeral_iff)
qed

lemma dynrt_lines_wf:
  assumes "dynrt_wf d" "drt_num_segments d + int n \<le> 3"
  shows "dynrt_wf (dynrt_lines n content d) \<and> drt_fixed_rt (dynrt_lines n content d) = drt_fixed_rt d"
  using assms
proof (induction n content d rule: dynrt_lines.induct)
  case (2 n content d)
  obtain ret res rest where line: "rds_dynrt_get_line content = (ret, res, rest)"
    by (cases "rds_dynrt_get_line content")
  show ?case
  proof (cases "ret < 0")
    case True
    with 2 line show ?thesis by simp
  next
    case False
    let ?d = "d\<lparr>drt_rt_segments := (drt_rt_segments d)[nat (drt_num_segments d) :=
        strncpy (replicate 65 0) res (nat ret)], drt_num_segments := drt_num_segments d + 1\<rparr>"
    have "nat ret \<le> 64" using rds_dynrt_get_line_le [OF line] by simp
    then have "dynrt_wf ?d"
      using 2 by (auto simp: dynrt_wf_def length_strncpy list_all_iff dest!: set_update_subset_insert [THEN subsetD])
    with 2 line False show ?thesis by simp
  qed
qed simp

lemma dynps_filemon_wf: "keeps abi dynps_wf (\<lambda>(d, st). (dynps_filemon fc d, st))"
  by (rule keepsI) (simp add: dynps_filemon_wf_state)

lemma dynrt_consume_wf: "keeps abi dynrt_wf (dynrt_consume abi)"
proof (rule keepsI)
  fix d s
  assume d: "dynrt_wf d" and s: "rds_state_wf abi s"
  have "dynrt_wf (fst (dynrt_consume abi (d, Some s)))"
    using d by (auto simp: dynrt_consume_def Let_def dynrt_wf_def)
  moreover have "\<exists>s'. snd (dynrt_consume abi (d, Some s)) = Some s' \<and> rds_state_wf abi s'"
    using s rds_set_rt_wf [OF s]
    by (cases "drt_num_segments d = 0") (simp_all add: dynrt_consume_def Let_def)
  ultimately show "dynrt_wf (fst (dynrt_consume abi (d, Some s))) \<and>
      (\<exists>s'. snd (dynrt_consume abi (d, Some s)) = Some s' \<and> rds_state_wf abi s')" ..
qed

lemma dynrt_filemon_wf: "keeps abi dynrt_wf (dynrt_filemon abi fc)"
proof (rule keepsI)
  fix d s
  assume d: "dynrt_wf d" and s: "rds_state_wf abi s"
  let ?d = "\<lambda>content. dynrt_lines 3 content (d\<lparr>drt_num_segments := 0\<rparr>)"
  have "dynrt_wf (d\<lparr>drt_num_segments := 0\<rparr>)" using d by (simp add: dynrt_wf_def)
  then have "dynrt_wf (?d content)" for content
    using dynrt_lines_wf [of "d\<lparr>drt_num_segments := 0\<rparr>" 3 content] by simp
  then show "dynrt_wf (fst (dynrt_filemon abi fc (d, Some s))) \<and>
      (\<exists>s'. snd (dynrt_filemon abi fc (d, Some s)) = Some s' \<and> rds_state_wf abi s')"
    using d s rds_set_rt_wf [OF s] by (cases fc) (simp_all add: dynrt_filemon_def Let_def)
qed

subsection \<open>The two feeders as instances of one interface\<close>

text \<open>
  What happens while a feeder runs, in any order: an iteration of its consumer, an event of its
  file monitor, and a command of another client of the encoder state.
\<close>

datatype feed_event = Consumer_Runs | File_Event "byte list option" | Client_Sets rds_cmd

fun feed_step ::
  "char_abi \<Rightarrow> ('d \<times> st_ptr \<Rightarrow> 'd \<times> st_ptr) \<Rightarrow> (byte list option \<Rightarrow> 'd \<times> st_ptr \<Rightarrow> 'd \<times> st_ptr) \<Rightarrow>
   feed_event \<Rightarrow> 'd \<times> st_ptr \<Rightarrow> 'd \<times> st_ptr" where
  "feed_step abi consume filemon Consumer_Runs s = consume s"
| "feed_step abi consume filemon (File_Event fc) s = filemon fc s"
| "feed_step abi consume filemon (Client_Sets c) s = (fst s, snd (rds_apply abi c (snd s)))"

inductive feed_reach ::
  "char_abi \<Rightarrow> ('d \<times> st_ptr \<Rightarrow> 'd \<times> st_ptr) \<Rightarrow> (byte list option \<Rightarrow> 'd \<times> st_ptr \<Rightarrow> 'd \<times> st_ptr) \<Rightarrow>
   'd \<times> st_ptr \<Rightarrow> 'd \<times> st_ptr \<Rightarrow> bool"
  for abi consume filemon s where
  feed_start: "feed_reach abi consume filemon s s"
| feed_more: "feed_reach abi consume filemon s t \<Longrightarrow>
    feed_reach abi consume filemon s (feed_step abi consume filemon e t)"

locale text_feeder =
  fixes abi :: char_abi
    and ok :: "'d \<Rightarrow> bool"
    and consume :: "'d \<times> st_ptr \<Rightarrow> 'd \<times> st_ptr"
    and filemon :: "byte list option \<Rightarrow> 'd \<times> st_ptr \<Rightarrow> 'd \<times> st_ptr"
  assumes consume_keeps: "keeps abi ok consume"
    and filemon_keeps: "keeps abi ok (filemon fc)"
begin

lemma client_keeps: "keeps abi ok (\<lambda>s. (fst s, snd (rds_apply abi c (snd s))))"
  by (rule keepsI) (simp add: rds_apply_wf)

lemma step_keeps: "keeps abi ok (feed_step abi consume filemon e)"
proof (cases e)
  case Consumer_Runs
  then show ?thesis using consume_keeps by (simp add: keeps_def)
next
  case (File_Event fc)
  then show ?thesis using filemon_keeps [of fc] by (simp add: keeps_def)
next
  case (Client_Sets c)
  then show ?thesis using client_keeps [of c] by (simp add: keeps_def)
qed

lemma reach_ok:
  assumes "feed_reach abi consume filemon (d, Some st) t" "ok d" "rds_state_wf abi st"
  shows "\<exists>d' st'. t = (d', Some st') \<and> ok d' \<and> rds_state_wf abi st'"
  using assms
proof (induction rule: feed_reach.induct)
  case (feed_more t e)
  then obtain d' st' where "t = (d', Some st')" "ok d'" "rds_state_wf abi st'" by blast
  then show ?case using step_keeps [of e] unfolding keeps_def by blast
qed blast

end

interpretation dynps: text_feeder abi dynps_wf "dynps_consume abi" "\<lambda>fc (d, st). (dynps_filemon fc d, st)"
  for abi
  by unfold_locales (rule dynps_consume_wf dynps_filemon_wf)+

interpretation dynrt: text_feeder abi dynrt_wf "dynrt_consume abi" "dynrt_filemon abi"
  for abi
  by unfold_locales (rule dynrt_consume_wf dynrt_filemon_wf)+

abbreviation dynps_reach ::
  "char_abi \<Rightarrow> rds_dynps_state \<times> st_ptr \<Rightarrow> rds_dynps_state \<times> st_ptr \<Rightarrow> bool" where
  "dynps_reach abi \<equiv> feed_reach abi (dynps_consume abi) (\<lambda>fc (d, st). (dynps_filemon fc d, st))"

abbreviation dynrt_reach ::
  "char_abi \<Rightarrow> rds_dynrt_state \<times> st_ptr \<Rightarrow> rds_dynrt_state \<times> st_ptr \<Rightarrow> bool" where
  "dynrt_reach abi \<equiv> feed_reach abi (dynrt_consume abi) (dynrt_filemon abi)"

lemma rds_dynps_init_ok:
  assumes "rds_dynps_init abi ifd wfd c1 c2 d0 st = (0, s, calls)"
  shows "\<exists>dps. s = (dps, Some st) \<and> dynps_wf dps"
  using assms
  by (auto simp: rds_dynps_init_def Let_def dynps_wf_def dynps_text_def rds_dynps_zero_def
      length_strncpy split: if_splits)

lemma rds_dynrt_init_ok:
  assumes "rds_dynrt_init abi ifd wfd c1 c2 d0 st = (0, s, calls)"
  shows "\<exists>drt. s = (drt, Some st) \<and> dynrt_wf drt"
  using assms
  by (auto simp: rds_dynrt_init_def Let_def dynrt_wf_def rds_dynrt_zero_def
      length_strncpy list_all_iff split: if_splits)

text \<open>
  C13: after a successful start, whatever the order in which the consumer runs, the file changes (to
  any bytes) and other clients set fields, the segment that the consumer copies lies within the
  text, which lies within its buffer, and the encoder state stays well-formed.
\<close>

theorem dynps_invariant:
  assumes "rds_dynps_init abi ifd wfd c1 c2 d0 st = (0, s, calls)" "rds_state_wf abi st"
    and "dynps_reach abi s t"
  shows "\<exists>dps st'. t = (dps, Some st') \<and> rds_state_wf abi st' \<and> dynps_wf dps \<and>
    (dps_string_len dps \<noteq> 0 \<longrightarrow>
       0 \<le> dps_string_len dps - dps_remaining_len dps \<and>
       nat (dps_string_len dps - dps_remaining_len dps) + nat (min 8 (dps_remaining_len dps))
         \<le> nat (dps_string_len dps) \<and>
       nat (dps_string_len dps) < length (dps_string dps))"
proof -
  obtain dps0 where "s = (dps0, Some st)" "dynps_wf dps0" using rds_dynps_init_ok [OF assms(1)] by blast
  with assms obtain dps st' where t: "t = (dps, Some st')" "dynps_wf dps" "rds_state_wf abi st'"
    using dynps.reach_ok by blast
  then have "dps_string_len dps \<noteq> 0 \<longrightarrow>
       0 \<le> dps_string_len dps - dps_remaining_len dps \<and>
       nat (dps_string_len dps - dps_remaining_len dps) + nat (min 8 (dps_remaining_len dps))
         \<le> nat (dps_string_len dps) \<and>
       nat (dps_string_len dps) < length (dps_string dps)"
    unfolding dynps_wf_def by linarith
  with t show ?thesis by blast
qed

text \<open>An encoder with the name A, and what a successful start makes of it.\<close>

definition example_st :: rds_encoder_state where
  "example_st = rds_state_zero\<lparr>st_ps := 0x41 # replicate 7 0, st_ps_set := 1,
     st_rt := 0x41 # replicate 63 0, st_rt_set := 1\<rparr>"

definition example_dps :: rds_dynps_state where
  "example_dps = rds_dynps_zero\<lparr>dps_fixed_ps := 0x41 # replicate 7 0 @ [0], dps_inotify_fd := 3,
     dps_watch_fd := 1, dps_active := 1, dps_filemon_tid := 7, dps_consumer_tid := 8\<rparr>"

lemma example_st_wf: "rds_state_wf Signed_Char example_st"
  by (simp add: example_st_def rds_state_wf_def rds_state_zero_def list_all_iff char_ok_def char_int_def)

lemma example_dynps_init:
  "rds_dynps_init Signed_Char 3 1 (0, 7) (0, 8) rds_dynps_zero example_st =
     (0, (example_dps, Some example_st), [])"
  by (simp add: rds_dynps_init_def rds_dynps_zero_def strncpy_def strnlen_def example_st_def example_dps_def)

theorem dynps_invariant_witness:
  "\<exists>dps st'. dynps_consume Signed_Char
       (dynps_filemon (Some [0x48, 0x49, 0x0A]) example_dps, Some example_st) = (dps, Some st') \<and>
     rds_state_wf Signed_Char st' \<and> dynps_wf dps"
proof -
  let ?filemon = "\<lambda>fc (d, st). (dynps_filemon fc d, st)"
  have "dynps_reach Signed_Char (example_dps, Some example_st)
      (feed_step Signed_Char (dynps_consume Signed_Char) ?filemon Consumer_Runs
        (feed_step Signed_Char (dynps_consume Signed_Char) ?filemon (File_Event (Some [0x48, 0x49, 0x0A]))
          (example_dps, Some example_st)))"
    by (intro feed_reach.intros)
  from dynps_invariant [OF example_dynps_init example_st_wf this] show ?thesis by auto
qed

subsection \<open>Scrolling the name\<close>

definition dynps_chunk :: "rds_dynps_state \<Rightarrow> nat \<Rightarrow> cstring" where
  "dynps_chunk dps k = take 8 (drop (8 * k) (dynps_text dps))"

definition dynps_at :: "rds_dynps_state \<Rightarrow> nat \<Rightarrow> rds_dynps_state" where
  "dynps_at dps k = dps\<lparr>dps_remaining_len := max 0 (dps_string_len dps - 8 * int k)\<rparr>"

lemma dynps_at_Suc:
  assumes "dps_string_len dps \<noteq> 0" "8 * int k < dps_string_len dps"
  shows "(dynps_at dps k)\<lparr>dps_remaining_len := dynps_next (dynps_at dps k)\<rparr> = dynps_at dps (Suc k)"
  using assms by (simp add: dynps_at_def dynps_next_def max_def)

lemma fst_dynps_iterate:
  assumes "dynps_wf dps" "dps_string_len dps \<noteq> 0" "dps_remaining_len dps = dps_string_len dps"
    and "8 * int k < dps_string_len dps + 8"
  shows "fst ((dynps_consume abi ^^ k) (dps, st)) = dynps_at dps k"
  using assms(4)
proof (induction k)
  case 0
  then show ?case using assms by (simp add: dynps_at_def dynps_wf_def)
next
  case (Suc k)
  obtain d' st' where it: "(dynps_consume abi ^^ k) (dps, st) = (d', st')"
    by (cases "(dynps_consume abi ^^ k) (dps, st)")
  with Suc have "d' = dynps_at dps k" by simp
  with it Suc.prems assms(2) show ?case
    by (simp add: fst_dynps_consume dynps_at_Suc)
qed

lemma dynps_sent_update:
  "dynps_sent (dps\<lparr>dps_remaining_len := x\<rparr>) =
     (if x = 0 then dps_fixed_ps dps
      else take (nat (if 8 \<le> x then 8 else x)) (drop (nat (dps_string_len dps - x)) (dps_string dps)) @
           replicate (8 - nat (if 8 \<le> x then 8 else x)) 0)"
  by (simp add: dynps_sent_def Let_def)

lemma dynps_sent_chunk:
  assumes "dynps_wf dps" "8 * int k < dps_string_len dps"
  shows "dynps_sent (dynps_at dps k) =
    dynps_chunk dps k @ replicate (8 - length (dynps_chunk dps k)) 0"
proof -
  let ?n = "nat (dps_string_len dps)"
  have n: "8 * k < ?n" "?n \<le> 64" "?n \<le> length (dps_string dps)"
    using assms by (auto simp: dynps_wf_def)
  define m where "m = min 8 (?n - 8 * k)"
  have chunk: "dynps_chunk dps k = take m (drop (8 * k) (dps_string dps))"
    using n by (simp add: dynps_chunk_def dynps_text_def drop_take m_def)
  then have len: "length (dynps_chunk dps k) = m" using n by (simp add: m_def)
  have m: "nat (if 8 \<le> dps_string_len dps - 8 * int k then 8 else dps_string_len dps - 8 * int k) = m"
    by (auto simp: m_def)
  have "max 0 (dps_string_len dps - 8 * int k) = dps_string_len dps - 8 * int k"
    "dps_string_len dps - 8 * int k \<noteq> 0"
    "nat (dps_string_len dps - (dps_string_len dps - 8 * int k)) = 8 * k"
    using n by auto
  then have "dynps_sent (dynps_at dps k) = take m (drop (8 * k) (dps_string dps)) @ replicate (8 - m) 0"
    unfolding dynps_at_def dynps_sent_update by (simp only: if_False m)
  then show ?thesis by (simp only: len) (simp only: chunk)
qed

lemma dynps_chunk_ne:
  assumes "dynps_wf dps" "8 * int k < dps_string_len dps"
  shows "dynps_chunk dps k \<noteq> []" "0 \<notin> set (dynps_chunk dps k)" "length (dynps_chunk dps k) \<le> 8"
proof -
  show "dynps_chunk dps k \<noteq> []"
    using assms by (auto simp: dynps_chunk_def dynps_text_def dynps_wf_def)
  have "set (dynps_chunk dps k) \<subseteq> set (dynps_text dps)"
    unfolding dynps_chunk_def by (meson order_trans set_drop_subset set_take_subset)
  then show "0 \<notin> set (dynps_chunk dps k)" using assms(1) by (auto simp: dynps_wf_def)
  show "length (dynps_chunk dps k) \<le> 8" by (simp add: dynps_chunk_def)
qed

lemma strnlen_zero_padded:
  assumes "0 \<notin> set xs" "length xs \<le> n"
  shows "strnlen (xs @ replicate k 0) n = length xs"
proof (cases "length xs = n \<or> k = 0")
  case True
  have "takeWhile (\<lambda>c. c \<noteq> 0) xs = xs" using assms(1) by (auto simp: takeWhile_eq_all_conv)
  with True assms show ?thesis by (auto simp: strnlen_def simp del: takeWhile_eq_all_conv)
next
  case False
  then obtain j where "k = Suc j" by (cases k) auto
  with False assms show ?thesis using strnlen_prefix [of xs n "replicate j 0"] by simp
qed

text \<open>The encoder's name after the consumer has sent a piece of text.\<close>

lemma st_ps_set_ps:
  assumes "p \<noteq> []" "0 \<notin> set p" "length p \<le> 8"
  shows "\<exists>s'. snd (rds_set_ps abi (Some s) (Some (p @ replicate k 0))) = Some s' \<and>
    st_ps s' = map (ps_char abi) p @ replicate (8 - length p) 0 \<and> st_ps_set s' = 1"
  using assms strnlen_zero_padded [of p 8 k] by (subst rds_set_ps_eq [OF refl]) simp_all

lemma dynps_consume_some: "\<exists>s'. snd ((dynps_consume abi ^^ k) (dps, Some s)) = Some s'"
proof (induction k)
  case (Suc k)
  then obtain d s' where "(dynps_consume abi ^^ k) (dps, Some s) = (d, Some s')"
    by (cases "(dynps_consume abi ^^ k) (dps, Some s)") auto
  then show ?case
    by (auto simp: snd_dynps_consume rds_set_ps_def Let_def split: option.splits)
qed simp

lemma dynps_iterate_Suc:
  assumes "dynps_wf dps" "dps_string_len dps \<noteq> 0" "dps_remaining_len dps = dps_string_len dps"
    and "8 * int k < dps_string_len dps + 8"
  shows "\<exists>s'. (dynps_consume abi ^^ Suc k) (dps, Some s) =
    ((dynps_at dps k)\<lparr>dps_remaining_len := dynps_next (dynps_at dps k)\<rparr>,
     snd (rds_set_ps abi (Some s') (Some (dynps_sent (dynps_at dps k)))))"
proof -
  obtain s' where "snd ((dynps_consume abi ^^ k) (dps, Some s)) = Some s'"
    using dynps_consume_some by blast
  with fst_dynps_iterate [OF assms, of abi "Some s"]
  have it: "(dynps_consume abi ^^ k) (dps, Some s) = (dynps_at dps k, Some s')"
    by (cases "(dynps_consume abi ^^ k) (dps, Some s)") auto
  have "dps_string_len (dynps_at dps k) \<noteq> 0" using assms(2) by (simp add: dynps_at_def)
  then have "dynps_consume abi (dynps_at dps k, Some s') =
    ((dynps_at dps k)\<lparr>dps_remaining_len := dynps_next (dynps_at dps k)\<rparr>,
     snd (rds_set_ps abi (Some s') (Some (dynps_sent (dynps_at dps k)))))"
    using fst_dynps_consume [of abi "dynps_at dps k" "Some s'"]
      snd_dynps_consume [of abi "dynps_at dps k" "Some s'"]
    by (intro prod_eqI) simp_all
  then show ?thesis using it by auto
qed

text \<open>
  C33: the name scrolls by eight characters. From the moment a text is loaded, the \<open>k\<close>-th run of
  the consumer sets the name to the \<open>k\<close>-th piece of eight characters of the text (the last one
  padded), for all the pieces in order; the run after the last piece sets the station's own name
  and leaves the feeder as it was at the start, so that the cycle repeats.
\<close>

theorem dynps_scrolls:
  assumes "dynps_wf dps" "dps_string_len dps \<noteq> 0" "dps_remaining_len dps = dps_string_len dps"
    and "strnlen (dps_fixed_ps dps) 8 \<noteq> 0"
  shows "(\<forall>k < (nat (dps_string_len dps) + 7) div 8.
      \<exists>d s'. (dynps_consume abi ^^ Suc k) (dps, Some s) = (d, Some s') \<and> st_ps_set s' = 1 \<and>
        st_ps s' = map (ps_char abi) (dynps_chunk dps k) @ replicate (8 - length (dynps_chunk dps k)) 0) \<and>
    (\<exists>s'. (dynps_consume abi ^^ Suc ((nat (dps_string_len dps) + 7) div 8)) (dps, Some s) = (dps, Some s') \<and>
        st_ps_set s' = 1 \<and>
        st_ps s' = map (ps_char abi) (take (strnlen (dps_fixed_ps dps) 8) (dps_fixed_ps dps)) @
          replicate (8 - strnlen (dps_fixed_ps dps) 8) 0)" (is "?pieces \<and> ?fixed")
proof
  have pos: "0 < dps_string_len dps" using assms(1,2) by (simp add: dynps_wf_def)
  show ?pieces
  proof (intro allI impI)
    fix k
    assume "k < (nat (dps_string_len dps) + 7) div 8"
    then have "Suc k * 8 \<le> nat (dps_string_len dps) + 7"
      by (simp add: less_eq_div_iff_mult_less_eq flip: Suc_le_eq)
    then have k: "8 * int k < dps_string_len dps" using pos by (auto simp: nat_le_iff)
    then have "8 * int k < dps_string_len dps + 8" by linarith
    from dynps_iterate_Suc [OF assms(1-3) this, of abi s] obtain s' where
      "(dynps_consume abi ^^ Suc k) (dps, Some s) =
        ((dynps_at dps k)\<lparr>dps_remaining_len := dynps_next (dynps_at dps k)\<rparr>,
         snd (rds_set_ps abi (Some s') (Some (dynps_sent (dynps_at dps k)))))" by blast
    then show "\<exists>d s'. (dynps_consume abi ^^ Suc k) (dps, Some s) = (d, Some s') \<and> st_ps_set s' = 1 \<and>
        st_ps s' = map (ps_char abi) (dynps_chunk dps k) @ replicate (8 - length (dynps_chunk dps k)) 0"
      using st_ps_set_ps [OF dynps_chunk_ne [OF assms(1) k], of abi s']
      unfolding dynps_sent_chunk [OF assms(1) k] by auto
  qed
  let ?m = "(nat (dps_string_len dps) + 7) div 8"
  have "?m * 8 \<le> nat (dps_string_len dps) + 7" "nat (dps_string_len dps) + 7 < Suc ?m * 8"
    by (auto simp: dividend_less_div_times)
  then have m: "8 * int ?m < dps_string_len dps + 8" "dps_string_len dps \<le> 8 * int ?m"
    using pos by (auto simp: nat_le_iff)
  have at: "dynps_at dps ?m = dps\<lparr>dps_remaining_len := 0\<rparr>" using m by (simp add: dynps_at_def)
  have "dynps_next (dps\<lparr>dps_remaining_len := 0\<rparr>) = dps_remaining_len dps"
    "dynps_sent (dps\<lparr>dps_remaining_len := 0\<rparr>) = dps_fixed_ps dps"
    using assms(2,3) by (simp_all add: dynps_next_def dynps_sent_def)
  with dynps_iterate_Suc [OF assms(1-3) m(1), of abi s] obtain s' where
    "(dynps_consume abi ^^ Suc ?m) (dps, Some s) = (dps, snd (rds_set_ps abi (Some s') (Some (dps_fixed_ps dps))))"
    unfolding at by auto
  then show ?fixed by (simp add: rds_set_ps_eq [OF refl assms(4)])
qed

definition example_scroll :: rds_dynps_state where
  "example_scroll = example_dps\<lparr>dps_string := replicate 11 0x42 @ replicate 54 0, dps_string_len := 11,
     dps_remaining_len := 11\<rparr>"

theorem dynps_scrolls_witness:
  "(\<exists>d s'. (dynps_consume Signed_Char ^^ 2) (example_scroll, Some example_st) = (d, Some s') \<and>
      st_ps s' = replicate 3 0x42 @ replicate 5 0) \<and>
   (\<exists>s'. (dynps_consume Signed_Char ^^ 3) (example_scroll, Some example_st) = (example_scroll, Some s') \<and>
      st_ps s' = 0x41 # replicate 7 0)"
proof -
  have wf: "dynps_wf example_scroll"
    by (simp add: dynps_wf_def example_scroll_def example_dps_def rds_dynps_zero_def dynps_text_def)
  have len: "dps_string_len example_scroll = 11" "dps_remaining_len example_scroll = 11"
    "dps_fixed_ps example_scroll = 0x41 # replicate 7 0 @ [0]"
    by (simp_all add: example_scroll_def example_dps_def)
  have fixed: "strnlen (0x41 # replicate 7 0 @ [0]) 8 = 1" by (simp add: strnlen_def)
  have chunk: "dynps_chunk example_scroll (Suc 0) = replicate 3 0x42"
    by (simp add: dynps_chunk_def dynps_text_def example_scroll_def)
  have "ps_char Signed_Char 0x41 = 0x41" "ps_char Signed_Char 0x42 = 0x42"
    by (simp_all add: ps_char_def char_int_def)
  with dynps_scrolls [of example_scroll Signed_Char example_st] wf len fixed chunk
  show ?thesis by (auto simp: numeral_2_eq_2 numeral_3_eq_3 simp del: funpow.simps)
qed

subsection \<open>Rotating the radio text\<close>

definition dynrt_index :: "rds_dynrt_state \<Rightarrow> nat" where
  "dynrt_index drt =
     (if drt_curr_segment drt \<ge> drt_num_segments drt then 0 else nat (drt_curr_segment drt))"

lemma dynrt_consume_eq:
  assumes "dynrt_wf drt" "drt_num_segments drt \<noteq> 0"
  shows "dynrt_consume abi (drt, st) =
    (drt\<lparr>drt_curr_segment := int (Suc (dynrt_index drt))\<rparr>,
     snd (rds_set_rt abi st (Some (drt_rt_segments drt ! dynrt_index drt)) 1))"
  using assms by (simp add: dynrt_consume_def dynrt_index_def dynrt_wf_def Let_def)

lemma dynrt_index_update:
  assumes "dynrt_wf drt" "drt_num_segments drt \<noteq> 0"
  shows "dynrt_index (drt\<lparr>drt_curr_segment := int (Suc (dynrt_index drt))\<rparr>) =
     Suc (dynrt_index drt) mod nat (drt_num_segments drt)"
    and "dynrt_wf (drt\<lparr>drt_curr_segment := int (Suc (dynrt_index drt))\<rparr>)"
proof -
  have lt: "dynrt_index drt < nat (drt_num_segments drt)"
    using assms by (auto simp: dynrt_index_def dynrt_wf_def)
  have "dynrt_index (drt\<lparr>drt_curr_segment := int (Suc i)\<rparr>) = Suc i mod nat (drt_num_segments drt)"
    if "i < nat (drt_num_segments drt)" for i
    using that by (cases "Suc i = nat (drt_num_segments drt)") (auto simp: dynrt_index_def)
  from this [OF lt]
  show "dynrt_index (drt\<lparr>drt_curr_segment := int (Suc (dynrt_index drt))\<rparr>) =
     Suc (dynrt_index drt) mod nat (drt_num_segments drt)" .
  show "dynrt_wf (drt\<lparr>drt_curr_segment := int (Suc (dynrt_index drt))\<rparr>)"
    using assms(1) lt by (auto simp: dynrt_wf_def)
qed

lemma dynrt_iterate:
  assumes "dynrt_wf drt" "drt_num_segments drt \<noteq> 0"
  shows "\<exists>d s'. (dynrt_consume abi ^^ k) (drt, Some s) = (d, Some s') \<and> dynrt_wf d \<and>
    drt_num_segments d = drt_num_segments drt \<and> drt_rt_segments d = drt_rt_segments drt \<and>
    dynrt_index d = (dynrt_index drt + k) mod nat (drt_num_segments drt)"
proof (induction k)
  case 0
  have "dynrt_index drt < nat (drt_num_segments drt)"
    using assms by (auto simp: dynrt_index_def dynrt_wf_def)
  then show ?case using assms by simp
next
  case (Suc k)
  then obtain d s' where d: "(dynrt_consume abi ^^ k) (drt, Some s) = (d, Some s')" "dynrt_wf d"
    "drt_num_segments d = drt_num_segments drt" "drt_rt_segments d = drt_rt_segments drt"
    "dynrt_index d = (dynrt_index drt + k) mod nat (drt_num_segments drt)" by blast
  have n: "drt_num_segments d \<noteq> 0" using d assms by simp
  let ?seg = "drt_rt_segments d ! dynrt_index d"
  obtain s'' where "snd (rds_set_rt abi (Some s') (Some ?seg) 1) = Some s''"
    by (cases "strnlen ?seg 64 = 0") (auto simp: rds_set_rt_empty rds_set_rt_eq)
  with d n dynrt_index_update [OF d(2) n] show ?case
    by (simp add: dynrt_consume_eq mod_Suc_eq)
qed

text \<open>
  C34: the lines of the file are shown in rotation. With \<open>n\<close> non-empty lines loaded, every run of the
  consumer puts the next line into the encoder, the first line again after the last, and every
  change of the line flips the A/B flag that tells receivers to clear their display.
\<close>

theorem dynrt_rotates:
  assumes "dynrt_wf drt" "nat (drt_num_segments drt) = n" "0 < n"
    and "\<forall>i < n. strnlen (drt_rt_segments drt ! i) 64 \<noteq> 0"
  shows "\<exists>d s' d2 s2. (dynrt_consume abi ^^ Suc k) (drt, Some s) = (d, Some s') \<and>
    (let line = drt_rt_segments drt ! ((dynrt_index drt + k) mod n)
     in st_rt s' = rt_text abi line (strnlen line 64) \<and> st_rt_set s' = 1 \<and> st_rt_idx s' = 0) \<and>
    (dynrt_consume abi ^^ Suc (Suc k)) (drt, Some s) = (d2, Some s2) \<and>
    (st_rt_flush s2 = 0 \<longleftrightarrow> st_rt_flush s' \<noteq> 0)"
proof -
  have n: "drt_num_segments drt \<noteq> 0" using assms by auto
  define line where "line j = drt_rt_segments drt ! ((dynrt_index drt + j) mod n)" for j
  have set_line: "\<exists>s'. rds_set_rt abi (Some s0) (Some (line j)) 1 = (0, Some s') \<and>
      st_rt s' = rt_text abi (line j) (strnlen (line j) 64) \<and> st_rt_set s' = 1 \<and> st_rt_idx s' = 0 \<and>
      (st_rt_set s0 \<noteq> 0 \<longrightarrow> (st_rt_flush s' = 0 \<longleftrightarrow> st_rt_flush s0 \<noteq> 0))" for s0 j
  proof -
    have "strnlen (line j) 64 \<noteq> 0" using assms(3,4) by (simp add: line_def)
    then show ?thesis by (simp add: rds_set_rt_eq [OF refl])
  qed
  have consume: "\<exists>d s0. (dynrt_consume abi ^^ j) (drt, Some s) = (d, Some s0) \<and>
      snd (dynrt_consume abi (d, Some s0)) = snd (rds_set_rt abi (Some s0) (Some (line j)) 1)" for j
    using dynrt_iterate [OF assms(1) n, of j abi s] n assms(2)
    by (auto simp: dynrt_consume_eq line_def)
  have nextstep: "\<exists>d'. (dynrt_consume abi ^^ Suc j) (drt, Some s) = (d', snd (rds_set_rt abi (Some s0) (Some (line j)) 1))"
    if "(dynrt_consume abi ^^ j) (drt, Some s) = (d, Some s0)" for j d s0
    using consume [of j] that by (cases "dynrt_consume abi (d, Some s0)") auto
  obtain d s0 where "(dynrt_consume abi ^^ k) (drt, Some s) = (d, Some s0)" using consume by blast
  with nextstep set_line [of s0 k] obtain d1 s1 where
    1: "(dynrt_consume abi ^^ Suc k) (drt, Some s) = (d1, Some s1)"
      "st_rt s1 = rt_text abi (line k) (strnlen (line k) 64)" "st_rt_set s1 = 1" "st_rt_idx s1 = 0"
    by fastforce
  with nextstep [OF 1(1)] set_line [of s1 "Suc k"] obtain d2 s2 where
    "(dynrt_consume abi ^^ Suc (Suc k)) (drt, Some s) = (d2, Some s2)"
    "st_rt_flush s2 = 0 \<longleftrightarrow> st_rt_flush s1 \<noteq> 0" by fastforce
  with 1 show ?thesis unfolding Let_def line_def by blast
qed

definition example_drt :: rds_dynrt_state where
  "example_drt = rds_dynrt_zero\<lparr>drt_rt_segments := [0x41 # replicate 64 0, 0x42 # replicate 64 0, replicate 65 0],
     drt_num_segments := 2\<rparr>"

theorem dynrt_rotates_witness:
  "\<exists>d s' d2 s2. (dynrt_consume Signed_Char ^^ 4) (example_drt, Some example_st) = (d, Some s') \<and>
     st_rt s' = rt_text Signed_Char (0x42 # replicate 64 0) 1 \<and>
     (dynrt_consume Signed_Char ^^ 5) (example_drt, Some example_st) = (d2, Some s2) \<and>
     (st_rt_flush s2 = 0 \<longleftrightarrow> st_rt_flush s' \<noteq> 0)"
proof -
  have "dynrt_wf example_drt"
    by (simp add: dynrt_wf_def example_drt_def rds_dynrt_zero_def)
  moreover have "nat (drt_num_segments example_drt) = 2" by (simp add: example_drt_def)
  moreover have "strnlen (0x41 # replicate 64 0) 64 = 1" "strnlen (0x42 # replicate 64 0) 64 = 1"
    by (simp_all add: strnlen_def)
  then have "\<forall>i < 2. strnlen (drt_rt_segments example_drt ! i) 64 \<noteq> 0"
    "drt_rt_segments example_drt ! 1 = 0x42 # replicate 64 0" "strnlen (0x42 # replicate 64 0) 64 = 1"
    by (auto simp: example_drt_def less_2_cases_iff)
  moreover have "dynrt_index example_drt = 0" by (simp add: dynrt_index_def example_drt_def rds_dynrt_zero_def)
  moreover have four: "(4 :: nat) = Suc 3" and five: "(5 :: nat) = Suc (Suc 3)" and "(0 + 3) mod 2 = (1 :: nat)"
    by simp_all
  ultimately show ?thesis
    using dynrt_rotates [of example_drt 2 3 Signed_Char example_st]
    by (simp only: four five Let_def) auto
qed

end
