(* ===== verification/Rds_Block.thy ===== *)
theory Rds_Block
  imports Prelude
begin

text \<open>
  Block coding of the RDS encoder (\<^verbatim>\<open>rds_encoder.c\<close>, \<^verbatim>\<open>rds_generate_block\<close>): a 16-bit
  information word and a 10-bit checkword make a 26-bit block. The code computes the checkword
  from a table of generator-matrix rows. The reference is division by the generator polynomial
  of the RDS standard, bit by bit, as a receiver does it.
\<close>

subsection \<open>The code\<close>

record rds_block =
  infoword :: uint16
  offset_word :: "10 word"
  checkword :: "10 word"

definition offset_words :: "uint16 list" where
  "offset_words = [0x0FC, 0x198, 0x168, 0x1B4, 0x350]"

definition RDS_ALT_OFFSET_WORD_C_IDX :: nat where
  "RDS_ALT_OFFSET_WORD_C_IDX = 4"

definition G :: "uint16 list" where
  "G = [0x1B9, 0x372, 0x35D, 0x303, 0x3BF,
        0x2C7, 0x037, 0x06E, 0x0DC, 0x1B8,
        0x370, 0x359, 0x30B, 0x3AF, 0x2E7,
        0x077]"

text \<open>
  The loop runs \<open>i\<close> from 15 down to 0: \<open>block_loop n\<close> does the iterations \<open>n - 1, \<dots>, 0\<close>.
\<close>

fun block_loop :: "nat \<Rightarrow> uint16 \<Rightarrow> 10 word \<Rightarrow> 10 word" where
  "block_loop 0 w c = c"
| "block_loop (Suc i) w c =
     block_loop i w (if w AND push_bit i 1 \<noteq> 0 then c XOR ucast (G ! i) else c)"

definition rds_generate_block :: "rds_block \<Rightarrow> uint32 \<times> rds_block" where
  "rds_generate_block block =
     (let c = block_loop 16 (infoword block) (checkword block);
          b = block\<lparr>checkword := c XOR offset_word block\<rparr>
      in (ucast (checkword b) OR push_bit 10 (ucast (infoword b)), b))"

subsection \<open>Division by the generator polynomial\<close>

text \<open>
  \<open>crc_step\<close> shifts one more bit of the dividend into the remainder modulo
  $x^{10} + x^8 + x^7 + x^5 + x^4 + x^3 + 1$, whose lower ten coefficients are \<open>0x1B9\<close>.
\<close>

definition crc_poly :: "10 word" where
  "crc_poly = 0x1B9"

definition crc_step :: "10 word \<Rightarrow> bool \<Rightarrow> 10 word" where
  "crc_step r b =
     (push_bit 1 r OR of_bool b) XOR (if bit r 9 then crc_poly else 0)"

definition crc_bits :: "10 word \<Rightarrow> bool list \<Rightarrow> 10 word" where
  "crc_bits r bs = foldl crc_step r bs"

text \<open>The bits of a word from bit \<open>n - 1\<close> down to bit 0, the order of transmission.\<close>

definition msb_bits :: "nat \<Rightarrow> 'a::len word \<Rightarrow> bool list" where
  "msb_bits n w = map (bit w) (rev [0..<n])"

text \<open>The remainder of a received 26-bit block.\<close>

definition syndrome :: "uint32 \<Rightarrow> 10 word" where
  "syndrome e = crc_bits 0 (msb_bits 26 e)"

lemma crc_bits_Nil [simp]: "crc_bits r [] = r"
  by (simp add: crc_bits_def)

lemma crc_bits_Cons [simp]: "crc_bits r (b # bs) = crc_bits (crc_step r b) bs"
  by (simp add: crc_bits_def)

lemma crc_bits_append: "crc_bits r (xs @ ys) = crc_bits (crc_bits r xs) ys"
  by (simp add: crc_bits_def)

lemma length_msb_bits [simp]: "length (msb_bits n w) = n"
  by (simp add: msb_bits_def)

lemma msb_bits_Suc: "msb_bits (Suc n) w = bit w n # msb_bits n w"
  by (simp add: msb_bits_def)

lemma msb_bits_0 [simp]: "msb_bits 0 w = []"
  by (simp add: msb_bits_def)

text \<open>The bits of a step.\<close>

lemma bit_crc_step:
  "bit (crc_step r b) k \<longleftrightarrow>
     k < 10 \<and> ((if k = 0 then b else bit r (k - 1)) \<noteq> (bit r 9 \<and> bit crc_poly k))"
proof -
  have 1: "bit (push_bit 1 r) k \<longleftrightarrow> k < 10 \<and> 0 < k \<and> bit r (k - 1)"
    by (simp only: bit_push_bit_iff) auto
  have 2: "bit (of_bool b :: 10 word) k \<longleftrightarrow> k = 0 \<and> b"
    by (simp add: bit_simps)
  have 3: "bit (if bit r 9 then crc_poly else 0) k \<longleftrightarrow> bit r 9 \<and> bit crc_poly k"
    by simp
  have 4: "bit crc_poly k \<Longrightarrow> k < 10" by (auto dest: bit_imp_le_length)
  show ?thesis
    unfolding crc_step_def by (simp only: bit_xor_iff bit_or_iff 1 2 3) (use 4 in auto)
qed

text \<open>The step is linear over exclusive or, in the remainder and in the bit.\<close>

lemma crc_step_xor: "crc_step (r XOR s) (b \<noteq> c) = crc_step r b XOR crc_step s c"
  by (rule bit_word_eqI) (simp add: bit_crc_step bit_xor_iff, blast)

lemma crc_step_0 [simp]: "crc_step 0 False = 0"
  by (simp add: crc_step_def)

lemma crc_bits_xor:
  "length xs = length ys \<Longrightarrow>
   crc_bits (r XOR s) (map2 (\<noteq>) xs ys) = crc_bits r xs XOR crc_bits s ys"
proof (induction xs ys arbitrary: r s rule: list_induct2)
  case (Cons x xs y ys)
  then show ?case using crc_step_xor [of r s x y] by simp
qed simp

lemma msb_bits_xor: "msb_bits n (v XOR w) = map2 (\<noteq>) (msb_bits n v) (msb_bits n w)"
  by (induction n) (auto simp: msb_bits_Suc bit_xor_iff)

lemma syndrome_xor: "syndrome (v XOR w) = syndrome v XOR syndrome w"
  using crc_bits_xor [of "msb_bits 26 v" "msb_bits 26 w" 0 0]
  by (simp add: syndrome_def msb_bits_xor)

text \<open>The generator has a constant term, so shifting a zero in is injective.\<close>

lemma crc_step_inj:
  assumes "crc_step r False = 0"
  shows "r = 0"
proof -
  have nb: "\<not> bit (crc_step r False) k" for k
    by (simp add: assms)
  have "\<not> bit r 9"
    using nb [of 0] by (simp add: bit_crc_step crc_poly_def)
  with nb have "\<not> bit r k" if "k < 9" for k
    using that nb [of "Suc k"] by (simp add: bit_crc_step)
  with \<open>\<not> bit r 9\<close> show ?thesis
    by (intro bit_word_eqI) (auto simp: less_Suc_eq numeral_eq_Suc)
qed

lemma crc_bits_zeros: "crc_bits r (replicate n False) = 0 \<Longrightarrow> r = 0"
  by (induction n arbitrary: r) (auto dest: crc_step_inj)

subsection \<open>The table and the division agree\<close>

lemma crc_bits_shift: "crc_bits r (replicate n False @ xs) = crc_bits (crc_bits r (replicate n False)) xs"
  by (rule crc_bits_append)

text \<open>Linearity with respect to the starting remainder.\<close>

lemma crc_bits_start: "crc_bits r xs = crc_bits r (replicate (length xs) False) XOR crc_bits 0 xs"
proof -
  have "map2 (\<noteq>) (replicate (length xs) False) xs = xs"
    by (induction xs) auto
  then show ?thesis
    using crc_bits_xor [of "replicate (length xs) False" xs r 0] by simp
qed

lemma crc_bits_0_zeros [simp]: "crc_bits 0 (replicate n False) = 0"
  by (induction n) simp_all

text \<open>
  Row \<open>i\<close> of the generator matrix is the remainder of $x^{i + 10}$. Evaluated once per row.
\<close>

definition crc_rows_ok :: bool where
  "crc_rows_ok \<longleftrightarrow>
     list_all (\<lambda>i. crc_bits 1 (replicate (i + 10) False) = ucast (G ! i)) [0..<16]"

lemma crc_rows_ok: crc_rows_ok
  by code_simp

lemma G_row: "i < 16 \<Longrightarrow> crc_bits 1 (replicate (i + 10) False) = ucast (G ! i)"
  using crc_rows_ok by (simp add: crc_rows_ok_def list_all_iff)

lemma crc_step_0_bit: "crc_step 0 b = of_bool b"
  by (simp add: crc_step_def)

lemma block_loop_eq:
  "n \<le> 16 \<Longrightarrow> block_loop n w c = c XOR crc_bits 0 (msb_bits n w @ replicate 10 False)"
proof (induction n arbitrary: c)
  case (Suc n)
  let ?z = "msb_bits n w @ replicate 10 False"
  have row: "crc_bits (of_bool (bit w n)) (replicate (n + 10) False) =
      (if bit w n then ucast (G ! n) else 0)"
    using Suc.prems by (simp add: G_row)
  have "crc_bits 0 (msb_bits (Suc n) w @ replicate 10 False) = crc_bits (of_bool (bit w n)) ?z"
    by (simp add: msb_bits_Suc crc_step_0_bit)
  also have "\<dots> = (if bit w n then ucast (G ! n) else 0) XOR crc_bits 0 ?z"
    by (subst crc_bits_start) (simp add: row)
  finally show ?case
    using Suc by (simp add: and_exp_eq_0_iff_not_bit xor.assoc)
qed simp

subsection \<open>The receiver's view\<close>

lemma msb_bits_split: "msb_bits (m + n) w = map (\<lambda>k. bit w (n + k)) (rev [0..<m]) @ msb_bits n w"
  by (induction m) (simp_all add: msb_bits_Suc add.commute)

lemma crc_bits_low_aux:
  "k \<le> 10 \<Longrightarrow> crc_bits (drop_bit k c) (msb_bits k c) = (c :: 10 word)"
proof (induction k)
  case (Suc k)
  have "crc_step (drop_bit (Suc k) c) (bit c k) = drop_bit k c"
    by (rule bit_word_eqI)
      (use Suc.prems in \<open>auto simp: bit_crc_step bit_drop_bit_eq dest: bit_imp_le_length\<close>)
  with Suc show ?case by (simp add: msb_bits_Suc)
qed simp

text \<open>A remainder of ten bits is its own remainder.\<close>

lemma crc_bits_low: "crc_bits 0 (msb_bits 10 (c :: 10 word)) = c"
proof -
  have "drop_bit 10 c = 0"
    by (rule bit_word_eqI) (auto simp: bit_drop_bit_eq dest: bit_imp_le_length)
  then show ?thesis using crc_bits_low_aux [of 10 c] by simp
qed

definition assemble :: "uint16 \<Rightarrow> 10 word \<Rightarrow> uint32" where
  "assemble w c = ucast c OR push_bit 10 (ucast w)"

lemma bit_assemble:
  "bit (assemble w c) k \<longleftrightarrow> (if k < 10 then bit c k else k < 26 \<and> bit w (k - 10))"
  unfolding assemble_def by (auto simp: bit_simps dest: bit_imp_le_length)

lemma msb_bits_assemble: "msb_bits 26 (assemble w c) = msb_bits 16 w @ msb_bits 10 c"
proof -
  have "msb_bits (16 + 10) (assemble w c) = msb_bits 16 w @ msb_bits 10 c"
    unfolding msb_bits_split by (auto simp: msb_bits_def bit_assemble)
  then show ?thesis by simp
qed

lemma syndrome_assemble:
  "syndrome (assemble w c) = crc_bits 0 (msb_bits 16 w @ replicate 10 False) XOR c"
proof -
  have "crc_bits (crc_bits 0 (msb_bits 16 w)) (msb_bits 10 c) =
      crc_bits (crc_bits 0 (msb_bits 16 w)) (replicate 10 False) XOR c"
    by (subst crc_bits_start) (simp add: crc_bits_low)
  then show ?thesis
    by (simp add: syndrome_def msb_bits_assemble crc_bits_append)
qed

lemma rds_generate_block_eq:
  "rds_generate_block b =
     (let c = checkword b XOR crc_bits 0 (msb_bits 16 (infoword b) @ replicate 10 False)
              XOR offset_word b
      in (assemble (infoword b) c, b\<lparr>checkword := c\<rparr>))"
  by (simp add: rds_generate_block_def block_loop_eq Let_def assemble_def xor.assoc)

lemma drop_bit_assemble: "ucast (drop_bit 10 (assemble w c)) = w"
  by (rule bit_word_eqI) (auto simp: bit_simps bit_assemble dest: bit_imp_le_length)

lemma block_syndrome:
  "checkword b = 0 \<Longrightarrow> syndrome (fst (rds_generate_block b)) = offset_word b"
  by (simp add: rds_generate_block_eq Let_def syndrome_assemble flip: xor.assoc)

subsection \<open>Error detection\<close>

text \<open>
  An error pattern confined to ten consecutive positions: the pattern \<open>p\<close> at position \<open>i\<close>.
\<close>

lemma syndrome_burst:
  assumes "i \<le> 16"
  shows "syndrome (push_bit i (ucast (p :: 10 word))) = crc_bits p (replicate i False)"
proof -
  let ?e = "push_bit i (ucast p) :: uint32"
  have b: "bit ?e k \<longleftrightarrow> i \<le> k \<and> k < i + 10 \<and> bit p (k - i)" for k
    using assms by (auto simp: bit_simps dest: bit_imp_le_length)
  have "msb_bits ((16 - i) + (10 + i)) ?e = replicate (16 - i) False @ msb_bits (10 + i) ?e"
    unfolding msb_bits_split by (simp add: b map_replicate_const)
  moreover have "msb_bits (10 + i) ?e = msb_bits 10 p @ replicate i False"
  proof -
    have "msb_bits i ?e = replicate i False"
      using assms by (intro nth_equalityI) (auto simp: msb_bits_def b rev_nth)
    moreover have "map (\<lambda>k. bit ?e (i + k)) (rev [0..<10]) = msb_bits 10 p"
      by (auto simp: msb_bits_def b)
    ultimately show ?thesis by (simp add: msb_bits_split)
  qed
  ultimately have "msb_bits 26 ?e = replicate (16 - i) False @ msb_bits 10 p @ replicate i False"
    using assms by simp
  then show ?thesis
    by (simp add: syndrome_def crc_bits_append crc_bits_low)
qed

lemma syndrome_burst_nonzero:
  "i \<le> 16 \<Longrightarrow> p \<noteq> 0 \<Longrightarrow> syndrome (push_bit i (ucast (p :: 10 word))) \<noteq> 0"
  by (auto simp: syndrome_burst dest: crc_bits_zeros)

lemma word_xor_eq_left_iff: "v XOR w = v \<longleftrightarrow> w = (0 :: 'a::len word)"
proof
  assume "v XOR w = v"
  then have "v XOR (v XOR w) = v XOR v" by simp
  then show "w = 0" by (simp flip: xor.assoc)
qed simp

lemma assemble_bound: "unat (assemble w c) < 2 ^ 26"
proof -
  have "assemble w c = take_bit 26 (assemble w c)"
    by (rule bit_word_eqI) (auto simp: bit_simps bit_assemble)
  then have "unat (assemble w c) = take_bit 26 (unat (assemble w c))"
    using unsigned_take_bit_eq [of 26 "assemble w c", where ?'a = nat] by simp
  then show ?thesis using take_bit_nat_less_exp [of 26 "unat (assemble w c)"] by simp
qed

subsection \<open>Properties\<close>

text \<open>
  C5: the checkword that the table-driven loop computes is the remainder of the information word,
  shifted by ten bits, modulo the generator polynomial of the standard, plus the offset word.
\<close>

theorem rds_generate_block_is_crc:
  "checkword (snd (rds_generate_block \<lparr>infoword = w, offset_word = d, checkword = 0\<rparr>)) =
     crc_bits 0 (msb_bits 16 w @ replicate 10 False) XOR d"
  by (simp add: rds_generate_block_eq Let_def)

text \<open>
  C17: a block encoded from a fresh block record fits in 26 bits, carries its information word in
  the upper 16 of them, and a receiver that divides it by the generator polynomial gets the
  offset word back, which is how it finds the block's position in the group.
\<close>

theorem rds_generate_block_codeword:
  "let e = fst (rds_generate_block \<lparr>infoword = w, offset_word = d, checkword = 0\<rparr>)
   in unat e < 2 ^ 26 \<and> ucast (drop_bit 10 e) = w \<and> syndrome e = d"
  by (simp add: rds_generate_block_eq Let_def syndrome_assemble drop_bit_assemble assemble_bound [simplified]
      flip: xor.assoc)

text \<open>
  C18: a transmission error in up to ten consecutive bits of an encoded block is always detected:
  the receiver's remainder is no longer the block's offset word.
\<close>

theorem rds_generate_block_detects_bursts:
  assumes "i \<le> 16" "p \<noteq> 0"
  shows "syndrome (fst (rds_generate_block \<lparr>infoword = w, offset_word = d, checkword = 0\<rparr>) XOR
                   push_bit i (ucast (p :: 10 word))) \<noteq> d"
proof -
  let ?e = "fst (rds_generate_block \<lparr>infoword = w, offset_word = d, checkword = 0\<rparr>)"
  have "syndrome ?e = d" by (simp add: block_syndrome)
  moreover have "syndrome (push_bit i (ucast p)) \<noteq> 0"
    using assms by (rule syndrome_burst_nonzero)
  ultimately show ?thesis
    by (simp only: syndrome_xor word_xor_eq_left_iff) simp
qed

theorem rds_generate_block_detects_bursts_witness:
  "syndrome (fst (rds_generate_block \<lparr>infoword = 0x1234, offset_word = 0x0FC, checkword = 0\<rparr>) XOR
             push_bit 5 (ucast (0x201 :: 10 word))) \<noteq> 0x0FC"
  by (rule rds_generate_block_detects_bursts) simp_all

end
