(* ===== verification/Floats.thy ===== *)
theory Floats
  imports Complex_Main
begin

text \<open>
  The C types \<^verbatim>\<open>float\<close> and \<^verbatim>\<open>double\<close> as the IEEE formats binary32 and binary64: a value is
  the real number it denotes, and every arithmetic operation of the sources is the exact operation
  followed by rounding to nearest, ties to even, with gradual underflow. Infinities and not-a-number
  are not represented: the exponent has no upper bound, which is the range assumption of the
  signal-processing theories (samples are of the order of 1, the largest intermediate values are
  sample counts). The functions of \<^verbatim>\<open>math.h\<close> are the exact function followed by rounding.
\<close>

subsection \<open>Rounding\<close>

definition round_even :: "real \<Rightarrow> int" where
  "round_even x =
     (let k = \<lfloor>x\<rfloor>; f = x - of_int k in
      if f < 1 / 2 then k else if f > 1 / 2 then k + 1 else if even k then k else k + 1)"

definition float_exp :: "nat \<Rightarrow> int \<Rightarrow> real \<Rightarrow> int" where
  "float_exp p emin x = max (\<lfloor>log 2 \<bar>x\<bar>\<rfloor> - int p + 1) emin"

definition float_round :: "nat \<Rightarrow> int \<Rightarrow> real \<Rightarrow> real" where
  "float_round p emin x =
     (if x = 0 then 0
      else let e = float_exp p emin x in of_int (round_even (x / 2 powi e)) * 2 powi e)"

definition f32 :: "real \<Rightarrow> real" where
  "f32 x = float_round 24 (- 149) x"

definition f64 :: "real \<Rightarrow> real" where
  "f64 x = float_round 53 (- 1074) x"

text \<open>Conversion of a floating-point value to an integer truncates towards zero.\<close>

definition c_trunc :: "real \<Rightarrow> int" where
  "c_trunc x = (if 0 \<le> x then \<lfloor>x\<rfloor> else \<lceil>x\<rceil>)"

subsection \<open>Rounding to an integer\<close>

lemma round_even_dist: "\<bar>of_int (round_even x) - x\<bar> \<le> 1 / 2"
  unfolding round_even_def Let_def by (auto simp: abs_if) linarith+

lemma round_even_of_int [simp]: "round_even (of_int k) = k"
  by (simp add: round_even_def)

lemma round_even_0 [simp]: "round_even 0 = 0"
  using round_even_of_int [of 0] by simp

lemma round_even_mono: "x \<le> y \<Longrightarrow> round_even x \<le> round_even y"
proof -
  assume le: "x \<le> y"
  show ?thesis
  proof (cases "\<lfloor>x\<rfloor> = \<lfloor>y\<rfloor>")
    case True
    with le show ?thesis by (auto simp: round_even_def Let_def)
  next
    case False
    with le have "\<lfloor>x\<rfloor> + 1 \<le> \<lfloor>y\<rfloor>"
      using floor_mono [OF le] by linarith
    moreover have "round_even x \<le> \<lfloor>x\<rfloor> + 1" "\<lfloor>y\<rfloor> \<le> round_even y"
      by (auto simp: round_even_def Let_def)
    ultimately show ?thesis by linarith
  qed
qed

lemma round_even_minus: "round_even (- x) = - round_even x"
proof (cases "x = of_int \<lfloor>x\<rfloor>")
  case True
  then show ?thesis by (metis of_int_minus round_even_of_int)
next
  case False
  have fl: "\<lfloor>- x\<rfloor> = - \<lfloor>x\<rfloor> - 1"
    using False by linarith
  show ?thesis
    unfolding round_even_def Let_def fl by (auto simp: field_simps)
qed

lemma round_even_unique: "\<bar>of_int k - x\<bar> < 1 / 2 \<Longrightarrow> round_even x = k"
  using round_even_dist [of x] by linarith

subsection \<open>The exponent\<close>

lemma floor_log2_iff:
  assumes "x \<noteq> 0"
  shows "\<lfloor>log 2 \<bar>x\<bar>\<rfloor> = e \<longleftrightarrow> 2 powi e \<le> \<bar>x\<bar> \<and> \<bar>x\<bar> < 2 powi (e + 1)"
proof -
  have "\<lfloor>log 2 \<bar>x\<bar>\<rfloor> = e \<longleftrightarrow> of_int e \<le> log 2 \<bar>x\<bar> \<and> log 2 \<bar>x\<bar> < of_int (e + 1)"
    by (simp add: floor_eq_iff)
  also have "of_int e \<le> log 2 \<bar>x\<bar> \<longleftrightarrow> 2 powr of_int e \<le> \<bar>x\<bar>"
    using assms by (simp add: le_log_iff)
  also have "log 2 \<bar>x\<bar> < of_int (e + 1) \<longleftrightarrow> \<bar>x\<bar> < 2 powr of_int (e + 1)"
    using assms by (simp add: log_less_iff)
  finally show ?thesis
    using powr_real_of_int' [of 2 e] powr_real_of_int' [of 2 "e + 1"] by simp
qed

lemma float_exp_eq:
  assumes "2 powi k \<le> \<bar>x\<bar>" "\<bar>x\<bar> < 2 powi (k + 1)" "emin \<le> k - int p + 1"
  shows "float_exp p emin x = k - int p + 1"
proof -
  have "0 < \<bar>x\<bar>" by (rule less_le_trans [OF _ assms(1)]) simp
  then have "\<lfloor>log 2 \<bar>x\<bar>\<rfloor> = k" using assms floor_log2_iff [of x k] by simp
  with assms(3) show ?thesis by (simp add: float_exp_def)
qed

lemma float_exp_upper:
  assumes "x \<noteq> 0"
  shows "\<bar>x\<bar> < 2 powi (float_exp p emin x + int p)"
proof -
  let ?k = "\<lfloor>log 2 \<bar>x\<bar>\<rfloor>"
  have "\<bar>x\<bar> < 2 powi (?k + 1)" using floor_log2_iff [OF assms, of ?k] by simp
  also have "\<dots> \<le> 2 powi (float_exp p emin x + int p)"
    by (rule power_int_increasing) (auto simp: float_exp_def)
  finally show ?thesis .
qed

lemma float_exp_lower:
  assumes "x \<noteq> 0" "emin < float_exp p emin x"
  shows "2 powi (float_exp p emin x + int p - 1) \<le> \<bar>x\<bar>"
proof -
  have "float_exp p emin x + int p - 1 = \<lfloor>log 2 \<bar>x\<bar>\<rfloor>"
    using assms(2) by (auto simp: float_exp_def max_def split: if_splits)
  then show ?thesis using floor_log2_iff [OF assms(1), of "\<lfloor>log 2 \<bar>x\<bar>\<rfloor>"] by simp
qed

lemma float_exp_mono: "x \<noteq> 0 \<Longrightarrow> \<bar>x\<bar> \<le> \<bar>y\<bar> \<Longrightarrow> float_exp p emin x \<le> float_exp p emin y"
  unfolding float_exp_def by (intro max.mono diff_right_mono add_right_mono floor_mono) auto

lemma float_exp_minus [simp]: "float_exp p emin (- x) = float_exp p emin x"
  by (simp add: float_exp_def)

subsection \<open>Rounding to a format\<close>

lemma float_round_0 [simp]: "float_round p emin 0 = 0"
  by (simp add: float_round_def)

lemma float_round_minus: "float_round p emin (- x) = - float_round p emin x"
  by (simp add: float_round_def Let_def round_even_minus)

lemma float_round_nonneg: "0 \<le> x \<Longrightarrow> 0 \<le> float_round p emin x"
  using round_even_mono [of 0 "x / 2 powi float_exp p emin x"]
  by (simp add: float_round_def Let_def)

lemma round_even_le: "x \<le> of_int k \<Longrightarrow> round_even x \<le> k"
  using round_even_mono [of x "of_int k"] by simp

lemma round_even_ge: "of_int k \<le> x \<Longrightarrow> k \<le> round_even x"
  using round_even_mono [of "of_int k" x] by simp

lemma two_powi_add_nat: "(2 :: real) powi (e + int n) = 2 ^ n * 2 powi e"
  by (simp add: power_int_add)

lemma round_even_upper:
  assumes "0 < x"
  shows "real_of_int (round_even (x / 2 powi float_exp p emin x)) \<le> 2 ^ p"
proof -
  have "x < 2 ^ p * 2 powi float_exp p emin x"
    using float_exp_upper [of x p emin] assms by (simp add: two_powi_add_nat)
  then have "round_even (x / 2 powi float_exp p emin x) \<le> 2 ^ p"
    by (intro round_even_le) (simp add: pos_divide_le_eq)
  then have "real_of_int (round_even (x / 2 powi float_exp p emin x)) \<le> real_of_int (2 ^ p)"
    by (simp only: of_int_le_iff)
  then show ?thesis by simp
qed

lemma round_even_lower:
  assumes "0 < x" "emin < float_exp (Suc q) emin x"
  shows "2 ^ q \<le> real_of_int (round_even (x / 2 powi float_exp (Suc q) emin x))"
proof -
  have "2 ^ q * 2 powi float_exp (Suc q) emin x \<le> x"
    using float_exp_lower [of x emin "Suc q"] assms by (simp add: two_powi_add_nat)
  then have "2 ^ q \<le> round_even (x / 2 powi float_exp (Suc q) emin x)"
    by (intro round_even_ge) (simp add: pos_le_divide_eq)
  then have "real_of_int (2 ^ q) \<le> real_of_int (round_even (x / 2 powi float_exp (Suc q) emin x))"
    by (simp only: of_int_le_iff)
  then show ?thesis by simp
qed

lemma float_round_pos_eq:
  "x \<noteq> 0 \<Longrightarrow> float_round p emin x =
     of_int (round_even (x / 2 powi float_exp p emin x)) * 2 powi float_exp p emin x"
  by (simp add: float_round_def Let_def)

lemma float_round_mono_pos:
  assumes "0 < x" "x \<le> y" "0 < p"
  shows "float_round p emin x \<le> float_round p emin y"
proof -
  let ?e = "float_exp p emin x" and ?f = "float_exp p emin y"
  have ef: "?e \<le> ?f" using assms by (intro float_exp_mono) auto
  have nz: "x \<noteq> 0" "y \<noteq> 0" using assms by auto
  show ?thesis
  proof (cases "?e = ?f")
    case True
    have "x / 2 powi ?f \<le> y / 2 powi ?f" using assms by (simp add: divide_right_mono)
    then have "real_of_int (round_even (x / 2 powi ?f)) \<le> of_int (round_even (y / 2 powi ?f))"
      by (simp only: of_int_le_iff round_even_mono)
    then show ?thesis
      unfolding float_round_pos_eq [OF nz(1)] float_round_pos_eq [OF nz(2)] True
      by (rule mult_right_mono) simp
  next
    case False
    with ef have lt: "?e + 1 \<le> ?f" by simp
    obtain q where q: "p = Suc q" using assms(3) by (cases p) auto
    have "float_round p emin x \<le> 2 ^ p * 2 powi ?e"
      unfolding float_round_pos_eq [OF nz(1)]
      by (rule mult_right_mono [OF round_even_upper [OF assms(1)]]) simp
    also have "\<dots> = 2 powi (?e + int p)" by (rule two_powi_add_nat [symmetric])
    also have "\<dots> \<le> 2 powi (?f + int q)"
      using lt q by (intro power_int_increasing) auto
    also have "\<dots> = 2 ^ q * 2 powi ?f" by (rule two_powi_add_nat)
    also have "\<dots> \<le> float_round p emin y"
    proof -
      have "emin < ?f" using lt by (auto simp: float_exp_def)
      then have "2 ^ q \<le> real_of_int (round_even (y / 2 powi ?f))"
        using assms q by (intro round_even_lower [of y emin q, folded q]) auto
      then show ?thesis
        unfolding float_round_pos_eq [OF nz(2)] by (rule mult_right_mono) simp
    qed
    finally show ?thesis .
  qed
qed

lemma float_round_mono:
  assumes "x \<le> y" "0 < p"
  shows "float_round p emin x \<le> float_round p emin y"
proof (cases "0 < x")
  case True
  with assms show ?thesis by (simp add: float_round_mono_pos)
next
  case x: False
  show ?thesis
  proof (cases "0 \<le> y")
    case True
    have "float_round p emin x \<le> 0"
      using x float_round_nonneg [of "- x" p emin] by (simp add: float_round_minus)
    also have "0 \<le> float_round p emin y" using True by (rule float_round_nonneg)
    finally show ?thesis .
  next
    case False
    then have "float_round p emin (- y) \<le> float_round p emin (- x)"
      using assms by (intro float_round_mono_pos) auto
    then show ?thesis by (simp add: float_round_minus)
  qed
qed

text \<open>Values of the format are fixed points.\<close>

lemma float_round_intI:
  assumes "x = of_int n * 2 powi float_exp p emin x"
  shows "float_round p emin x = x"
proof (cases "x = 0")
  case False
  have "x / 2 powi float_exp p emin x = of_int n"
    by (subst assms) simp
  then have "round_even (x / 2 powi float_exp p emin x) = n" by simp
  then show ?thesis using assms float_round_pos_eq [OF False] by simp
qed simp

lemma float_round_exact:
  assumes x: "x = of_int m * 2 powi k" and m: "\<bar>of_int m\<bar> \<le> (2 ^ p :: real)" and k: "emin \<le> k"
    and p: "0 < p"
  shows "float_round p emin x = x"
proof (cases "x = 0 \<or> float_exp p emin x \<le> k")
  case True
  then show ?thesis
  proof
    assume e: "float_exp p emin x \<le> k"
    let ?e = "float_exp p emin x"
    have "(2 :: real) powi k = 2 ^ nat (k - ?e) * 2 powi ?e"
      using two_powi_add_nat [of ?e "nat (k - ?e)"] e by simp
    then have "x = of_int (m * 2 ^ nat (k - ?e)) * 2 powi ?e"
      using x by simp
    then show ?thesis by (rule float_round_intI)
  qed simp
next
  case False
  let ?e = "float_exp p emin x"
  obtain q where q: "p = Suc q" using p by (cases p) auto
  have low: "2 powi (?e + int q) \<le> \<bar>x\<bar>"
    using float_exp_lower [of x emin p] False k q by simp
  have up: "\<bar>x\<bar> \<le> 2 ^ p * 2 powi k"
    using m unfolding x by (simp add: abs_mult mult_right_mono)
  have "(2 :: real) powi (?e + int q) \<le> 2 powi (k + int p)"
    using low up by (simp add: two_powi_add_nat)
  then have "?e + int q \<le> k + int p"
    using power_int_strict_increasing [of "k + int p" "?e + int q" "2 :: real"] by linarith
  with False q have e: "?e = k + 1" by simp
  have "2 ^ p * 2 powi k \<le> \<bar>x\<bar>"
    using low e q two_powi_add_nat [of k p] by (simp add: ac_simps)
  with up have "\<bar>x\<bar> = 2 ^ q * 2 powi ?e"
    using e q by (simp add: power_int_add)
  then have "x = of_int (if 0 \<le> x then 2 ^ q else - (2 ^ q)) * 2 powi ?e"
    by (auto simp: abs_if split: if_splits)
  then show ?thesis by (rule float_round_intI)
qed

lemma float_round_idem:
  assumes "0 < p"
  shows "float_round p emin (float_round p emin x) = float_round p emin x"
proof -
  have pos: "float_round p emin (float_round p emin y) = float_round p emin y" if "0 < y" for y
  proof (rule float_round_exact)
    show "float_round p emin y =
        of_int (round_even (y / 2 powi float_exp p emin y)) * 2 powi float_exp p emin y"
      using that by (simp add: float_round_pos_eq)
    show "\<bar>of_int (round_even (y / 2 powi float_exp p emin y))\<bar> \<le> (2 ^ p :: real)"
      using round_even_upper [OF that, of p emin] round_even_mono [of 0 "y / 2 powi float_exp p emin y"]
        that by simp
  qed (use assms in \<open>simp_all add: float_exp_def\<close>)
  show ?thesis
    using pos [of x] pos [of "- x"] by (cases "x = 0"; cases "0 < x") (auto simp: float_round_minus)
qed

text \<open>The rounding error.\<close>

lemma float_round_error:
  assumes "\<bar>x\<bar> \<le> 2 powi k" "emin \<le> k - int p + 1"
  shows "\<bar>float_round p emin x - x\<bar> \<le> 2 powi (k - int p)"
proof (cases "x = 0")
  case False
  let ?e = "float_exp p emin x"
  have "\<lfloor>log 2 \<bar>x\<bar>\<rfloor> \<le> k"
  proof -
    have "log 2 \<bar>x\<bar> \<le> of_int k"
      using assms(1) False powr_real_of_int' [of 2 k] by (simp add: log_le_iff)
    then show ?thesis by linarith
  qed
  then have e: "?e \<le> k - int p + 1"
    using assms(2) by (simp add: float_exp_def)
  have "float_round p emin x - x = (of_int (round_even (x / 2 powi ?e)) - x / 2 powi ?e) * 2 powi ?e"
    using False by (simp add: float_round_pos_eq left_diff_distrib)
  then have "\<bar>float_round p emin x - x\<bar> \<le> 1 / 2 * 2 powi ?e"
    using round_even_dist [of "x / 2 powi ?e"] by (simp add: abs_mult)
  also have "\<dots> = 2 powi (?e - 1)" by (simp add: power_int_diff)
  also have "\<dots> \<le> 2 powi (k - int p)" using e by (intro power_int_increasing) auto
  finally show ?thesis .
qed simp

text \<open>Rounding of a concrete number: the exponent \<open>k\<close> and the integer significand \<open>n\<close>.\<close>

lemma float_round_eval:
  assumes "2 powi k \<le> \<bar>x\<bar>" "\<bar>x\<bar> < 2 powi (k + 1)" "emin \<le> k - int p + 1"
    and "\<bar>of_int n - x / 2 powi (k - int p + 1)\<bar> < 1 / 2"
  shows "float_round p emin x = of_int n * 2 powi (k - int p + 1)"
proof -
  have e: "float_exp p emin x = k - int p + 1" using assms(1-3) by (rule float_exp_eq)
  have "x \<noteq> 0" using assms(1) zero_less_power_int [of "2::real" k] by (auto simp: not_le [symmetric])
  then show ?thesis
    using round_even_unique [OF assms(4)] by (simp add: float_round_pos_eq e)
qed

subsection \<open>What the signal processing relies on\<close>

locale rounding =
  fixes rnd :: "real \<Rightarrow> real"
  assumes mono: "x \<le> y \<Longrightarrow> rnd x \<le> rnd y"
    and minus: "rnd (- x) = - rnd x"
    and idem: "rnd (rnd x) = rnd x"
    and one: "rnd 1 = 1"
begin

lemma zero [simp]: "rnd 0 = 0"
  using minus [of 0] by simp

text \<open>A bound that is itself a value of the format survives rounding.\<close>

lemma bound: "\<bar>x\<bar> \<le> b \<Longrightarrow> rnd b = b \<Longrightarrow> \<bar>rnd x\<bar> \<le> b"
  using mono [of x b] mono [of "- b" x] minus [of b] by (auto simp: abs_le_iff)

lemma unit_bound: "\<bar>x\<bar> \<le> 1 \<Longrightarrow> \<bar>rnd x\<bar> \<le> 1"
  by (rule bound) (simp_all add: one)

lemma nonneg: "0 \<le> x \<Longrightarrow> 0 \<le> rnd x"
  using mono [of 0 x] by simp

lemma abs_mono: "\<bar>x\<bar> \<le> b \<Longrightarrow> \<bar>rnd x\<bar> \<le> rnd b"
  using mono [of x b] mono [of "- b" x] minus [of b] by (auto simp: abs_le_iff)

end

interpretation rnd32: rounding f32
proof
  show "f32 1 = 1"
    unfolding f32_def using float_round_exact [of 1 1 0 24 "- 149"] by simp
qed (simp_all add: f32_def float_round_mono float_round_minus float_round_idem)

interpretation rnd64: rounding f64
proof
  show "f64 1 = 1"
    unfolding f64_def using float_round_exact [of 1 1 0 53 "- 1074"] by simp
qed (simp_all add: f64_def float_round_mono float_round_minus float_round_idem)

text \<open>Integers up to the precision of the format are exact.\<close>

lemma of_int_abs_le: "\<bar>k\<bar> \<le> n \<Longrightarrow> \<bar>real_of_int k\<bar> \<le> real_of_int n"
  by linarith

lemma f32_of_int: "\<bar>k\<bar> \<le> 2 ^ 24 \<Longrightarrow> f32 (of_int k) = of_int k"
  unfolding f32_def using of_int_abs_le [of k "2 ^ 24"]
  by (intro float_round_exact [where m = k and k = 0]) simp_all

lemma f64_of_int: "\<bar>k\<bar> \<le> 2 ^ 53 \<Longrightarrow> f64 (of_int k) = of_int k"
  unfolding f64_def using of_int_abs_le [of k "2 ^ 53"]
  by (intro float_round_exact [where m = k and k = 0]) simp_all

end
