(* ===== verification/Rds_Modulation.thy ===== *)
theory Rds_Modulation
  imports Rds_Block Floats
begin

text \<open>
  From a group to its waveform (\<^verbatim>\<open>rds_encoder.c\<close>, \<^verbatim>\<open>rds_generate_group_samples\<close>): differential
  coding and the table of precomputed biphase symbols, indexed by a window of the last three coded
  bits that persists from group to group. The buffer of a group is written with \<^verbatim>\<open>memcpy\<close> at a
  16-bit offset; a write past its end is \<open>None\<close>.

  The reference is a receiver: it slices each symbol at one instant and undoes the differential
  coding.
\<close>

subsection \<open>The code\<close>

abbreviation (input) RDS_SAMPLES_PER_SYMBOL :: nat where "RDS_SAMPLES_PER_SYMBOL \<equiv> 40"
abbreviation (input) RDS_BLOCK_SIZE_BITS :: nat where "RDS_BLOCK_SIZE_BITS \<equiv> 26"
abbreviation (input) RDS_GROUP_SAMPLES :: nat where "RDS_GROUP_SAMPLES \<equiv> 4160"

record rds_group =
  grp_code :: int
  grp_version :: int
  blocks :: "rds_block list"
  last_sample_idx :: uint16
  samples_buffer :: "real list"

text \<open>
  The literals of the table in units of $10^{-6}$. A literal is a \<^verbatim>\<open>double\<close> that the
  initialisation of the \<^verbatim>\<open>float\<close> array converts.
\<close>

definition symbol_micros :: "int list list" where
  "symbol_micros =
   [[- 77944, - 231941, - 380444, - 519913, - 646931, - 758415, - 851558, - 923948,
     - 973663, - 999298, - 1000000, - 975585, - 926511, - 853877, - 759453, - 647450,
     - 521073, - 381756, - 232917, - 78280, 78280, 232917, 381756, 521073,
     647450, 759453, 853877, 926511, 975585, 1000000, 999298, 973663,
     923948, 851558, 758415, 646931, 519913, 380444, 231941, 77944],
    [- 77944, - 231941, - 380444, - 519913, - 646931, - 758415, - 851558, - 923948,
     - 973663, - 999298, - 1000000, - 975585, - 926511, - 853877, - 759453, - 643818,
     - 509690, - 362621, - 206824, - 46876, 112461, 266518, 410932, 541642,
     655263, 750847, 826167, 878414, 907712, 915311, 903409, 875057,
     834101, 784753, 731498, 678793, 630879, 591418, 563372, 548814],
    [548814, 563372, 591418, 630879, 678793, 731498, 784753, 834101,
     875057, 903409, 915311, 907712, 878414, 826167, 750847, 651601,
     530259, 391766, 240425, 81057, - 81057, - 240425, - 391766, - 530259,
     - 651601, - 750847, - 826167, - 878414, - 907712, - 915311, - 903409, - 875057,
     - 834101, - 784753, - 731498, - 678793, - 630879, - 591418, - 563372, - 548814],
    [548814, 563372, 591418, 630879, 678793, 731498, 784753, 834101,
     875057, 903409, 915311, 907712, 878414, 826167, 750847, 655263,
     541642, 410932, 266518, 112461, - 46876, - 206824, - 362621, - 509690,
     - 643818, - 759453, - 853877, - 926511, - 975585, - 1000000, - 999298, - 973663,
     - 923948, - 851558, - 758415, - 646931, - 519913, - 380444, - 231941, - 77944],
    [- 548814, - 563372, - 591418, - 630879, - 678793, - 731498, - 784753, - 834101,
     - 875057, - 903409, - 915311, - 907712, - 878414, - 826167, - 750847, - 655263,
     - 541642, - 410932, - 266518, - 112461, 46876, 206824, 362621, 509690,
     643818, 759453, 853877, 926511, 975585, 1000000, 999298, 973663,
     923948, 851558, 758415, 646931, 519913, 380444, 231941, 77944],
    [- 548814, - 563372, - 591418, - 630879, - 678793, - 731498, - 784753, - 834101,
     - 875057, - 903409, - 915311, - 907712, - 878414, - 826167, - 750847, - 651601,
     - 530259, - 391766, - 240425, - 81057, 81057, 240425, 391766, 530259,
     651601, 750847, 826167, 878414, 907712, 915311, 903409, 875057,
     834101, 784753, 731498, 678793, 630879, 591418, 563372, 548814],
    [77944, 231941, 380444, 519913, 646931, 758415, 851558, 923948,
     973663, 999298, 1000000, 975585, 926511, 853877, 759453, 643818,
     509690, 362621, 206824, 46876, - 112461, - 266518, - 410932, - 541642,
     - 655263, - 750847, - 826167, - 878414, - 907712, - 915311, - 903409, - 875057,
     - 834101, - 784753, - 731498, - 678793, - 630879, - 591418, - 563372, - 548814],
    [77944, 231941, 380444, 519913, 646931, 758415, 851558, 923948,
     973663, 999298, 1000000, 975585, 926511, 853877, 759453, 647450,
     521073, 381756, 232917, 78280, - 78280, - 232917, - 381756, - 521073,
     - 647450, - 759453, - 853877, - 926511, - 975585, - 1000000, - 999298, - 973663,
     - 923948, - 851558, - 758415, - 646931, - 519913, - 380444, - 231941, - 77944]]"

definition float_lit :: "real \<Rightarrow> real" where
  "float_lit x = f32 (f64 x)"

definition micro_lit :: "int \<Rightarrow> real" where
  "micro_lit k = float_lit (of_int k / 10 ^ 6)"

definition symbol_waveforms :: "real list list" where
  "symbol_waveforms = map (map micro_lit) symbol_micros"

definition blit :: "'a list \<Rightarrow> nat \<Rightarrow> 'a list \<Rightarrow> 'a list option" where
  "blit buf off src =
     (if off + length src \<le> length buf
      then Some (take off buf @ src @ drop (off + length src) buf) else None)"

text \<open>The loop state: the window, the buffer and the offset into it.\<close>

type_synonym mod_state = "uint8 \<times> real list \<times> uint16"

fun symbol_step :: "bool \<Rightarrow> mod_state \<Rightarrow> mod_state option" where
  "symbol_step b (moving_window, buffer, buffer_offset) =
     (let previous_bit = moving_window AND 1;
          current_bit = (if b then 1 else 0) XOR previous_bit;
          moving_window' = push_bit 1 moving_window OR current_bit
      in case blit buffer (unat buffer_offset) (symbol_waveforms ! unat (moving_window' AND 7)) of
           None \<Rightarrow> None
         | Some buffer' \<Rightarrow> Some (moving_window', buffer', buffer_offset + 40))"

fun block_symbols :: "nat \<Rightarrow> uint32 \<Rightarrow> mod_state \<Rightarrow> mod_state option" where
  "block_symbols 0 w st = Some st"
| "block_symbols (Suc j) w st =
     (case symbol_step (w AND push_bit j 1 \<noteq> 0) st of
        None \<Rightarrow> None
      | Some st' \<Rightarrow> block_symbols j w st')"

fun group_symbols :: "rds_block list \<Rightarrow> mod_state \<Rightarrow> (rds_block list \<times> mod_state) option" where
  "group_symbols [] st = Some ([], st)"
| "group_symbols (b # bs) st =
     (let (current_block, b') = rds_generate_block b in
      case block_symbols RDS_BLOCK_SIZE_BITS current_block st of
        None \<Rightarrow> None
      | Some st' \<Rightarrow>
          (case group_symbols bs st' of
             None \<Rightarrow> None
           | Some (bs', st'') \<Rightarrow> Some (b' # bs', st'')))"

definition rds_generate_group_samples :: "uint8 \<Rightarrow> rds_group \<Rightarrow> (uint8 \<times> rds_group) option" where
  "rds_generate_group_samples moving_window g =
     (case group_symbols (blocks g) (moving_window, samples_buffer g, 0) of
        None \<Rightarrow> None
      | Some (bs, mw, buf, off) \<Rightarrow> Some (mw, g\<lparr>blocks := bs, samples_buffer := buf\<rparr>))"

subsection \<open>The receiver\<close>

text \<open>Slicing every symbol at its eleventh sample, and undoing the differential coding.\<close>

definition demod :: "real list \<Rightarrow> bool list" where
  "demod xs = map (\<lambda>k. 0 < xs ! (40 * k + 10)) [0..<length xs div 40]"

definition diff_decode :: "bool list \<Rightarrow> bool list" where
  "diff_decode ds = map2 (\<noteq>) ds (tl ds)"

text \<open>The bits of a group in the order of transmission.\<close>

definition group_bits :: "rds_group \<Rightarrow> bool list" where
  "group_bits g = concat (map (\<lambda>b. msb_bits 26 (fst (rds_generate_block b))) (blocks g))"

subsection \<open>The table\<close>

text \<open>Facts about the table that one evaluation each establishes.\<close>

definition symbol_table_ok :: bool where
  "symbol_table_ok \<longleftrightarrow>
     length symbol_micros = 8 \<and> list_all (\<lambda>r. length r = 40) symbol_micros \<and>
     list_all (list_all (\<lambda>k. \<bar>k\<bar> \<le> 1000000)) symbol_micros \<and>
     list_all (\<lambda>w. symbol_micros ! (7 - w) = map uminus (symbol_micros ! w)) [0..<8] \<and>
     list_all (\<lambda>w. (if w div 2 mod 2 = 1 then 1 else - 1) * symbol_micros ! w ! 10 \<ge> 500000) [0..<8]"

lemma symbol_table_ok: symbol_table_ok
  by code_simp

lemma length_symbol_micros [simp]: "length symbol_micros = 8"
  using symbol_table_ok by (simp add: symbol_table_ok_def)

lemma length_symbol_row [simp]: "w < 8 \<Longrightarrow> length (symbol_micros ! w) = 40"
  using symbol_table_ok by (simp add: symbol_table_ok_def list_all_length)

lemma symbol_micros_bound: "w < 8 \<Longrightarrow> j < 40 \<Longrightarrow> \<bar>symbol_micros ! w ! j\<bar> \<le> 1000000"
  using symbol_table_ok by (simp add: symbol_table_ok_def list_all_length)

lemma symbol_micros_antisym: "w < 8 \<Longrightarrow> symbol_micros ! (7 - w) = map uminus (symbol_micros ! w)"
  using symbol_table_ok by (simp add: symbol_table_ok_def list_all_iff)

lemma symbol_micros_centre:
  "w < 8 \<Longrightarrow> 500000 \<le> (if w div 2 mod 2 = 1 then 1 else - 1) * symbol_micros ! w ! 10"
  using symbol_table_ok by (simp add: symbol_table_ok_def list_all_iff)

lemma length_symbol_waveforms [simp]: "length symbol_waveforms = 8"
  by (simp add: symbol_waveforms_def)

lemma length_symbol_waveform [simp]: "w < 8 \<Longrightarrow> length (symbol_waveforms ! w) = 40"
  by (simp add: symbol_waveforms_def)

lemma symbol_waveform_nth:
  "w < 8 \<Longrightarrow> j < 40 \<Longrightarrow> symbol_waveforms ! w ! j = micro_lit (symbol_micros ! w ! j)"
  by (simp add: symbol_waveforms_def)

text \<open>Literals are rounded twice; both roundings are monotone and odd.\<close>

lemma float_lit_minus: "float_lit (- x) = - float_lit x"
  by (simp add: float_lit_def rnd32.minus rnd64.minus)

lemma float_lit_mono: "x \<le> y \<Longrightarrow> float_lit x \<le> float_lit y"
  by (simp add: float_lit_def rnd32.mono rnd64.mono)

lemma float_lit_unit: "\<bar>x\<bar> \<le> 1 \<Longrightarrow> \<bar>float_lit x\<bar> \<le> 1"
  by (simp add: float_lit_def rnd32.unit_bound rnd64.unit_bound)

lemma float_lit_half: "float_lit (1 / 2) = 1 / 2"
proof -
  have "(1 / 2 :: real) = of_int 1 * 2 powi (- 1)" by (simp add: power_int_minus)
  then have "f64 (1 / 2) = 1 / 2" "f32 (1 / 2) = 1 / 2"
    unfolding f64_def f32_def by (rule float_round_exact; simp)+
  then show ?thesis by (simp only: float_lit_def)
qed

lemma float_lit_error:
  assumes "\<bar>x\<bar> \<le> 1"
  shows "\<bar>float_lit x - x\<bar> \<le> 1 / 10 ^ 7"
proof -
  have b: "(2 :: real) powi (- 53) + 2 powi (- 24) \<le> 1 / 10 ^ 7"
    by (simp add: power_int_minus)
  have "\<bar>f64 x - x\<bar> \<le> 2 powi (- 53)"
    using float_round_error [of x 0 "- 1074" 53] assms by (simp add: f64_def)
  moreover have "\<bar>f32 (f64 x) - f64 x\<bar> \<le> 2 powi (- 24)"
    using float_round_error [of "f64 x" 0 "- 149" 24] rnd64.unit_bound [OF assms]
    by (simp add: f32_def)
  ultimately show ?thesis using b unfolding float_lit_def by linarith
qed

lemma symbol_waveform_bound: "w < 8 \<Longrightarrow> j < 40 \<Longrightarrow> \<bar>symbol_waveforms ! w ! j\<bar> \<le> 1"
proof -
  assume wj: "w < 8" "j < 40"
  have "\<bar>real_of_int (symbol_micros ! w ! j)\<bar> \<le> 10 ^ 6"
    using of_int_abs_le [OF symbol_micros_bound [OF wj]] by simp
  then show ?thesis
    unfolding symbol_waveform_nth [OF wj] micro_lit_def
    by (intro float_lit_unit) (simp add: divide_le_eq)
qed

lemma symbol_waveform_antisym:
  assumes "w < 8" "j < 40"
  shows "symbol_waveforms ! (7 - w) ! j = - symbol_waveforms ! w ! j"
proof -
  have "7 - w < 8" using assms by simp
  then show ?thesis
    using assms by (simp add: symbol_waveform_nth symbol_micros_antisym micro_lit_def float_lit_minus)
qed

text \<open>At its eleventh sample a symbol has the sign of the middle bit of its window.\<close>

lemma symbol_waveform_centre:
  assumes "w < 8"
  shows "0 < symbol_waveforms ! w ! 10 \<longleftrightarrow> w div 2 mod 2 = 1"
proof -
  let ?k = "symbol_micros ! w ! 10"
  have x: "symbol_waveforms ! w ! 10 = float_lit (of_int ?k / 10 ^ 6)"
    using assms by (simp add: symbol_waveform_nth micro_lit_def)
  show ?thesis
  proof (cases "w div 2 mod 2 = 1")
    case True
    with symbol_micros_centre [OF assms] have "500000 \<le> ?k" by simp
    then have "1 / 2 \<le> real_of_int ?k / 10 ^ 6" by simp
    then show ?thesis
      using True x float_lit_mono [of "1 / 2" "real_of_int ?k / 10 ^ 6"] float_lit_half by simp
  next
    case False
    with symbol_micros_centre [OF assms] have "?k \<le> - 500000" by simp
    then have "real_of_int ?k / 10 ^ 6 \<le> - (1 / 2)" by simp
    then show ?thesis
      using False x float_lit_mono [of "real_of_int ?k / 10 ^ 6" "- (1 / 2)"] float_lit_half
        float_lit_minus [of "1 / 2"] by simp
  qed
qed

subsection \<open>The waveform of a bit sequence\<close>

definition window_step :: "uint8 \<Rightarrow> bool \<Rightarrow> uint8" where
  "window_step mw b = push_bit 1 mw OR ((if b then 1 else 0) XOR (mw AND 1))"

fun modulate :: "uint8 \<Rightarrow> bool list \<Rightarrow> real list" where
  "modulate mw [] = []"
| "modulate mw (b # bs) =
     symbol_waveforms ! unat (window_step mw b AND 7) @ modulate (window_step mw b) bs"

lemma bit_window_step:
  "bit (window_step mw b) k \<longleftrightarrow> k < 8 \<and> (if k = 0 then b \<noteq> bit mw 0 else bit mw (k - 1))"
proof -
  have 1: "bit (push_bit 1 mw) k \<longleftrightarrow> k < 8 \<and> 0 < k \<and> bit mw (k - 1)"
    by (simp only: bit_push_bit_iff) auto
  have 2: "bit ((if b then 1 else 0) XOR (mw AND 1)) k \<longleftrightarrow> k = 0 \<and> (b \<noteq> bit mw 0)"
    by (auto simp: bit_simps)
  show ?thesis
    unfolding window_step_def by (simp only: bit_or_iff 1 2) auto
qed

lemma unat_and_7_eq: "unat ((w :: uint8) AND 7) = unat w mod 8"
  using unat_and_mask [of w 3] by (simp add: mask_numeral)

lemma unat_and_7: "unat ((w :: uint8) AND 7) < 8"
  by (simp add: unat_and_7_eq)

lemma unat_bit_1: "unat (w :: uint8) mod 8 div 2 mod 2 = 1 \<longleftrightarrow> bit w 1"
proof -
  have "unat w mod 8 div 2 = unat w div 2 mod 4"
    using mod_mult2_eq [of "unat w" 2 4] by simp
  moreover have "unat w div 2 mod 4 mod 2 = unat w div 2 mod 2"
    by (simp add: mod_mod_cancel)
  ultimately show ?thesis by (simp add: bit_unat odd_iff_mod_2_eq_one)
qed

lemma length_modulate [simp]: "length (modulate mw bs) = 40 * length bs"
  by (induction bs arbitrary: mw) (simp_all add: unat_and_7)

lemma modulate_append:
  "modulate mw (xs @ ys) = modulate mw xs @ modulate (foldl window_step mw xs) ys"
  by (induction xs arbitrary: mw) simp_all

lemma symbol_step_eq:
  "symbol_step b (mw, buf, off) =
     map_option (\<lambda>buf'. (window_step mw b, buf', off + 40))
       (blit buf (unat off) (symbol_waveforms ! unat (window_step mw b AND 7)))"
  by (simp add: window_step_def Let_def split: option.split)

text \<open>What a block appends to the buffer, and that it stays within it.\<close>

lemma block_symbols_eq:
  assumes "unat off + 40 * n \<le> length buf" "length buf < 2 ^ 16"
  shows "block_symbols n w (mw, buf, off) =
     Some (foldl window_step mw (msb_bits n w),
           take (unat off) buf @ modulate mw (msb_bits n w) @ drop (unat off + 40 * n) buf,
           off + of_nat (40 * n))"
  using assms
proof (induction n arbitrary: mw buf off)
  case (Suc n)
  let ?b = "bit w n" and ?o = "unat off"
  let ?x = "symbol_waveforms ! unat (window_step mw ?b AND 7)"
  let ?buf = "take ?o buf @ ?x @ drop (?o + 40) buf"
  have x: "length ?x = 40" by (simp add: unat_and_7)
  have step: "symbol_step (w AND push_bit n 1 \<noteq> 0) (mw, buf, off) =
      Some (window_step mw ?b, ?buf, off + 40)"
    unfolding and_push_bit_1 not_not symbol_step_eq using Suc.prems x by (simp add: blit_def)
  have o: "unat (off + 40) = ?o + 40"
    using unat_add_of_nat [of off 40] Suc.prems by simp
  have len: "length ?buf = length buf" using Suc.prems x by simp
  have "block_symbols n w (window_step mw ?b, ?buf, off + 40) =
      Some (foldl window_step (window_step mw ?b) (msb_bits n w),
        take (?o + 40) ?buf @ modulate (window_step mw ?b) (msb_bits n w) @ drop (?o + 40 + 40 * n) ?buf,
        off + 40 + of_nat (40 * n))"
    using Suc.IH [of "off + 40" ?buf "window_step mw ?b"] Suc.prems by (simp only: o len) simp
  moreover have "take (?o + 40) ?buf = take ?o buf @ ?x"
    using Suc.prems x by simp
  moreover have "drop (?o + 40 + 40 * n) ?buf = drop (?o + 40 * Suc n) buf"
    using Suc.prems x by (simp add: ac_simps)
  ultimately show ?case
    by (simp only: block_symbols.simps step option.case msb_bits_Suc foldl_Cons modulate.simps
        append_assoc) (simp add: algebra_simps)
qed simp

subsection \<open>The waveform of a group\<close>

definition block_bits :: "rds_block \<Rightarrow> bool list" where
  "block_bits b = msb_bits 26 (fst (rds_generate_block b))"

lemma length_block_bits [simp]: "length (block_bits b) = 26"
  by (simp add: block_bits_def)

lemma group_bits_eq: "group_bits g = concat (map block_bits (blocks g))"
  by (simp add: group_bits_def block_bits_def [abs_def])

lemma length_concat_block_bits [simp]: "length (concat (map block_bits bs)) = 26 * length bs"
  by (induction bs) simp_all

lemma group_symbols_eq:
  assumes "unat off + 1040 * length bs \<le> length buf" "length buf < 2 ^ 16"
  shows "group_symbols bs (mw, buf, off) =
     (let bits = concat (map block_bits bs) in
      Some (map (\<lambda>b. snd (rds_generate_block b)) bs, foldl window_step mw bits,
            take (unat off) buf @ modulate mw bits @ drop (unat off + 1040 * length bs) buf,
            off + of_nat (1040 * length bs)))"
  using assms
proof (induction bs arbitrary: mw buf off)
  case (Cons b bs)
  let ?o = "unat off" and ?mw = "foldl window_step mw (block_bits b)"
  let ?buf = "take ?o buf @ modulate mw (block_bits b) @ drop (?o + 1040) buf"
  have blk: "block_symbols 26 (fst (rds_generate_block b)) (mw, buf, off) = Some (?mw, ?buf, off + 1040)"
    using block_symbols_eq [of off 26 buf] Cons.prems by (simp add: block_bits_def)
  have o: "unat (off + 1040) = ?o + 1040"
    using unat_add_of_nat [of off 1040] Cons.prems by simp
  have len: "length ?buf = length buf" using Cons.prems by simp
  have t: "take (?o + 1040) ?buf = take ?o buf @ modulate mw (block_bits b)"
    and d: "drop (?o + 1040 + 1040 * length bs) ?buf = drop (?o + 1040 * length (b # bs)) buf"
    using Cons.prems by (simp_all add: ac_simps)
  have "group_symbols bs (?mw, ?buf, off + 1040) =
      Some (map (\<lambda>b. snd (rds_generate_block b)) bs, foldl window_step ?mw (concat (map block_bits bs)),
            take (?o + 1040) ?buf @ modulate ?mw (concat (map block_bits bs)) @
              drop (?o + 1040 + 1040 * length bs) ?buf,
            off + 1040 + of_nat (1040 * length bs))"
    using Cons.IH [of "off + 1040" ?buf ?mw] Cons.prems by (simp only: o len Let_def) simp
  then show ?case
    unfolding t d by (simp add: blk case_prod_beta Let_def modulate_append ac_simps)
qed simp

definition group_shape :: "rds_group \<Rightarrow> bool" where
  "group_shape g \<longleftrightarrow> length (blocks g) = 4 \<and> length (samples_buffer g) = RDS_GROUP_SAMPLES"

lemma rds_generate_group_samples_eq:
  assumes "group_shape g"
  shows "rds_generate_group_samples mw g =
     Some (foldl window_step mw (group_bits g),
           g\<lparr>blocks := map (\<lambda>b. snd (rds_generate_block b)) (blocks g),
             samples_buffer := modulate mw (group_bits g)\<rparr>)"
  using assms group_symbols_eq [of 0 "blocks g" "samples_buffer g" mw]
  by (simp add: rds_generate_group_samples_def group_shape_def group_bits_eq Let_def)

lemma length_group_bits [simp]: "group_shape g \<Longrightarrow> length (group_bits g) = 104"
  by (simp add: group_bits_eq group_shape_def)

text \<open>Consecutive groups.\<close>

fun group_stream :: "uint8 \<Rightarrow> rds_group list \<Rightarrow> real list option" where
  "group_stream mw [] = Some []"
| "group_stream mw (g # gs) =
     (case rds_generate_group_samples mw g of
        None \<Rightarrow> None
      | Some (mw', g') \<Rightarrow> map_option (\<lambda>xs. samples_buffer g' @ xs) (group_stream mw' gs))"

lemma group_stream_eq:
  "list_all group_shape gs \<Longrightarrow> group_stream mw gs = Some (modulate mw (concat (map group_bits gs)))"
  by (induction gs arbitrary: mw) (simp_all add: rds_generate_group_samples_eq modulate_append)

subsection \<open>What the receiver recovers\<close>

lemma demod_symbol:
  assumes "length x = 40"
  shows "demod (x @ xs) = (0 < x ! 10) # demod xs"
proof -
  have "[0..<length (x @ xs) div 40] = 0 # map Suc [0..<length xs div 40]"
    using assms by (simp add: upt_conv_Cons map_Suc_upt del: upt_Suc)
  then show ?thesis using assms by (simp add: demod_def nth_append ac_simps)
qed

lemma demod_Nil [simp]: "demod [] = []"
  by (simp add: demod_def)

lemma window_centre: "0 < symbol_waveforms ! unat (window_step mw b AND 7) ! 10 \<longleftrightarrow> bit mw 0"
proof -
  have "0 < symbol_waveforms ! unat (window_step mw b AND 7) ! 10 \<longleftrightarrow> bit (window_step mw b) 1"
    by (simp only: symbol_waveform_centre unat_and_7 unat_and_7_eq unat_bit_1)
  then show ?thesis by (simp add: bit_window_step)
qed

lemma demod_modulate_Cons:
  "demod (modulate mw (b # bs)) = bit mw 0 # demod (modulate (window_step mw b) bs)"
  by (simp add: demod_symbol unat_and_7 window_centre)

lemma diff_decode_modulate: "diff_decode (demod (modulate mw bs)) = butlast bs"
proof (induction bs arbitrary: mw)
  case (Cons b bs)
  show ?case
  proof (cases bs)
    case Nil
    then show ?thesis by (simp only: demod_modulate_Cons) (simp add: diff_decode_def)
  next
    case (Cons c cs)
    with Cons.IH [of "window_step mw b"] show ?thesis
      unfolding Cons by (simp only: demod_modulate_Cons)
        (simp add: diff_decode_def bit_window_step, blast)
  qed
qed (simp add: diff_decode_def)

text \<open>The complementary window gives the negated waveform.\<close>

lemma window_step_not: "window_step (NOT mw) b = NOT (window_step mw b)"
  by (rule bit_word_eqI) (auto simp: bit_window_step bit_not_iff)

lemma unat_not_and_7: "unat ((NOT w :: uint8) AND 7) = 7 - unat (w AND 7)"
proof -
  have "NOT w = - 1 - w" by (simp add: not_eq_complement)
  then have "unat (NOT w) = 255 - unat w"
    by (simp add: unat_sub unsigned_minus_1_eq_mask mask_numeral)
  moreover have "(255 - n) mod 8 = 7 - n mod 8" if "n < 256" for n :: nat
  proof -
    have "255 - n = 8 * (31 - n div 8) + (7 - n mod 8)"
      using that div_mult_mod_eq [of n 8] mod_less_divisor [of 8 n] by linarith
    then have "(255 - n) mod 8 = (7 - n mod 8) mod 8" by (simp only: mod_mult_self4)
    then show ?thesis by simp
  qed
  ultimately show ?thesis
    using unsigned_less [of w] by (simp add: unat_and_7_eq)
qed

lemma modulate_not: "modulate (NOT mw) bs = map uminus (modulate mw bs)"
proof (induction bs arbitrary: mw)
  case (Cons b bs)
  let ?w = "unat (window_step mw b AND 7)"
  have "symbol_waveforms ! (7 - ?w) = map uminus (symbol_waveforms ! ?w)"
    using unat_and_7 [of "window_step mw b"]
    by (intro nth_equalityI) (simp_all add: symbol_waveform_antisym)
  with Cons show ?case by (simp add: window_step_not unat_not_and_7)
qed simp

lemma modulate_bound: "x \<in> set (modulate mw bs) \<Longrightarrow> \<bar>x\<bar> \<le> 1"
proof (induction bs arbitrary: mw)
  case (Cons b bs)
  then show ?case
    using symbol_waveform_bound unat_and_7 [of "window_step mw b"]
    by (auto simp: in_set_conv_nth nth_append split: if_splits)
qed simp

subsection \<open>Continuity of the waveform\<close>

definition symbol_steps_ok :: bool where
  "symbol_steps_ok \<longleftrightarrow>
     list_all (\<lambda>w. successively (\<lambda>x y. \<bar>y - x\<bar> \<le> 162114) (symbol_micros ! w) \<and>
       list_all (\<lambda>x. \<bar>hd (symbol_micros ! ((2 * w + x) mod 8)) - last (symbol_micros ! w)\<bar> \<le> 162114)
         [0..<2]) [0..<8]"

lemma symbol_steps_ok: symbol_steps_ok
  by code_simp

definition small_step :: "real \<Rightarrow> real \<Rightarrow> bool" where
  "small_step x y \<longleftrightarrow> \<bar>y - x\<bar> \<le> 0.1622"

lemma symbol_micros_step:
  "w < 8 \<Longrightarrow> Suc j < 40 \<Longrightarrow> \<bar>symbol_micros ! w ! Suc j - symbol_micros ! w ! j\<bar> \<le> 162114"
  using symbol_steps_ok
  by (auto simp: symbol_steps_ok_def list_all_iff successively_conv_nth)

lemma symbol_micros_join:
  "w < 8 \<Longrightarrow> x < 2 \<Longrightarrow> \<bar>hd (symbol_micros ! ((2 * w + x) mod 8)) - last (symbol_micros ! w)\<bar> \<le> 162114"
  using symbol_steps_ok by (auto simp: symbol_steps_ok_def list_all_iff)

lemma abs_diff_error:
  "\<bar>a - x\<bar> \<le> e \<Longrightarrow> \<bar>b - y\<bar> \<le> e \<Longrightarrow> \<bar>y - x\<bar> \<le> d \<Longrightarrow> d + 2 * e \<le> D \<Longrightarrow> \<bar>b - a\<bar> \<le> (D :: real)"
  by linarith

lemma micro_lit_error:
  assumes "\<bar>k\<bar> \<le> 1000000"
  shows "\<bar>micro_lit k - of_int k / 10 ^ 6\<bar> \<le> 1 / 10 ^ 7"
  unfolding micro_lit_def using of_int_abs_le [OF assms]
  by (intro float_lit_error) (simp add: divide_le_eq)

lemma small_step_lit:
  assumes "\<bar>k\<bar> \<le> 1000000" "\<bar>l\<bar> \<le> 1000000" "\<bar>l - k\<bar> \<le> 162114"
  shows "small_step (micro_lit k) (micro_lit l)"
  unfolding small_step_def
proof (rule abs_diff_error [OF micro_lit_error micro_lit_error])
  show "\<bar>real_of_int l / 10 ^ 6 - real_of_int k / 10 ^ 6\<bar> \<le> 0.162114"
    using of_int_abs_le [OF assms(3)] by (simp flip: diff_divide_distrib add: divide_le_eq)
qed (use assms in simp_all)

lemma symbol_waveform_steps: "w < 8 \<Longrightarrow> successively small_step (symbol_waveforms ! w)"
  by (simp add: successively_conv_nth symbol_waveform_nth small_step_lit symbol_micros_bound
      symbol_micros_step)

lemma symbol_waveform_join:
  assumes "w < 8" "x < 2"
  shows "small_step (last (symbol_waveforms ! w)) (hd (symbol_waveforms ! ((2 * w + x) mod 8)))"
proof -
  let ?v = "(2 * w + x) mod 8"
  have ne: "symbol_micros ! w \<noteq> []" "symbol_micros ! ?v \<noteq> []"
    using assms by (auto simp flip: length_0_conv)
  then have "last (symbol_waveforms ! w) = micro_lit (last (symbol_micros ! w))"
      "hd (symbol_waveforms ! ?v) = micro_lit (hd (symbol_micros ! ?v))"
    using assms by (simp_all add: symbol_waveforms_def last_map hd_map)
  moreover have "\<bar>last (symbol_micros ! w)\<bar> \<le> 1000000" "\<bar>hd (symbol_micros ! ?v)\<bar> \<le> 1000000"
    using assms ne by (simp_all add: last_conv_nth hd_conv_nth symbol_micros_bound)
  ultimately show ?thesis
    using symbol_micros_join [OF assms] by (simp add: small_step_lit)
qed

lemma mod_8_double: "(2 * n + c) mod 256 mod 8 = (2 * (n mod 8) + c) mod (8 :: nat)"
proof -
  have "(2 * n + c) mod 256 mod 8 = (2 * n + c) mod 8" by (simp add: mod_mod_cancel)
  also have "\<dots> = (2 * (n mod 8) + c) mod 8" by (metis mod_add_left_eq mod_mult_right_eq)
  finally show ?thesis .
qed

lemma window_step_succ: "\<exists>x<2. unat (window_step mw b AND 7) = (2 * unat (mw AND 7) + x) mod 8"
proof -
  let ?c = "b \<noteq> bit mw 0"
  have "window_step mw b = 2 * mw + of_bool ?c"
  proof -
    have "(if b then 1 else 0) XOR (mw AND 1) = of_bool ?c"
      by (rule bit_word_eqI) (auto simp: bit_simps)
    then have "window_step mw b = push_bit 1 mw OR of_bool ?c"
      by (simp only: window_step_def)
    also have "\<dots> = push_bit 1 mw + of_bool ?c"
    proof (rule disjunctive_add [symmetric])
      show "\<not> bit (push_bit 1 mw) k \<or> \<not> bit (of_bool ?c :: uint8) k" for k
        by (simp only: bit_push_bit_iff) (auto simp: bit_simps)
    qed
    finally show ?thesis by (simp add: ac_simps)
  qed
  then have "unat (window_step mw b) = (2 * unat mw + of_bool ?c) mod 256"
    by (simp add: unat_word_ariths mod_Suc_eq)
  then have "unat (window_step mw b AND 7) = (2 * unat (mw AND 7) + of_bool ?c) mod 8"
    unfolding unat_and_7_eq by (simp only: mod_8_double)
  then show ?thesis by (intro exI [of _ "of_bool ?c"]) simp
qed

lemma modulate_continuous: "successively small_step (modulate mw bs)"
proof (induction bs arbitrary: mw)
  case (Cons b bs)
  let ?mw = "window_step mw b"
  show ?case
  proof (cases bs)
    case Nil
    then show ?thesis by (simp add: symbol_waveform_steps unat_and_7)
  next
    case (Cons c cs)
    obtain x where "x < 2" "unat (window_step ?mw c AND 7) = (2 * unat (?mw AND 7) + x) mod 8"
      using window_step_succ by blast
    then have "small_step (last (symbol_waveforms ! unat (?mw AND 7)))
        (hd (symbol_waveforms ! unat (window_step ?mw c AND 7)))"
      by (simp add: symbol_waveform_join unat_and_7)
    moreover have "symbol_waveforms ! unat (window_step ?mw c AND 7) \<noteq> []"
      using unat_and_7 by (auto simp flip: length_0_conv)
    ultimately show ?thesis
      using Cons.IH [of ?mw] unfolding Cons
      by (simp add: successively_append_iff symbol_waveform_steps unat_and_7)
  qed
qed simp

subsection \<open>Properties\<close>

text \<open>A concrete group for the examples.\<close>

definition example_group :: rds_group where
  "example_group =
     \<lparr>grp_code = 0, grp_version = 0,
      blocks = replicate 4 \<lparr>infoword = 0xBEEF, offset_word = 0x198, checkword = 0\<rparr>,
      last_sample_idx = 0, samples_buffer = replicate 4160 0\<rparr>"

lemma group_shape_example [simp]: "group_shape example_group"
  by (simp add: group_shape_def example_group_def)



text \<open>
  C2: a receiver that slices every symbol at one instant and undoes the differential coding gets
  the bits of any sequence of groups back, across group boundaries and whatever the window was
  before; the last bit needs the symbol after it. It gets the same bits when the received
  polarity is inverted, which is what the differential coding is for.
\<close>

theorem group_stream_roundtrip:
  assumes "list_all group_shape gs"
  shows "\<exists>xs. group_stream mw gs = Some xs \<and>
           diff_decode (demod xs) = butlast (concat (map group_bits gs)) \<and>
           diff_decode (demod (map uminus xs)) = butlast (concat (map group_bits gs))"
  using assms
  by (simp add: group_stream_eq diff_decode_modulate flip: modulate_not)

theorem group_stream_roundtrip_witness:
  "\<exists>xs. group_stream 0 (replicate 2 example_group) = Some xs \<and>
    length (diff_decode (demod xs)) = 207"
proof -
  have "list_all group_shape (replicate 2 example_group)" by (simp add: list_all_iff)
  from group_stream_roundtrip [OF this, of 0] obtain xs
    where "group_stream 0 (replicate 2 example_group) = Some xs"
      "diff_decode (demod xs) = butlast (concat (map group_bits (replicate 2 example_group)))" by blast
  then show ?thesis
    using length_group_bits [OF group_shape_example] by (simp add: length_concat sum_list_replicate)
qed

text \<open>
  C27: the symbols of the table join to a continuous waveform: between any two consecutive samples
  of a sequence of groups, also at the joints of symbols and of groups, the signal moves by less
  than 0.1623 of full scale.
\<close>

theorem group_stream_continuous:
  assumes "group_stream mw gs = Some xs" "list_all group_shape gs" "Suc i < length xs"
  shows "\<bar>xs ! Suc i - xs ! i\<bar> \<le> 0.1622"
proof -
  have "successively small_step xs"
    using assms by (auto simp: group_stream_eq modulate_continuous)
  then show ?thesis
    using assms(3) by (simp only: successively_conv_nth small_step_def)
qed

theorem group_stream_continuous_witness:
  "\<exists>xs. group_stream 0 [example_group] = Some xs \<and>
    \<bar>xs ! 40 - xs ! 39\<bar> \<le> 0.1622"
proof -
  have "list_all group_shape [example_group]" by simp
  moreover from this have ex: "group_stream 0 [example_group] = Some (modulate 0 (group_bits example_group))"
    by (subst group_stream_eq) simp_all
  ultimately have "\<bar>modulate 0 (group_bits example_group) ! Suc 39 - modulate 0 (group_bits example_group) ! 39\<bar> \<le> 0.1622"
    using length_group_bits [OF group_shape_example] by (intro group_stream_continuous [of 0 "[example_group]"]) simp_all
  with ex show ?thesis by simp
qed

end
