(* ===== verification/Rds_Clock.thy ===== *)
theory Rds_Clock
  imports Floats
begin

text \<open>
  The clock as group 4A uses it: the broken-down time of the C library (\<^verbatim>\<open>gmtime_r\<close>,
  \<^verbatim>\<open>localtime_r\<close>) and the modified Julian date that \<^verbatim>\<open>rds_generate_group_4\<close> of
  \<^verbatim>\<open>rds_encoder.c\<close> computes from it in double arithmetic.

  \<open>gmtime\<close> is the proleptic Gregorian calendar of the C library, from the seconds since
  1970-01-01. The time zone of \<^verbatim>\<open>localtime_r\<close> is the offset from UTC in seconds that the
  system's configuration gives for that moment, a parameter. Both functions fail only when the
  year does not fit an \<^verbatim>\<open>int\<close>.
\<close>

subsection \<open>Broken-down time\<close>

record tm =
  tm_min :: int
  tm_hour :: int
  tm_mday :: int
  tm_mon :: int
  tm_year :: int

definition leap_year :: "int \<Rightarrow> bool" where
  "leap_year y \<longleftrightarrow> y mod 4 = 0 \<and> (y mod 100 \<noteq> 0 \<or> y mod 400 = 0)"

definition year_days :: "int \<Rightarrow> int" where
  "year_days y = (if leap_year y then 366 else 365)"

definition month_days :: "int \<Rightarrow> int list" where
  "month_days y = [31, if leap_year y then 29 else 28, 31, 30, 31, 30, 31, 31, 30, 31, 30, 31]"

text \<open>The year of a day number, and the day in it, from a starting year on.\<close>

lemma year_days_pos: "0 < year_days y"
  by (simp add: year_days_def)

function split_year :: "int \<Rightarrow> int \<Rightarrow> int \<times> int" where
  "split_year y d = (if d < year_days y then (y, d) else split_year (y + 1) (d - year_days y))"
  by pat_completeness auto
termination
proof (relation "measure (\<lambda>(y, d). nat d)")
  show "((y + 1, d - year_days y), (y, d)) \<in> measure (\<lambda>(y, d). nat d)"
    if "\<not> d < year_days y" for y d
    using that year_days_pos [of y] by simp
qed simp

declare split_year.simps [simp del]

fun split_month :: "int list \<Rightarrow> int \<Rightarrow> int \<times> int" where
  "split_month (m # ms) d = (if d < m then (0, d) else let (k, r) = split_month ms (d - m) in (k + 1, r))"
| "split_month [] d = (0, d)"

definition gmtime :: "int \<Rightarrow> tm" where
  "gmtime t =
     (let (y, yday) = split_year 1970 (t div 86400);
          (m, mday) = split_month (month_days y) yday;
          s = t mod 86400
      in \<lparr>tm_min = s div 60 mod 60, tm_hour = s div 3600, tm_mday = mday + 1, tm_mon = m,
          tm_year = y - 1900\<rparr>)"

definition gmtime_r :: "int \<Rightarrow> tm option" where
  "gmtime_r t = (let tm = gmtime t in if \<bar>tm_year tm\<bar> < 2 ^ 31 then Some tm else None)"

definition localtime_r :: "(int \<Rightarrow> int) \<Rightarrow> int \<Rightarrow> tm option" where
  "localtime_r utc_offset t = gmtime_r (t + utc_offset t)"

subsection \<open>The modified Julian date\<close>

text \<open>
  Lines 388 to 393 of \<^verbatim>\<open>rds_encoder.c\<close>. The integer factors are converted to \<^verbatim>\<open>double\<close>, the
  products are rounded and truncated.
\<close>

definition year_term :: "int \<Rightarrow> int" where
  "year_term n = c_trunc (f64 (of_int n * f64 365.25))"

definition month_term :: "int \<Rightarrow> int" where
  "month_term k = c_trunc (f64 (of_int k * f64 30.6001))"

definition group_4_mjd :: "int \<Rightarrow> int \<Rightarrow> int \<Rightarrow> int" where
  "group_4_mjd day month year =
     (let leap_day = (if month \<le> 2 then 1 else 0)
      in 14956 + day + year_term (year - leap_day) + month_term (month + 1 + leap_day * 12))"

subsection \<open>The calendar\<close>

lemma split_year_sum:
  assumes "split_year y d = (y', d')" "0 \<le> d"
  shows "y \<le> y' \<and> 0 \<le> d' \<and> d' < year_days y' \<and> d = (\<Sum>i = y..<y'. year_days i) + d'"
  using assms
proof (induction y d rule: split_year.induct)
  case (1 y d)
  show ?case
  proof (cases "d < year_days y")
    case True
    with 1 show ?thesis by (simp add: split_year.simps)
  next
    case False
    with 1 have IH: "y + 1 \<le> y' \<and> 0 \<le> d' \<and> d' < year_days y' \<and>
        d - year_days y = (\<Sum>i = y + 1..<y'. year_days i) + d'"
      by (simp add: split_year.simps [of y d])
    moreover have "{y..<y'} = insert y {y + 1..<y'}" using IH by auto
    ultimately show ?thesis by simp
  qed
qed

text \<open>The years before 2100 and after 1900 are leap years exactly every fourth year.\<close>

lemma leap_year_4:
  assumes "1900 < y" "y < 2100"
  shows "leap_year y \<longleftrightarrow> y mod 4 = 0"
proof -
  have "y mod 100 \<noteq> 0 \<or> y mod 400 = 0"
  proof (rule ccontr)
    assume a: "\<not> ?thesis"
    then have "y = 100 * (y div 100)" using mult_div_mod_eq [of 100 y] by simp
    with assms have "y div 100 = 20" by linarith
    with \<open>y = _\<close> have "y = 2000" by simp
    with a show False by simp
  qed
  then show ?thesis by (auto simp: leap_year_def)
qed

definition quarter_days :: "int \<Rightarrow> int" where
  "quarter_days n = 1461 * n div 4"

lemma quarter_days_succ:
  assumes "1900 < y" "y < 2100"
  shows "quarter_days (y - 1900) - quarter_days (y - 1901) = year_days y"
proof -
  obtain q r where y: "y = 1900 + (4 * q + r)" "0 \<le> r" "r < 4"
    by (rule that [of "(y - 1900) div 4" "(y - 1900) mod 4"]) auto
  have "y = r + 4 * (475 + q)" using y by simp
  then have mod: "y mod 4 = r" using y by (simp only: mod_mult_self2) simp
  have q: "quarter_days (4 * q + s) = 1461 * q + 1461 * s div 4" for s
    unfolding quarter_days_def by (simp add: algebra_simps)
  have "quarter_days (y - 1900) = 1461 * q + 1461 * r div 4"
    using q [of r] y by simp
  moreover have "quarter_days (y - 1901) = 1461 * q + 1461 * (r - 1) div 4"
    using q [of "r - 1"] y by (simp add: algebra_simps)
  moreover have "r = 0 \<or> r = 1 \<or> r = 2 \<or> r = 3" using y by linarith
  ultimately show ?thesis
    using leap_year_4 [OF assms] mod by (auto simp: year_days_def)
qed

lemma year_days_sum:
  "n < 130 \<Longrightarrow> (\<Sum>i = 1970..<1970 + int n. year_days i) = quarter_days (69 + int n) - 25202"
proof (induction n)
  case (Suc n)
  have "{1970..<1970 + int (Suc n)} = insert (1970 + int n) {1970..<1970 + int n}" by auto
  then show ?case
    using Suc quarter_days_succ [of "1970 + int n"] by (simp add: algebra_simps)
qed (simp add: quarter_days_def)

lemma split_month_sum:
  assumes "split_month ms d = (m, r)" "0 \<le> d" "d < sum_list ms"
  shows "0 \<le> m \<and> nat m < length ms \<and> 0 \<le> r \<and> r < ms ! nat m \<and> d = sum_list (take (nat m) ms) + r"
  using assms
proof (induction ms d arbitrary: m r rule: split_month.induct)
  case (1 x ms d)
  show ?case
  proof (cases "d < x")
    case False
    obtain k where k: "split_month ms (d - x) = (k, r)" "m = k + 1"
      using "1.prems"(1) False by (auto split: prod.splits)
    with 1 False have "0 \<le> k \<and> nat k < length ms \<and> 0 \<le> r \<and> r < ms ! nat k \<and>
        d - x = sum_list (take (nat k) ms) + r" by simp
    with k show ?thesis by (auto simp: nat_add_distrib)
  qed (use "1.prems" in auto)
qed simp

text \<open>The two truncated products.\<close>

lemma f64_365_25: "f64 365.25 = 365.25"
  unfolding f64_def
  by (rule float_round_exact [where m = 1461 and k = "- 2"]) (simp_all add: power_int_minus)

lemma year_term_eq:
  assumes "0 \<le> n" "n \<le> 2 ^ 20"
  shows "year_term n = quarter_days n"
proof -
  have "f64 (of_int n * 365.25) = of_int n * 365.25"
    unfolding f64_def
  proof (rule float_round_exact [where m = "1461 * n" and k = "- 2"])
    show "\<bar>real_of_int (1461 * n)\<bar> \<le> 2 ^ 53"
      using of_int_abs_le [of "1461 * n" "2 ^ 53"] assms by simp
  qed (simp_all add: power_int_minus)
  moreover have "real_of_int n * 365.25 = real_of_int (1461 * n) / real_of_int 4" by simp
  ultimately have "f64 (of_int n * f64 365.25) = real_of_int (1461 * n) / real_of_int 4"
    by (simp only: f64_365_25)
  then show ?thesis
    unfolding year_term_def c_trunc_def quarter_days_def
    using assms by (simp only: floor_divide_of_int_eq) simp
qed

lemma abs_chain:
  "\<bar>a - b\<bar> \<le> e \<Longrightarrow> \<bar>b - c\<bar> \<le> f \<Longrightarrow> e \<le> g \<Longrightarrow> g + f \<le> h \<Longrightarrow> \<bar>a - c\<bar> \<le> (h :: real)"
  by linarith

lemma month_product:
  assumes "1 \<le> k" "k \<le> 15"
  shows "\<bar>f64 (of_int k * f64 30.6001) - of_int k * 30.6001\<bar> \<le> 1 / 10 ^ 5"
proof -
  have k: "1 \<le> real_of_int k" "real_of_int k \<le> 15" using assms by simp_all
  let ?c = "f64 30.6001" and ?x = "of_int k * f64 30.6001"
  have p: "(2 :: real) powi (- 48) \<le> 1 / 10 ^ 10" "(2 :: real) powi (- 44) \<le> 1 / 10 ^ 10"
    by (simp_all add: power_int_minus)
  have c: "\<bar>?c - 30.6001\<bar> \<le> 2 powi (- 48)"
    using float_round_error [of "30.6001" 5 "- 1074" 53] by (simp add: f64_def)
  have near: "0 \<le> a \<and> a \<le> 31"
    if "\<bar>a - b\<bar> \<le> e" "e \<le> d" "d \<le> 1 / 10" "30 \<le> b" "b \<le> 30.7" for a b d e :: real
    using that by simp linarith
  have c31: "0 \<le> ?c" "?c \<le> 31" using near [OF c p(1)] by simp_all
  have "\<bar>?x\<bar> \<le> 15 * 31"
    unfolding abs_mult using k c31 by (intro mult_mono) simp_all
  then have "\<bar>f64 ?x - ?x\<bar> \<le> 2 powi (- 44)"
    using float_round_error [of ?x 9 "- 1074" 53] by (simp add: f64_def)
  moreover have "\<bar>?x - of_int k * 30.6001\<bar> \<le> 15 * (1 / 10 ^ 10)"
  proof -
    have "?x - of_int k * 30.6001 = of_int k * (?c - 30.6001)" by (simp add: right_diff_distrib)
    then have "\<bar>?x - of_int k * 30.6001\<bar> = \<bar>of_int k\<bar> * \<bar>?c - 30.6001\<bar>" by (simp only: abs_mult)
    also have "\<dots> \<le> 15 * (1 / 10 ^ 10)" using k c p(1) by (intro mult_mono) simp_all
    finally show ?thesis .
  qed
  ultimately show ?thesis by (rule abs_chain [OF _ _ p(2)]) simp
qed

lemma month_term_eq:
  assumes "1 \<le> k" "k \<le> 15" "of_int n + 1 / 10 ^ 5 \<le> of_int k * (30.6001 :: real)"
    and "of_int k * (30.6001 :: real) + 1 / 10 ^ 5 < of_int n + 1" "0 \<le> n"
  shows "month_term k = n"
proof -
  let ?y = "f64 (of_int k * f64 30.6001)"
  have y: "of_int n \<le> ?y" "?y < of_int n + 1"
    using month_product [OF assms(1,2)] assms(3,4) by linarith+
  moreover have "0 \<le> real_of_int n" using assms(5) by simp
  ultimately have "0 \<le> ?y" by linarith
  with y show ?thesis by (simp add: month_term_def c_trunc_def floor_eq_iff)
qed

lemma month_terms:
  "month_term 4 = 122" "month_term 5 = 153" "month_term 6 = 183" "month_term 7 = 214"
  "month_term 8 = 244" "month_term 9 = 275" "month_term 10 = 306" "month_term 11 = 336"
  "month_term 12 = 367" "month_term 13 = 397" "month_term 14 = 428" "month_term 15 = 459"
  by (rule month_term_eq; simp)+

text \<open>The date of a day number has that day number plus 40587 as its modified Julian date.\<close>

lemma group_4_mjd_month:
  assumes "0 \<le> m" "m < 12" "1970 \<le> y" "y < 2100"
  shows "group_4_mjd (mday + 1) (m + 1) (y - 1900) =
         15385 + quarter_days (y - 1901) + sum_list (take (nat m) (month_days y)) + mday"
proof -
  have step: "quarter_days (y - 1900) = quarter_days (y - 1901) + year_days y"
    using quarter_days_succ [of y] assms by simp
  have "m = 0 \<or> m = 1 \<or> m = 2 \<or> m = 3 \<or> m = 4 \<or> m = 5 \<or> m = 6 \<or> m = 7 \<or> m = 8 \<or> m = 9 \<or>
      m = 10 \<or> m = 11"
    using assms(1,2) by arith
  then show ?thesis
    using assms
    by (auto simp: group_4_mjd_def year_term_eq month_days_def year_days_def step month_terms
        eval_nat_numeral)
qed

lemma year_days_sum_months: "sum_list (month_days y) = year_days y"
  by (simp add: month_days_def year_days_def)

lemma split_year_range:
  assumes "split_year 1970 d = (y, r)" "0 \<le> d" "d < 47482"
  shows "1970 \<le> y" "y < 2100"
proof -
  have s: "1970 \<le> y" "0 \<le> r" "d = (\<Sum>i = 1970..<y. year_days i) + r"
    using split_year_sum [OF assms(1,2)] by auto
  show "1970 \<le> y" by (rule s)
  show "y < 2100"
  proof (rule ccontr)
    assume "\<not> y < 2100"
    then have "(\<Sum>i = 1970..<2100. year_days i) \<le> (\<Sum>i = 1970..<y. year_days i)"
      by (intro sum_mono2) (auto simp: year_days_def)
    moreover have "(\<Sum>i = 1970..<2100. year_days i) = 47482"
    proof -
      have "{1970..<2100} = insert 2099 {1970..<1970 + int 129}" by auto
      then show ?thesis
        using year_days_sum [of 129]
        by (simp add: quarter_days_def year_days_def leap_year_def)
    qed
    ultimately show False using s assms(3) by linarith
  qed
qed

text \<open>The date that the code computes for a moment between 1970 and 2099.\<close>

lemma group_4_mjd_gmtime:
  assumes "0 \<le> t" "t < 47482 * 86400"
  shows "group_4_mjd (tm_mday (gmtime t)) (tm_mon (gmtime t) + 1) (tm_year (gmtime t)) =
           40587 + t div 86400"
proof -
  obtain y yday where y: "split_year 1970 (t div 86400) = (y, yday)" by force
  obtain m mday where m: "split_month (month_days y) yday = (m, mday)" by force
  have t: "0 \<le> t div 86400" "t div 86400 < 47482"
    using assms by (simp_all add: div_less_iff_less_mult)
  have yr: "1970 \<le> y" "y < 2100" using split_year_range [OF y t] by auto
  have sum: "t div 86400 = (\<Sum>i = 1970..<y. year_days i) + yday" "0 \<le> yday" "yday < year_days y"
    using split_year_sum [OF y] t by auto
  have mon: "0 \<le> m" "m < 12" "yday = sum_list (take (nat m) (month_days y)) + mday"
    using split_month_sum [OF m] sum year_days_sum_months [of y] by (auto simp: month_days_def)
  have "(\<Sum>i = 1970..<y. year_days i) = quarter_days (y - 1901) - 25202"
    using year_days_sum [of "nat (y - 1970)"] yr by simp
  then have "40587 + t div 86400 = 15385 + quarter_days (y - 1901) + sum_list (take (nat m) (month_days y)) + mday"
    using sum(1) mon(3) by linarith
  moreover have "tm_mday (gmtime t) = mday + 1" "tm_mon (gmtime t) = m" "tm_year (gmtime t) = y - 1900"
    by (simp_all add: gmtime_def y m Let_def)
  ultimately show ?thesis
    using group_4_mjd_month [OF mon(1,2) yr, of mday] by (simp only:)
qed

lemma gmtime_r_ok:
  assumes "0 \<le> t" "t < 47482 * 86400"
  shows "gmtime_r t = Some (gmtime t)"
proof -
  obtain y yday where y: "split_year 1970 (t div 86400) = (y, yday)" by force
  have "0 \<le> t div 86400" "t div 86400 < 47482"
    using assms by (simp_all add: div_less_iff_less_mult)
  from split_year_range [OF y this] have "1970 \<le> y" "y < 2100" by auto
  moreover have "tm_year (gmtime t) = y - 1900"
    by (simp add: gmtime_def y Let_def split: prod.splits)
  ultimately show ?thesis by (simp add: gmtime_r_def Let_def)
qed

lemma mod_mult_div: "0 < m \<Longrightarrow> 0 < n \<Longrightarrow> t mod (m * n) div m = t div m mod (n :: int)"
  by (simp add: zmod_zmult2_eq)

lemma gmtime_minute: "tm_min (gmtime t) = t mod 3600 div 60"
proof -
  have "t mod (60 * 1440) div 60 = t div 60 mod 1440" by (rule mod_mult_div) simp_all
  then have "t mod 86400 div 60 mod 60 = t div 60 mod 60" by (simp add: mod_mod_cancel)
  also have "\<dots> = t mod (60 * 60) div 60" by (rule mod_mult_div [symmetric]) simp_all
  finally have "t mod 86400 div 60 mod 60 = t mod 3600 div 60" by simp
  then show ?thesis by (simp only: gmtime_def Let_def split: prod.splits) simp
qed

lemma gmtime_hour: "tm_hour (gmtime t) = t mod 86400 div 3600"
  by (simp add: gmtime_def Let_def split: prod.splits)

text \<open>A time too far in the future: its year does not fit an \<^verbatim>\<open>int\<close>.\<close>

lemma gmtime_r_far:
  assumes "366 * 2 ^ 32 * 86400 \<le> t"
  shows "gmtime_r t = None"
proof -
  obtain y r where y: "split_year 1970 (t div 86400) = (y, r)" by force
  have t: "366 * 2 ^ 32 \<le> t div 86400" using assms by (simp add: zdiv_mono1 [of "366 * 2 ^ 32 * 86400" t 86400, simplified])
  have s: "1970 \<le> y" "r < year_days y" "t div 86400 = (\<Sum>i = 1970..<y. year_days i) + r"
    using split_year_sum [OF y] t by auto
  have "(\<Sum>i = 1970..<y. year_days i) \<le> of_nat (card {1970..<y}) * 366"
    by (rule sum_bounded_above) (simp add: year_days_def)
  then have "366 * 2 ^ 32 < (y - 1970) * 366 + 366"
    using s t year_days_def [of y] by (simp split: if_splits)
  then have "2 ^ 31 \<le> y - 1900" by simp
  moreover have "tm_year (gmtime t) = y - 1900"
    by (simp add: gmtime_def y Let_def split: prod.splits)
  ultimately show ?thesis by (simp add: gmtime_r_def Let_def)
qed

end
