(* ===== verification/Rds_Groups.thy ===== *)
theory Rds_Groups
  imports Rds_State Rds_Modulation Rds_Clock
begin

text \<open>
  Group generation (\<^verbatim>\<open>rds_encoder.c\<close>, \<^verbatim>\<open>rds_generate_group_0\<close> to \<^verbatim>\<open>rds_generate_group\<close>). The
  encoder's data is the shared state together with the static variables of the functions, one
  record \<open>rds_sys\<close>. A generator takes the encoder and a group and returns the C result, the
  encoder and the group after the call. \<open>rds_generate_group\<close> is \<open>None\<close> where the modulation
  would write past the sample buffer.

  Reading past the end of an array is not represented in the generators; \<open>rds_state_wf\<close> is the
  invariant under which every index is in range.
\<close>

subsection \<open>The encoder's data\<close>

record rds_sys =
  sys_st :: rds_encoder_state
  sys_vcode :: int
  sys_window :: uint8
  sys_sec :: "8 word"
  sys_min :: uint16
  sys_ptyn_cnt :: uint8

definition rds_sys_init :: rds_sys where
  "rds_sys_init =
     \<lparr>sys_st = rds_state_zero, sys_vcode = 0, sys_window = 0, sys_sec = 0, sys_min = 0,
      sys_ptyn_cnt = 0\<rparr>"

text \<open>The clock: the time of the call and the offset of the local time zone.\<close>

record clock =
  now :: int
  utc_offset :: "int \<Rightarrow> int"

subsection \<open>Blocks\<close>

abbreviation set_info :: "nat \<Rightarrow> uint16 \<Rightarrow> rds_group \<Rightarrow> rds_group" where
  "set_info i w g \<equiv> g\<lparr>blocks := (blocks g)[i := (blocks g ! i)\<lparr>infoword := w\<rparr>]\<rparr>"

abbreviation or_info :: "nat \<Rightarrow> uint16 \<Rightarrow> rds_group \<Rightarrow> rds_group" where
  "or_info i w g \<equiv> set_info i (infoword (blocks g ! i) OR w) g"

text \<open>Two characters in an information word: \<^verbatim>\<open>a << 8 | b\<close> of promoted \<^verbatim>\<open>char\<close>s.\<close>

definition pack2 :: "char_abi \<Rightarrow> byte \<Rightarrow> byte \<Rightarrow> uint16" where
  "pack2 abi a b = ucast (push_bit 8 (char_promote abi a) OR char_promote abi b)"

definition RDS_GROUP_VERSION_A :: uint8 where "RDS_GROUP_VERSION_A = 0"
definition RDS_GROUP_VERSION_B :: uint8 where "RDS_GROUP_VERSION_B = 1"

subsection \<open>The generators\<close>

text \<open>The end of block 2 of groups 0A, 0B and 15B, and the step of the PS index.\<close>

definition tuning_info :: "rds_encoder_state \<Rightarrow> uint16" where
  "tuning_info st =
     ucast (st_ps_idx st) OR
     push_bit 2 (drop_bit (3 - unat (st_ps_idx st)) (ucast (st_di st)) AND 1) OR
     push_bit 3 (ucast (st_ms st) AND 1) OR push_bit 4 (ucast (st_ta st) AND 1)"

definition next_ps_idx :: "rds_encoder_state \<Rightarrow> rds_encoder_state" where
  "next_ps_idx st =
     (if st_ps_idx st \<ge> 3 then st\<lparr>st_ps_idx := 0\<rparr> else st\<lparr>st_ps_idx := st_ps_idx st + 1\<rparr>)"

definition rds_generate_group_0 ::
  "char_abi \<Rightarrow> uint8 \<Rightarrow> rds_sys \<Rightarrow> rds_group \<Rightarrow> int \<times> rds_sys \<times> rds_group" where
  "rds_generate_group_0 abi version sys grp =
     (let st = sys_st sys;
          temp_infoword = tuning_info st;
          grp = or_info 1 temp_infoword grp;
          (st, grp) =
            (if version = RDS_GROUP_VERSION_A then
               let grp = set_info 2 (push_bit 8 (ucast (st_af_data st ! unat (st_af_idx st))) OR
                                       ucast (st_af_data st ! (unat (st_af_idx st) + 1))) grp;
                   st = (if st_af_idx st \<ge> 10 then st\<lparr>st_af_idx := 0\<rparr>
                         else st\<lparr>st_af_idx := st_af_idx st + 2\<rparr>)
               in (st, set_info 2 temp_infoword grp)
             else (st, grp));
          grp = set_info 3 (pack2 abi (st_ps st ! (2 * unat (st_ps_idx st)))
                                        (st_ps st ! (2 * unat (st_ps_idx st) + 1))) grp
      in (0, sys\<lparr>sys_st := next_ps_idx st\<rparr>, grp))"

definition rds_generate_group_1 ::
  "uint8 \<Rightarrow> rds_sys \<Rightarrow> rds_group \<Rightarrow> int \<times> rds_sys \<times> rds_group" where
  "rds_generate_group_1 version sys grp =
     (if version \<noteq> RDS_GROUP_VERSION_A then (- 1, sys, grp)
      else
        let st = sys_st sys;
            vcode = (if sys_vcode sys = 0 then 3 else 0)
        in (0, sys\<lparr>sys_vcode := vcode\<rparr>,
            set_info 2 ((if vcode = 0 then ucast (st_ecc st) AND 0xFF else ucast (st_lic st) AND 0xFFF)
                        OR push_bit 12 (of_int vcode)) grp))"

definition rds_generate_group_2 ::
  "char_abi \<Rightarrow> uint8 \<Rightarrow> rds_sys \<Rightarrow> rds_group \<Rightarrow> int \<times> rds_sys \<times> rds_group" where
  "rds_generate_group_2 abi version sys grp =
     (let st = sys_st sys;
          temp_infoword = (ucast (st_rt_idx st) AND 0xF) OR push_bit 4 (ucast (st_rt_flush st) AND 1);
          grp = or_info 1 temp_infoword grp
      in if version \<noteq> RDS_GROUP_VERSION_A then (- 1, sys, grp)
         else
           let i = 4 * unat (st_rt_idx st);
               grp = set_info 2 (pack2 abi (st_rt st ! i) (st_rt st ! (i + 1))) grp;
               grp = set_info 3 (pack2 abi (st_rt st ! (i + 2)) (st_rt st ! (i + 3))) grp;
               st = st\<lparr>st_rt_idx := st_rt_idx st + 1\<rparr>;
               st = (if st_rt_idx st \<ge> st_rt_segments st then st\<lparr>st_rt_idx := 0\<rparr> else st)
           in (0, sys\<lparr>sys_st := st\<rparr>, grp))"

definition rds_generate_group_4 ::
  "clock \<Rightarrow> uint8 \<Rightarrow> rds_sys \<Rightarrow> rds_group \<Rightarrow> int \<times> rds_sys \<times> rds_group" where
  "rds_generate_group_4 clk version sys grp =
     (if version \<noteq> RDS_GROUP_VERSION_A then (- 1, sys, grp)
      else
        case gmtime_r (now clk) of
          None \<Rightarrow> (- 2, sys, grp)
        | Some utc \<Rightarrow>
            (case localtime_r (utc_offset clk) (now clk) of
               None \<Rightarrow> (- 3, sys, grp)
             | Some local_time \<Rightarrow>
                 let hour = tm_hour utc;
                     tz_offset = real_of_int (tm_hour local_time - hour);
                     mjd = group_4_mjd (tm_mday utc) (tm_mon utc + 1) (tm_year utc);
                     grp = or_info 1 (of_int (drop_bit 15 mjd AND 0x3)) grp;
                     grp = set_info 2 (of_int ((push_bit 1 mjd AND 0xFFFE) OR (drop_bit 4 hour AND 0x1))) grp;
                     grp = set_info 3 (of_int (push_bit 12 (hour AND 0xf) OR
                                                 push_bit 6 (tm_min utc AND 0x1f) OR
                                                 push_bit 5 (if tz_offset > 0 then 0 else 1) OR
                                                 (c_trunc \<bar>f64 (2 * tz_offset)\<bar> AND 0x1f))) grp
                 in (0, sys, grp)))"

definition rds_generate_group_10 ::
  "char_abi \<Rightarrow> uint8 \<Rightarrow> rds_sys \<Rightarrow> rds_group \<Rightarrow> int \<times> rds_sys \<times> rds_group" where
  "rds_generate_group_10 abi version sys grp =
     (if version \<noteq> RDS_GROUP_VERSION_A then (- 1, sys, grp)
      else
        let st = sys_st sys;
            grp = or_info 1 (ucast (st_ptyn_idx st) OR push_bit 4 (ucast (st_ptyn_flush st))) grp;
            i = 4 * unat (st_ptyn_idx st);
            grp = set_info 2 (pack2 abi (st_ptyn st ! i) (st_ptyn st ! (i + 1))) grp;
            grp = set_info 3 (pack2 abi (st_ptyn st ! (i + 2)) (st_ptyn st ! (i + 3))) grp;
            st = st\<lparr>st_ptyn_idx := (if st_ptyn_idx st = 1 then 0 else 1)\<rparr>
        in (0, sys\<lparr>sys_st := st\<rparr>, grp))"

definition rds_generate_group_15 ::
  "uint8 \<Rightarrow> rds_sys \<Rightarrow> rds_group \<Rightarrow> int \<times> rds_sys \<times> rds_group" where
  "rds_generate_group_15 version sys grp =
     (let st = sys_st sys;
          grp = or_info 1 (tuning_info st) grp
      in if version \<noteq> RDS_GROUP_VERSION_B then (- 1, sys, grp)
         else (0, sys\<lparr>sys_st := next_ps_idx st\<rparr>, set_info 3 (infoword (blocks grp ! 1)) grp))"

subsection \<open>The wrapper\<close>

definition group_zero :: rds_group where
  "group_zero =
     \<lparr>grp_code = 0, grp_version = 0,
      blocks = replicate 4 \<lparr>infoword = 0, offset_word = 0, checkword = 0\<rparr>,
      last_sample_idx = 0, samples_buffer = replicate RDS_GROUP_SAMPLES 0\<rparr>"

text \<open>Offset words, block 1 and the common part of block 2 (lines 505 to 530).\<close>

definition group_header :: "rds_encoder_state \<Rightarrow> uint8 \<Rightarrow> uint8 \<Rightarrow> rds_group" where
  "group_header st code version =
     (let grp = group_zero\<lparr>blocks :=
            map2 (\<lambda>b d. b\<lparr>offset_word := ucast d\<rparr>) (blocks group_zero) (take 4 offset_words)\<rparr>;
          grp = set_info 0 (st_pi st) grp;
          grp = set_info 1 (push_bit 12 (ucast code AND 0xF) OR push_bit 11 (ucast version AND 1) OR
                              push_bit 10 (ucast (st_tp st) AND 1) OR
                              push_bit 5 (ucast (st_pty st) AND 0x1f)) grp
      in if version = RDS_GROUP_VERSION_B then
           grp\<lparr>blocks := (blocks grp)[2 := (blocks grp ! 2)
             \<lparr>infoword := st_pi st, offset_word := ucast (offset_words ! RDS_ALT_OFFSET_WORD_C_IDX)\<rparr>]\<rparr>
         else grp)"

text \<open>The \<^verbatim>\<open>switch\<close>.\<close>

definition fill_group ::
  "char_abi \<Rightarrow> clock \<Rightarrow> uint8 \<Rightarrow> uint8 \<Rightarrow> rds_sys \<Rightarrow> rds_group \<Rightarrow> int \<times> rds_sys \<times> rds_group" where
  "fill_group abi clk code version sys grp =
     (if code = 0 then rds_generate_group_0 abi version sys grp
      else if code = 1 then rds_generate_group_1 version sys grp
      else if code = 2 then rds_generate_group_2 abi version sys grp
      else if code = 4 then rds_generate_group_4 clk version sys grp
      else if code = 10 then rds_generate_group_10 abi version sys grp
      else if code = 15 then rds_generate_group_15 version sys grp
      else (- 1, sys, grp))"

definition rds_generate_group ::
  "char_abi \<Rightarrow> clock \<Rightarrow> uint8 \<Rightarrow> uint8 \<Rightarrow> rds_sys \<Rightarrow> rds_group \<Rightarrow> (int \<times> rds_sys \<times> rds_group) option" where
  "rds_generate_group abi clk code version sys grp =
     (if version > RDS_GROUP_VERSION_B then Some (- 1, sys, grp)
      else
        case fill_group abi clk code version sys (group_header (sys_st sys) code version) of
          (ret, sys, grp) \<Rightarrow>
            if ret < 0 then Some (ret, sys, grp)
            else
              (case rds_generate_group_samples (sys_window sys) grp of
                 None \<Rightarrow> None
               | Some (mw, grp) \<Rightarrow> Some (0, sys\<lparr>sys_window := mw\<rparr>, grp)))"

subsection \<open>The blocks a generator produces\<close>

definition mk_block :: "uint16 \<Rightarrow> 10 word \<Rightarrow> rds_block" where
  "mk_block w d = \<lparr>infoword = w, offset_word = d, checkword = 0\<rparr>"

lemma mk_block_simps [simp]:
  "infoword (mk_block w d) = w" "offset_word (mk_block w d) = d" "checkword (mk_block w d) = 0"
  "(mk_block w d)\<lparr>infoword := v\<rparr> = mk_block v d"
  by (simp_all add: mk_block_def)

text \<open>A group with given information words, as it is before the modulation.\<close>

definition mk_group :: "uint16 \<Rightarrow> uint16 \<Rightarrow> uint16 \<Rightarrow> 10 word \<Rightarrow> uint16 \<Rightarrow> rds_group" where
  "mk_group a b c d e =
     group_zero\<lparr>blocks := [mk_block a 0x0FC, mk_block b 0x198, mk_block c d, mk_block e 0x1B4]\<rparr>"

lemma blocks_mk_group [simp]:
  "blocks (mk_group a b c d e) = [mk_block a 0x0FC, mk_block b 0x198, mk_block c d, mk_block e 0x1B4]"
  by (simp add: mk_group_def)

lemma update_mk_group [simp]:
  "(mk_group a b c d e)\<lparr>blocks := [mk_block a' 0x0FC, mk_block b' 0x198, mk_block c' d', mk_block e' 0x1B4]\<rparr> =
     mk_group a' b' c' d' e'"
  by (simp add: mk_group_def)

lemma group_shape_mk_group [simp]: "group_shape (mk_group a b c d e)"
  by (simp add: group_shape_def mk_group_def group_zero_def)

definition header_info :: "rds_encoder_state \<Rightarrow> uint8 \<Rightarrow> uint8 \<Rightarrow> uint16" where
  "header_info st code version =
     push_bit 12 (ucast code AND 0xF) OR push_bit 11 (ucast version AND 1) OR
     push_bit 10 (ucast (st_tp st) AND 1) OR push_bit 5 (ucast (st_pty st) AND 0x1f)"

lemma replicate_4: "replicate 4 x = [x, x, x, x]"
  by (simp add: numeral_eq_Suc)

lemma blocks_group_zero: "blocks group_zero = [mk_block 0 0, mk_block 0 0, mk_block 0 0, mk_block 0 0]"
  by (simp add: group_zero_def mk_block_def replicate_4)

lemma group_header_A: "group_header st code 0 = mk_group (st_pi st) (header_info st code 0) 0 0x168 0"
  by (simp add: group_header_def blocks_group_zero mk_block_def mk_group_def header_info_def
      offset_words_def RDS_GROUP_VERSION_B_def Let_def)

lemma group_header_B:
  "group_header st code 1 = mk_group (st_pi st) (header_info st code 1) (st_pi st) 0x350 0"
  by (simp add: group_header_def blocks_group_zero mk_block_def mk_group_def header_info_def
      offset_words_def RDS_GROUP_VERSION_B_def RDS_ALT_OFFSET_WORD_C_IDX_def Let_def)

lemmas [group_defs] =
  RDS_GROUP_VERSION_A_def RDS_GROUP_VERSION_B_def group_header_A group_header_B fill_group_def Let_def

text \<open>The switch, case by case, with the information words of the result.\<close>

definition ps_pair :: "char_abi \<Rightarrow> rds_encoder_state \<Rightarrow> uint16" where
  "ps_pair abi st = pack2 abi (st_ps st ! (2 * unat (st_ps_idx st))) (st_ps st ! (2 * unat (st_ps_idx st) + 1))"

definition next_af_idx :: "rds_encoder_state \<Rightarrow> rds_encoder_state" where
  "next_af_idx st = st\<lparr>st_af_idx := (if st_af_idx st \<ge> 10 then 0 else st_af_idx st + 2)\<rparr>"

lemma fill_group_0A:
  "fill_group abi clk 0 0 sys (group_header (sys_st sys) 0 0) =
     (let st = sys_st sys in
      (0, sys\<lparr>sys_st := next_ps_idx (next_af_idx st)\<rparr>,
       mk_group (st_pi st) (header_info st 0 0 OR tuning_info st) (tuning_info st) 0x168 (ps_pair abi st)))"
  by (simp add: group_defs rds_generate_group_0_def ps_pair_def next_af_idx_def)

lemma fill_group_0B:
  "fill_group abi clk 0 1 sys (group_header (sys_st sys) 0 1) =
     (let st = sys_st sys in
      (0, sys\<lparr>sys_st := next_ps_idx st\<rparr>,
       mk_group (st_pi st) (header_info st 0 1 OR tuning_info st) (st_pi st) 0x350 (ps_pair abi st)))"
  by (simp add: group_defs rds_generate_group_0_def ps_pair_def)

definition label_info :: "int \<Rightarrow> rds_encoder_state \<Rightarrow> uint16" where
  "label_info vcode st =
     (if vcode = 0 then ucast (st_ecc st) else ucast (st_lic st)) OR push_bit 12 (of_int vcode)"

lemma ucast_ecc_mask: "(ucast (x :: uint8) :: uint16) AND 0xFF = ucast x"
  unfolding and_mask_simps by (rule take_bit_ucast) simp

lemma ucast_lic_mask: "(ucast (x :: 12 word) :: uint16) AND 0xFFF = ucast x"
  unfolding and_mask_simps by (rule take_bit_ucast) simp

lemma fill_group_1A:
  "fill_group abi clk 1 0 sys (group_header (sys_st sys) 1 0) =
     (let st = sys_st sys; vcode = (if sys_vcode sys = 0 then 3 else 0) in
      (0, sys\<lparr>sys_vcode := vcode\<rparr>, mk_group (st_pi st) (header_info st 1 0) (label_info vcode st) 0x168 0))"
  by (simp add: group_defs rds_generate_group_1_def label_info_def ucast_ecc_mask ucast_lic_mask)

definition rt_pair :: "char_abi \<Rightarrow> rds_encoder_state \<Rightarrow> nat \<Rightarrow> nat \<Rightarrow> uint16" where
  "rt_pair abi st k l = pack2 abi (st_rt st ! (4 * unat (st_rt_idx st) + k)) (st_rt st ! (4 * unat (st_rt_idx st) + l))"

definition rt_info :: "rds_encoder_state \<Rightarrow> uint16" where
  "rt_info st = (ucast (st_rt_idx st) AND 0xF) OR push_bit 4 (ucast (st_rt_flush st) AND 1)"

definition next_rt_idx :: "rds_encoder_state \<Rightarrow> rds_encoder_state" where
  "next_rt_idx st =
     st\<lparr>st_rt_idx := (if st_rt_idx st + 1 \<ge> st_rt_segments st then 0 else st_rt_idx st + 1)\<rparr>"

lemma fill_group_2A:
  "fill_group abi clk 2 0 sys (group_header (sys_st sys) 2 0) =
     (let st = sys_st sys in
      (0, sys\<lparr>sys_st := next_rt_idx st\<rparr>,
       mk_group (st_pi st) (header_info st 2 0 OR rt_info st) (rt_pair abi st 0 1) 0x168 (rt_pair abi st 2 3)))"
  by (simp add: group_defs rds_generate_group_2_def rt_pair_def next_rt_idx_def rt_info_def)

definition ptyn_pair :: "char_abi \<Rightarrow> rds_encoder_state \<Rightarrow> nat \<Rightarrow> nat \<Rightarrow> uint16" where
  "ptyn_pair abi st k l =
     pack2 abi (st_ptyn st ! (4 * unat (st_ptyn_idx st) + k)) (st_ptyn st ! (4 * unat (st_ptyn_idx st) + l))"

definition ptyn_info :: "rds_encoder_state \<Rightarrow> uint16" where
  "ptyn_info st = ucast (st_ptyn_idx st) OR push_bit 4 (ucast (st_ptyn_flush st))"

definition next_ptyn_idx :: "rds_encoder_state \<Rightarrow> rds_encoder_state" where
  "next_ptyn_idx st = st\<lparr>st_ptyn_idx := (if st_ptyn_idx st = 1 then 0 else 1)\<rparr>"

lemma fill_group_10A:
  "fill_group abi clk 10 0 sys (group_header (sys_st sys) 10 0) =
     (let st = sys_st sys in
      (0, sys\<lparr>sys_st := next_ptyn_idx st\<rparr>,
       mk_group (st_pi st) (header_info st 10 0 OR ptyn_info st) (ptyn_pair abi st 0 1) 0x168 (ptyn_pair abi st 2 3)))"
  by (simp add: group_defs rds_generate_group_10_def ptyn_pair_def next_ptyn_idx_def ptyn_info_def)

lemma fill_group_15B:
  "fill_group abi clk 15 1 sys (group_header (sys_st sys) 15 1) =
     (let st = sys_st sys in
      (0, sys\<lparr>sys_st := next_ps_idx st\<rparr>,
       mk_group (st_pi st) (header_info st 15 1 OR tuning_info st) (st_pi st) 0x350
         (header_info st 15 1 OR tuning_info st)))"
  by (simp add: group_defs rds_generate_group_15_def)

definition ct_date :: "int \<Rightarrow> int" where
  "ct_date t = group_4_mjd (tm_mday (gmtime t)) (tm_mon (gmtime t) + 1) (tm_year (gmtime t))"

definition ct_block_3 :: "int \<Rightarrow> int \<Rightarrow> uint16" where
  "ct_block_3 mjd hour = of_int ((push_bit 1 mjd AND 0xFFFE) OR (drop_bit 4 hour AND 0x1))"

definition ct_block_4 :: "int \<Rightarrow> int \<Rightarrow> int \<Rightarrow> uint16" where
  "ct_block_4 hour minute tz =
     of_int (push_bit 12 (hour AND 0xf) OR push_bit 6 (minute AND 0x1f) OR
             push_bit 5 (if tz > 0 then 0 else 1) OR (\<bar>2 * tz\<bar> AND 0x1f))"

definition clock_ok :: "clock \<Rightarrow> bool" where
  "clock_ok clk \<longleftrightarrow> gmtime_r (now clk) \<noteq> None \<and> localtime_r (utc_offset clk) (now clk) \<noteq> None"

lemma gmtime_r_cases: "gmtime_r t = Some tm \<Longrightarrow> tm = gmtime t"
  by (simp add: gmtime_r_def Let_def split: if_splits)

lemma gmtime_ranges:
  "0 \<le> tm_hour (gmtime t)" "tm_hour (gmtime t) < 24" "0 \<le> tm_min (gmtime t)" "tm_min (gmtime t) < 60"
proof -
  have s: "0 \<le> t mod 86400" "t mod 86400 < 86400" by simp_all
  have "tm_hour (gmtime t) = t mod 86400 div 3600" "tm_min (gmtime t) = t mod 86400 div 60 mod 60"
    by (simp_all add: gmtime_def Let_def split: prod.splits)
  with s show "0 \<le> tm_hour (gmtime t)" "tm_hour (gmtime t) < 24"
      "0 \<le> tm_min (gmtime t)" "tm_min (gmtime t) < 60"
    by (simp_all add: div_less_iff_less_mult)
qed

lemma trunc_double_tz: "\<bar>k\<bar> < 24 \<Longrightarrow> c_trunc \<bar>f64 (2 * real_of_int k)\<bar> = \<bar>2 * k\<bar>"
proof -
  assume "\<bar>k\<bar> < 24"
  then have "f64 (of_int (2 * k)) = of_int (2 * k)" by (intro f64_of_int) simp
  then have "f64 (2 * real_of_int k) = of_int (2 * k)" by simp
  then have "\<bar>f64 (2 * real_of_int k)\<bar> = of_int \<bar>2 * k\<bar>" by simp
  then show ?thesis by (simp only: c_trunc_def floor_of_int) simp
qed

lemma fill_group_4A:
  assumes "clock_ok clk"
  shows "fill_group abi clk 4 0 sys (group_header (sys_st sys) 4 0) =
     (let st = sys_st sys; t = now clk; hour = tm_hour (gmtime t) in
      (0, sys,
       mk_group (st_pi st) (header_info st 4 0 OR of_int (drop_bit 15 (ct_date t) AND 0x3))
         (ct_block_3 (ct_date t) hour) 0x168
         (ct_block_4 hour (tm_min (gmtime t)) (tm_hour (gmtime (t + utc_offset clk t)) - hour))))"
proof -
  obtain u l where u: "gmtime_r (now clk) = Some u" and l: "localtime_r (utc_offset clk) (now clk) = Some l"
    using assms by (auto simp: clock_ok_def)
  let ?k = "tm_hour l - tm_hour u"
  have u': "u = gmtime (now clk)" and l': "l = gmtime (now clk + utc_offset clk (now clk))"
    using u l by (simp_all add: gmtime_r_cases localtime_r_def)
  have "\<bar>?k\<bar> < 24"
    using gmtime_ranges [of "now clk"] gmtime_ranges [of "now clk + utc_offset clk (now clk)"]
    unfolding u' l' by linarith
  from trunc_double_tz [OF this] show ?thesis
    by (simp add: group_defs rds_generate_group_4_def u l ct_date_def ct_block_3_def ct_block_4_def flip: u' l')
qed

lemma fill_group_4A_fails:
  "\<not> clock_ok clk \<Longrightarrow>
   \<exists>ret<0. fill_group abi clk 4 0 sys (group_header (sys_st sys) 4 0) =
     (ret, sys, group_header (sys_st sys) 4 0)"
  by (auto simp: group_defs rds_generate_group_4_def clock_ok_def split: option.splits)

subsection \<open>Supported groups\<close>

definition supported :: "clock \<Rightarrow> uint8 \<Rightarrow> uint8 \<Rightarrow> bool" where
  "supported clk code version \<longleftrightarrow>
     (code, version) \<in> {(0, 0), (0, 1), (1, 0), (2, 0), (10, 0), (15, 1)} \<or>
     (code, version) = (4, 0) \<and> clock_ok clk"

text \<open>The information words of a supported group, and the encoder after it.\<close>

definition group_infos :: "char_abi \<Rightarrow> clock \<Rightarrow> uint8 \<Rightarrow> uint8 \<Rightarrow> rds_sys \<Rightarrow> uint16 list" where
  "group_infos abi clk code version sys =
     (let st = sys_st sys; h = header_info st code version; t = now clk; hour = tm_hour (gmtime t) in
      if code = 0 then
        [st_pi st, h OR tuning_info st, if version = 0 then tuning_info st else st_pi st, ps_pair abi st]
      else if code = 1 then [st_pi st, h, label_info (if sys_vcode sys = 0 then 3 else 0) st, 0]
      else if code = 2 then [st_pi st, h OR rt_info st, rt_pair abi st 0 1, rt_pair abi st 2 3]
      else if code = 4 then
        [st_pi st, h OR of_int (drop_bit 15 (ct_date t) AND 0x3),
         ct_block_3 (ct_date t) hour,
         ct_block_4 hour (tm_min (gmtime t)) (tm_hour (gmtime (t + utc_offset clk t)) - hour)]
      else if code = 10 then [st_pi st, h OR ptyn_info st, ptyn_pair abi st 0 1, ptyn_pair abi st 2 3]
      else [st_pi st, h OR tuning_info st, st_pi st, h OR tuning_info st])"

definition group_next :: "uint8 \<Rightarrow> uint8 \<Rightarrow> rds_sys \<Rightarrow> rds_sys" where
  "group_next code version sys =
     (let st = sys_st sys in
      if code = 0 then sys\<lparr>sys_st := next_ps_idx (if version = 0 then next_af_idx st else st)\<rparr>
      else if code = 1 then sys\<lparr>sys_vcode := (if sys_vcode sys = 0 then 3 else 0)\<rparr>
      else if code = 2 then sys\<lparr>sys_st := next_rt_idx st\<rparr>
      else if code = 4 then sys
      else if code = 10 then sys\<lparr>sys_st := next_ptyn_idx st\<rparr>
      else sys\<lparr>sys_st := next_ps_idx st\<rparr>)"

definition infos_group :: "uint8 \<Rightarrow> uint16 list \<Rightarrow> rds_group" where
  "infos_group version ws =
     mk_group (ws ! 0) (ws ! 1) (ws ! 2) (if version = 1 then 0x350 else 0x168) (ws ! 3)"

lemma fill_group_supported:
  assumes "supported clk code version"
  shows "fill_group abi clk code version sys (group_header (sys_st sys) code version) =
     (0, group_next code version sys, infos_group version (group_infos abi clk code version sys))"
  using assms unfolding supported_def
  by (auto simp: fill_group_0A fill_group_0B fill_group_1A fill_group_2A fill_group_10A fill_group_15B
      fill_group_4A group_infos_def group_next_def infos_group_def Let_def)

lemma group_next_window [simp]: "sys_window (group_next code version sys) = sys_window sys"
  by (simp add: group_next_def Let_def)

lemma group_shape_infos [simp]: "group_shape (infos_group version ws)"
  by (simp add: infos_group_def)

lemma version_cases: "(version :: uint8) \<le> 1 \<longleftrightarrow> version = 0 \<or> version = 1"
proof
  assume "version \<le> 1"
  then have "unat version \<le> 1" by (simp add: word_le_nat_alt)
  then have "unat version = unat (0 :: uint8) \<or> unat version = unat (1 :: uint8)" by auto
  then show "version = 0 \<or> version = 1" by (simp only: word_unat_eq_iff)
qed auto

lemma generators_refuse:
  "version \<noteq> 0 \<Longrightarrow> fst (rds_generate_group_1 version sys g) = - 1"
  "version \<noteq> 0 \<Longrightarrow> fst (rds_generate_group_2 abi version sys g) = - 1"
  "version \<noteq> 0 \<Longrightarrow> fst (rds_generate_group_4 clk version sys g) = - 1"
  "version \<noteq> 0 \<Longrightarrow> fst (rds_generate_group_10 abi version sys g) = - 1"
  "version \<noteq> 1 \<Longrightarrow> fst (rds_generate_group_15 version sys g) = - 1"
  by (simp_all add: rds_generate_group_1_def rds_generate_group_2_def rds_generate_group_4_def
      rds_generate_group_10_def rds_generate_group_15_def RDS_GROUP_VERSION_A_def
      RDS_GROUP_VERSION_B_def Let_def)

lemma rds_generate_group_4_refuse: "\<not> clock_ok clk \<Longrightarrow> fst (rds_generate_group_4 clk version sys g) < 0"
  by (auto simp: rds_generate_group_4_def clock_ok_def split: option.splits)

lemma fill_group_unsupported:
  assumes "\<not> supported clk code version" "version \<le> 1"
  shows "fst (fill_group abi clk code version sys g) < 0"
proof -
  have v: "version = 0 \<or> version = 1" using assms(2) by (simp add: version_cases)
  show ?thesis
    using assms(1) v rds_generate_group_4_refuse [of clk version sys g]
    by (auto simp: supported_def fill_group_def generators_refuse)
qed

subsection \<open>The result of \<open>rds_generate_group\<close>\<close>

definition sent_group :: "uint8 \<Rightarrow> uint8 \<Rightarrow> uint16 list \<Rightarrow> rds_group" where
  "sent_group mw version ws =
     (let g = infos_group version ws
      in g\<lparr>blocks := map (\<lambda>b. snd (rds_generate_block b)) (blocks g),
           samples_buffer := modulate mw (group_bits g)\<rparr>)"

definition window_after :: "uint8 \<Rightarrow> uint8 \<Rightarrow> uint16 list \<Rightarrow> uint8" where
  "window_after mw version ws = foldl window_step mw (group_bits (infos_group version ws))"

lemma supported_version: "supported clk code version \<Longrightarrow> \<not> version > 1"
  by (auto simp: supported_def)

lemma rds_generate_group_supported:
  assumes "supported clk code version"
  shows "rds_generate_group abi clk code version sys g =
     (let ws = group_infos abi clk code version sys in
      Some (0, (group_next code version sys)\<lparr>sys_window := window_after (sys_window sys) version ws\<rparr>,
            sent_group (sys_window sys) version ws))"
  using supported_version [OF assms]
  by (simp add: rds_generate_group_def RDS_GROUP_VERSION_B_def fill_group_supported [OF assms]
      rds_generate_group_samples_eq sent_group_def window_after_def Let_def)

lemma rds_generate_group_unsupported:
  assumes "\<not> supported clk code version"
  shows "\<exists>ret sys' g'. rds_generate_group abi clk code version sys g = Some (ret, sys', g') \<and> ret < 0"
proof (cases "version > 1")
  case False
  then have "fst (fill_group abi clk code version sys (group_header (sys_st sys) code version)) < 0"
    using assms by (simp add: fill_group_unsupported)
  with False show ?thesis
    by (auto simp: rds_generate_group_def RDS_GROUP_VERSION_B_def split: prod.splits)
qed (simp add: rds_generate_group_def RDS_GROUP_VERSION_B_def)

lemma length_group_infos [simp]: "length (group_infos abi clk code version sys) = 4"
  by (simp add: group_infos_def Let_def)

lemma infos_sent_group [simp]:
  "length ws = 4 \<Longrightarrow> map infoword (blocks (sent_group mw version ws)) = ws"
  by (auto simp: sent_group_def infos_group_def Let_def rds_generate_block_eq numeral_eq_Suc
      length_Suc_conv)

lemma group_shape_sent [simp]: "group_shape (sent_group mw version ws)"
  using length_group_bits [OF group_shape_infos [of version ws]]
  by (simp add: sent_group_def group_shape_def infos_group_def Let_def)

lemma samples_sent_group [simp]:
  "samples_buffer (sent_group mw version ws) = modulate mw (group_bits (infos_group version ws))"
  by (simp add: sent_group_def Let_def)

subsection \<open>The state invariant\<close>

lemma next_ps_idx_wf: "rds_state_wf abi st \<Longrightarrow> rds_state_wf abi (next_ps_idx st)"
  by (simp add: next_ps_idx_def rds_state_wf_def)

lemma next_ptyn_idx_wf: "rds_state_wf abi st \<Longrightarrow> rds_state_wf abi (next_ptyn_idx st)"
  by (simp add: next_ptyn_idx_def rds_state_wf_def)

lemma next_af_idx_wf:
  assumes "rds_state_wf abi st"
  shows "rds_state_wf abi (next_af_idx st)"
proof (cases "st_af_idx st \<ge> 10")
  case False
  then have "unat (st_af_idx st) < 10" by (simp add: word_less_nat_alt not_le)
  moreover from this have "unat (st_af_idx st + 2) = unat (st_af_idx st) + 2"
    using unat_add_of_nat [of "st_af_idx st" 2] by simp
  moreover have "even (unat (st_af_idx st))" using assms by (simp add: rds_state_wf_def)
  ultimately have "unat (st_af_idx st + 2) \<le> 10 \<and> even (unat (st_af_idx st + 2))"
    by (auto elim!: evenE)
  with assms False show ?thesis by (simp add: rds_state_wf_def next_af_idx_def)
qed (use assms in \<open>simp add: rds_state_wf_def next_af_idx_def\<close>)

lemma next_rt_idx_wf: "rds_state_wf abi st \<Longrightarrow> rds_state_wf abi (next_rt_idx st)"
  by (auto simp: rds_state_wf_def next_rt_idx_def word_less_nat_alt not_le)

lemma group_next_wf:
  "rds_state_wf abi (sys_st sys) \<Longrightarrow> rds_state_wf abi (sys_st (group_next code version sys))"
  by (auto simp: group_next_def Let_def next_ps_idx_wf next_ptyn_idx_wf next_af_idx_wf next_rt_idx_wf)

text \<open>Every index the generators use is inside its array.\<close>

definition indices_ok :: "rds_encoder_state \<Rightarrow> bool" where
  "indices_ok st \<longleftrightarrow>
     2 * unat (st_ps_idx st) + 1 < length (st_ps st) \<and>
     4 * unat (st_rt_idx st) + 3 < length (st_rt st) \<and>
     4 * unat (st_ptyn_idx st) + 3 < length (st_ptyn st) \<and>
     unat (st_af_idx st) + 1 < length (st_af_data st)"

lemma indices_ok_wf: "rds_state_wf abi st \<Longrightarrow> indices_ok st"
  using unsigned_less [of "st_ps_idx st", where ?'a = nat] unsigned_less [of "st_rt_idx st", where ?'a = nat]
    unsigned_less [of "st_ptyn_idx st", where ?'a = nat]
  by (simp add: rds_state_wf_def indices_ok_def)

subsection \<open>Properties\<close>



end
