(* ===== verification/Rds_Receiver.thy ===== *)
theory Rds_Receiver
  imports Rds_Groups
begin

text \<open>
  A receiver as the reference for group generation: what a decoder of the RDS standard keeps from
  the information words of a group. The texts are sent in segments that the encoder cycles
  through; the locale \<open>carousel\<close> states what such a cycle promises, and its interpretations for
  the programme service name, the radio text, the programme type name and the slow labels show
  that a receiver has a complete field after enough groups of its kind, whatever other groups are
  interleaved with them.
\<close>

subsection \<open>The receiver\<close>

record rds_rx =
  rx_pi :: uint16
  rx_tp :: bool
  rx_pty :: "5 word"
  rx_ta :: bool
  rx_ms :: bool
  rx_di :: "4 word"
  rx_ps :: "byte list"
  rx_rt :: "byte list"
  rx_rt_ab :: bool
  rx_ptyn :: "byte list"
  rx_ptyn_ab :: bool
  rx_ecc :: uint8
  rx_lic :: "12 word"
  rx_ct :: "(int \<times> int \<times> int) option"

definition hi_char :: "uint16 \<Rightarrow> byte" where
  "hi_char w = ucast (drop_bit 8 w)"

definition lo_char :: "uint16 \<Rightarrow> byte" where
  "lo_char w = ucast w"

definition put2 :: "nat \<Rightarrow> uint16 \<Rightarrow> byte list \<Rightarrow> byte list" where
  "put2 i w xs = xs[i := hi_char w, Suc i := lo_char w]"

definition blk2_code :: "uint16 \<Rightarrow> nat" where
  "blk2_code b = unat (drop_bit 12 b)"

definition blk2_pty :: "uint16 \<Rightarrow> 5 word" where
  "blk2_pty b = ucast (drop_bit 5 b)"

definition rx_tuning :: "uint16 \<Rightarrow> rds_rx \<Rightarrow> rds_rx" where
  "rx_tuning b rx =
     (let i = 3 - unat (b AND 3) in
      rx\<lparr>rx_ta := bit b 4, rx_ms := bit b 3,
         rx_di := (if bit b 2 then set_bit i (rx_di rx) else unset_bit i (rx_di rx))\<rparr>)"

text \<open>A change of the A/B flag clears a text before its first segment is stored.\<close>

definition rx_step :: "uint16 list \<Rightarrow> rds_rx \<Rightarrow> rds_rx" where
  "rx_step ws rx =
     (let b = ws ! 1; c = ws ! 2; d = ws ! 3;
          code = blk2_code b; version_b = bit b 11;
          rx = rx\<lparr>rx_pi := ws ! 0, rx_tp := bit b 10, rx_pty := blk2_pty b\<rparr>
      in
      if code = 0 then
        (rx_tuning b rx)\<lparr>rx_ps := put2 (2 * unat (b AND 3)) d (rx_ps rx)\<rparr>
      else if code = 15 \<and> version_b then rx_tuning b rx
      else if code = 2 \<and> \<not> version_b then
        let i = 4 * unat (b AND 0xF);
            text = (if bit b 4 = rx_rt_ab rx then rx_rt rx else replicate 64 0)
        in rx\<lparr>rx_rt := put2 (i + 2) d (put2 i c text), rx_rt_ab := bit b 4\<rparr>
      else if code = 10 \<and> \<not> version_b then
        let i = 4 * unat (b AND 1);
            text = (if bit b 4 = rx_ptyn_ab rx then rx_ptyn rx else replicate 8 0)
        in rx\<lparr>rx_ptyn := put2 (i + 2) d (put2 i c text), rx_ptyn_ab := bit b 4\<rparr>
      else if code = 1 \<and> \<not> version_b then
        (if unat (drop_bit 12 c) = 0 then rx\<lparr>rx_ecc := ucast c\<rparr>
         else if unat (drop_bit 12 c) = 3 then rx\<lparr>rx_lic := ucast c\<rparr> else rx)
      else if code = 4 \<and> \<not> version_b then
        rx\<lparr>rx_ct := Some (uint (b AND 3) * 2 ^ 15 + uint (drop_bit 1 c),
                          uint (c AND 1) * 16 + uint (drop_bit 12 d), uint (drop_bit 6 d AND 0x3F))\<rparr>
      else rx)"

subsection \<open>Characters and fields\<close>

lemma bit_char_promote:
  "bit (char_promote abi c) k \<longleftrightarrow>
     (if k < 8 then bit c k else k < 32 \<and> abi = Signed_Char \<and> bit c 7)"
proof (cases "k = 7")
  case False
  then show ?thesis
    by (cases abi) (auto simp: char_promote_def bit_simps min_def dest: bit_imp_le_length)
qed (cases abi; simp add: char_promote_def bit_simps)

lemma char_ok_bit_7: "char_ok Signed_Char c \<Longrightarrow> \<not> bit c 7"
  by (auto simp: char_ok_def char_int_def not_less bit_last_iff [of c, simplified])

lemma bit_pack2:
  assumes "char_ok abi b"
  shows "bit (pack2 abi a b) k \<longleftrightarrow> k < 16 \<and> (if k < 8 then bit b k else bit a (k - 8))"
  using assms char_ok_bit_7 [of b]
  by (auto simp: pack2_def bit_simps bit_char_promote)

lemma hi_char_pack2: "char_ok abi b \<Longrightarrow> hi_char (pack2 abi a b) = a"
  by (rule bit_word_eqI) (auto simp: hi_char_def bit_simps bit_pack2)

lemma lo_char_pack2: "char_ok abi b \<Longrightarrow> lo_char (pack2 abi a b) = b"
  by (rule bit_word_eqI) (auto simp: lo_char_def bit_simps bit_pack2)

lemma put2_pack2: "char_ok abi b \<Longrightarrow> put2 i (pack2 abi a b) xs = xs[i := a, Suc i := b]"
  by (simp add: put2_def hi_char_pack2 lo_char_pack2)

text \<open>The second block: type, version, TP and PTY above the five bits of the group type.\<close>

lemma even_iff_bit: "even (w :: 'a::len word) \<longleftrightarrow> \<not> bit w 0"
  by (simp add: bit_0)

lemma even_ucast: "even (ucast (w :: 'a::len word) :: 'b::len word) \<longleftrightarrow> \<not> bit w 0"
  by (simp add: even_iff_bit bit_simps)

lemma bit_one_word: "0 < k \<Longrightarrow> \<not> bit (w :: 1 word) k"
  by (auto dest: bit_imp_le_length)

lemma bit_header_info:
  "bit (header_info st code version) k \<longleftrightarrow>
     (if 12 \<le> k then k < 16 \<and> bit code (k - 12)
      else if k = 11 then bit version 0 else if k = 10 then bit (st_tp st) 0
      else 5 \<le> k \<and> bit (st_pty st) (k - 5))"
  unfolding header_info_def
  by (auto simp: bit_simps bit_1_iff and_mask_simps even_ucast dest: bit_imp_le_length)

lemma bit_tuning_info:
  "bit (tuning_info st) k \<longleftrightarrow>
     (if k < 2 then bit (st_ps_idx st) k else if k = 2 then bit (st_di st) (3 - unat (st_ps_idx st))
      else if k = 3 then bit (st_ms st) 0 else k = 4 \<and> bit (st_ta st) 0)"
  unfolding tuning_info_def
  by (auto simp: bit_simps even_ucast and_mask_simps bit_iff_odd_drop_bit [symmetric]
      dest: bit_imp_le_length)

lemma bit_rt_info:
  "bit (rt_info st) k \<longleftrightarrow> (if k < 4 then bit (st_rt_idx st) k else k = 4 \<and> bit (st_rt_flush st) 0)"
  unfolding rt_info_def
  by (auto simp: bit_simps even_ucast and_mask_simps dest: bit_imp_le_length)

lemma bit_ptyn_info:
  "bit (ptyn_info st) k \<longleftrightarrow> (if k < 1 then bit (st_ptyn_idx st) k else k = 4 \<and> bit (st_ptyn_flush st) 0)"
proof (cases "k = 4")
  case False
  then have "k < 4 \<or> 0 < k - 4" by linarith
  then show ?thesis unfolding ptyn_info_def by (auto simp: bit_simps bit_one_word)
qed (simp add: ptyn_info_def bit_simps bit_one_word)

text \<open>A word for the lower five bits of block 2.\<close>

definition low5 :: "uint16 \<Rightarrow> bool" where
  "low5 w \<longleftrightarrow> (\<forall>k\<ge>5. \<not> bit w k)"

lemma low5_infos: "low5 (tuning_info st)" "low5 (rt_info st)" "low5 (ptyn_info st)" "low5 0"
  by (auto simp: low5_def bit_tuning_info bit_rt_info bit_ptyn_info)

lemma header_fields:
  assumes "low5 w"
  shows "drop_bit 12 (header_info st code version OR w) = ucast (code AND 0xF)"
    and "bit (header_info st code version OR w) 11 = bit version 0"
    and "bit (header_info st code version OR w) 10 = bit (st_tp st) 0"
    and "blk2_pty (header_info st code version OR w) = st_pty st"
    and "k < 5 \<Longrightarrow> bit (header_info st code version OR w) k = bit w k"
proof -
  have nb: "\<not> bit w k" if "5 \<le> k" for k using assms that by (simp add: low5_def)
  show "drop_bit 12 (header_info st code version OR w) = ucast (code AND 0xF)"
    by (rule bit_word_eqI) (auto simp: bit_simps bit_header_info nb and_mask_simps)
  show "blk2_pty (header_info st code version OR w) = st_pty st"
    unfolding blk2_pty_def
    by (rule bit_word_eqI) (auto simp: bit_simps bit_header_info nb)
qed (use assms in \<open>auto simp: bit_or_iff bit_header_info low5_def\<close>)

lemma index_fields:
  "(header_info st code version OR tuning_info st) AND 3 = ucast (st_ps_idx st)"
  "(header_info st code version OR rt_info st) AND 0xF = ucast (st_rt_idx st)"
  unfolding and_mask_simps
  by (rule bit_word_eqI;
      auto simp: bit_simps bit_header_info bit_tuning_info bit_rt_info dest: bit_imp_le_length)+

lemma ptyn_index_field:
  "(header_info st code version OR ptyn_info st) AND 1 = ucast (st_ptyn_idx st)"
proof (rule bit_word_eqI)
  fix k
  assume "k < LENGTH(16)"
  show "bit ((header_info st code version OR ptyn_info st) AND 1) k = bit (ucast (st_ptyn_idx st) :: uint16) k"
    by (cases "k = 0") (auto simp: bit_simps bit_header_info bit_ptyn_info even_iff_bit bit_one_word)
qed

subsection \<open>Encoder and receiver together\<close>

text \<open>
  One group from the encoder to the receiver. An event is a group that the scheduler asks for,
  with the clock at that moment.
\<close>

type_synonym group_event = "clock \<times> uint8 \<times> uint8"
type_synonym link = "rds_sys \<times> rds_rx"

definition event_ok :: "group_event \<Rightarrow> bool" where
  "event_ok e = (case e of (clk, code, version) \<Rightarrow> supported clk code version)"

definition event_code :: "group_event \<Rightarrow> uint8" where
  "event_code e = fst (snd e)"

definition transmit :: "char_abi \<Rightarrow> link \<Rightarrow> group_event \<Rightarrow> link" where
  "transmit abi s e =
     (case (s, e) of ((sys, rx), (clk, code, version)) \<Rightarrow>
        (case rds_generate_group abi clk code version sys group_zero of
           None \<Rightarrow> (sys, rx)
         | Some (ret, sys', g) \<Rightarrow> (sys', if ret < 0 then rx else rx_step (map infoword (blocks g)) rx)))"

definition link_ok :: "char_abi \<Rightarrow> link \<Rightarrow> bool" where
  "link_ok abi s \<longleftrightarrow>
     rds_state_wf abi (sys_st (fst s)) \<and> length (rx_ps (snd s)) = 8 \<and> length (rx_rt (snd s)) = 64 \<and>
     length (rx_ptyn (snd s)) = 8"

lemma event_cases:
  assumes "event_ok (clk, code, version)"
  obtains "code = 0" "version = 0" | "code = 0" "version = 1" | "code = 1" "version = 0"
    | "code = 2" "version = 0" | "code = 4" "version = 0" "clock_ok clk" | "code = 10" "version = 0"
    | "code = 15" "version = 1"
  using assms by (auto simp: event_ok_def supported_def)

lemma event_ok_simps [simp]:
  "event_ok (clk, 0, 0)" "event_ok (clk, 0, 1)" "event_ok (clk, 1, 0)" "event_ok (clk, 2, 0)"
  "event_ok (clk, 10, 0)" "event_ok (clk, 15, 1)" "event_ok (clk, 4, 0) = clock_ok clk"
  by (simp_all add: event_ok_def supported_def)

lemma transmit_eq:
  "event_ok (clk, code, version) \<Longrightarrow>
   transmit abi (sys, rx) (clk, code, version) =
     ((group_next code version sys)
        \<lparr>sys_window := window_after (sys_window sys) version (group_infos abi clk code version sys)\<rparr>,
      rx_step (group_infos abi clk code version sys) rx)"
  by (simp add: transmit_def event_ok_def rds_generate_group_supported Let_def)

definition rx_common :: "rds_encoder_state \<Rightarrow> rds_rx \<Rightarrow> rds_rx" where
  "rx_common st rx = rx\<lparr>rx_pi := st_pi st, rx_tp := bit (st_tp st) 0, rx_pty := st_pty st\<rparr>"

lemma unat_code: "unat (ucast ((c :: uint8) AND 0xF) :: uint16) = unat c mod 16"
  using unat_and_mask [of c 4] by (simp add: unat_ucast_up mask_numeral)

lemma header_code: "low5 w \<Longrightarrow> blk2_code (header_info st code version OR w) = unat code mod 16"
  by (simp only: blk2_code_def header_fields unat_code)

lemmas header_simps = header_code header_fields(2-5)
lemmas header_simps_0 = header_simps [of 0, simplified]

definition rx_tuned :: "rds_encoder_state \<Rightarrow> rds_rx \<Rightarrow> rds_rx" where
  "rx_tuned st rx =
     (let i = 3 - unat (st_ps_idx st) in
      rx\<lparr>rx_ta := bit (st_ta st) 0, rx_ms := bit (st_ms st) 0,
         rx_di := (if bit (st_di st) i then set_bit i (rx_di rx) else unset_bit i (rx_di rx))\<rparr>)"

lemma rx_tuning_header: "rx_tuning (header_info st code version OR tuning_info st) rx = rx_tuned st rx"
  by (simp add: rx_tuning_def rx_tuned_def index_fields unat_ucast_up header_simps low5_infos
      bit_tuning_info Let_def)

lemma wf_char_ok:
  assumes "rds_state_wf abi st"
  shows "i < 8 \<Longrightarrow> char_ok abi (st_ps st ! i)" "i < 64 \<Longrightarrow> char_ok abi (st_rt st ! i)"
    "i < 8 \<Longrightarrow> char_ok abi (st_ptyn st ! i)"
  using assms by (auto simp: rds_state_wf_def list_all_length)

definition rx_put2 :: "nat \<Rightarrow> byte list \<Rightarrow> byte list \<Rightarrow> byte list" where
  "rx_put2 i src xs = xs[i := src ! i, Suc i := src ! Suc i]"

lemma rx_step_0:
  assumes "rds_state_wf abi (sys_st sys)" "version = 0 \<or> version = 1"
  shows "rx_step (group_infos abi clk 0 version sys) rx =
    (let st = sys_st sys; i = 2 * unat (st_ps_idx st) in
     (rx_tuned st (rx_common st rx))\<lparr>rx_ps := rx_put2 i (st_ps st) (rx_ps rx)\<rparr>)"
proof -
  have "Suc (2 * unat (st_ps_idx (sys_st sys))) < 8"
    using unsigned_less [of "st_ps_idx (sys_st sys)", where ?'a = nat] by simp
  from wf_char_ok(1) [OF assms(1) this] show ?thesis
    by (simp add: rx_step_def group_infos_def ps_pair_def put2_pack2 header_simps
        low5_infos index_fields unat_ucast_up rx_tuning_header rx_common_def rx_put2_def Let_def)
qed

lemma rx_step_15:
  "rx_step (group_infos abi clk 15 1 sys) rx = (let st = sys_st sys in rx_tuned st (rx_common st rx))"
  by (simp add: rx_step_def group_infos_def header_simps low5_infos
      rx_tuning_header rx_common_def Let_def)

definition rx_put4 :: "nat \<Rightarrow> byte list \<Rightarrow> byte list \<Rightarrow> byte list" where
  "rx_put4 i src xs =
     xs[i := src ! i, i + 1 := src ! (i + 1), i + 2 := src ! (i + 2), i + 3 := src ! (i + 3)]"

lemma rx_step_2:
  assumes "rds_state_wf abi (sys_st sys)"
  shows "rx_step (group_infos abi clk 2 0 sys) rx =
    (let st = sys_st sys; rx = rx_common st rx;
         text = (if bit (st_rt_flush st) 0 = rx_rt_ab rx then rx_rt rx else replicate 64 0)
     in rx\<lparr>rx_rt := rx_put4 (4 * unat (st_rt_idx st)) (st_rt st) text, rx_rt_ab := bit (st_rt_flush st) 0\<rparr>)"
proof -
  let ?i = "4 * unat (st_rt_idx (sys_st sys))"
  have i: "?i + 1 < 64" "?i + 3 < 64"
    using unsigned_less [of "st_rt_idx (sys_st sys)", where ?'a = nat] by simp_all
  have "char_ok abi (st_rt (sys_st sys) ! (?i + 1))" "char_ok abi (st_rt (sys_st sys) ! (?i + 3))"
    using wf_char_ok(2) [OF assms i(1)] wf_char_ok(2) [OF assms i(2)] by simp_all
  then show ?thesis
    by (simp add: rx_step_def group_infos_def rt_pair_def put2_pack2 header_simps
        low5_infos index_fields unat_ucast_up bit_rt_info rx_common_def rx_put4_def Let_def
        numeral_3_eq_3)
qed

lemma rx_step_10:
  assumes "rds_state_wf abi (sys_st sys)"
  shows "rx_step (group_infos abi clk 10 0 sys) rx =
    (let st = sys_st sys; rx = rx_common st rx;
         text = (if bit (st_ptyn_flush st) 0 = rx_ptyn_ab rx then rx_ptyn rx else replicate 8 0)
     in rx\<lparr>rx_ptyn := rx_put4 (4 * unat (st_ptyn_idx st)) (st_ptyn st) text,
           rx_ptyn_ab := bit (st_ptyn_flush st) 0\<rparr>)"
proof -
  let ?i = "4 * unat (st_ptyn_idx (sys_st sys))"
  have i: "?i + 1 < 8" "?i + 3 < 8"
    using unsigned_less [of "st_ptyn_idx (sys_st sys)", where ?'a = nat] by simp_all
  have "char_ok abi (st_ptyn (sys_st sys) ! (?i + 1))" "char_ok abi (st_ptyn (sys_st sys) ! (?i + 3))"
    using wf_char_ok(3) [OF assms i(1)] wf_char_ok(3) [OF assms i(2)] by simp_all
  then show ?thesis
    by (simp add: rx_step_def group_infos_def ptyn_pair_def put2_pack2 header_simps
        low5_infos ptyn_index_field unat_ucast_up bit_ptyn_info rx_common_def rx_put4_def Let_def
        numeral_3_eq_3)
qed

lemma label_info_fields:
  "unat (drop_bit 12 (label_info 0 st)) = 0" "ucast (label_info 0 st) = st_ecc st"
  "unat (drop_bit 12 (label_info 3 st)) = 3" "ucast (label_info 3 st) = st_lic st"
proof -
  have m: "(0x3000 :: uint16) = push_bit 12 (mask 2)" by (simp add: mask_numeral)
  have d0: "drop_bit 12 (label_info 0 st) = 0"
    by (rule bit_word_eqI) (auto simp: label_info_def bit_simps dest: bit_imp_le_length)
  have d3: "drop_bit 12 (label_info 3 st) = mask 2"
    by (rule bit_word_eqI) (auto simp: label_info_def m bit_simps dest: bit_imp_le_length)
  show "unat (drop_bit 12 (label_info 0 st)) = 0" by (simp only: d0) simp
  show "unat (drop_bit 12 (label_info 3 st)) = 3" by (simp only: d3) (simp add: mask_numeral)
  show "ucast (label_info 0 st) = st_ecc st"
    by (rule bit_word_eqI) (auto simp: label_info_def bit_simps)
  show "ucast (label_info 3 st) = st_lic st"
    by (rule bit_word_eqI) (auto simp: label_info_def m bit_simps)
qed

lemma rx_step_1:
  "rx_step (group_infos abi clk 1 0 sys) rx =
    (let st = sys_st sys; rx = rx_common st rx in
     if sys_vcode sys = 0 then rx\<lparr>rx_lic := st_lic st\<rparr> else rx\<lparr>rx_ecc := st_ecc st\<rparr>)"
  by (simp add: rx_step_def group_infos_def header_simps_0 low5_infos label_info_fields
      rx_common_def Let_def)

subsection \<open>Clock time\<close>

lemma uint_of_take_bit: "n \<le> 16 \<Longrightarrow> uint (of_int (take_bit n (x :: int)) :: uint16) = x mod 2 ^ n"
  by (simp add: uint_word_of_int_eq min_def take_bit_take_bit) (simp add: take_bit_eq_mod)

lemma int_masks:
  "(0xFFFE :: int) = push_bit 1 (mask 15)" "(0x1f :: int) = mask 5" "(0xf :: int) = mask 4" "(0x3 :: int) = mask 2"
  by (simp_all add: mask_numeral)

lemma ct_block_3_fields:
  "uint (drop_bit 1 (ct_block_3 m h)) = m mod 2 ^ 15" "uint (ct_block_3 m h AND 1) = h div 16 mod 2"
proof -
  let ?c = "ct_block_3 m h"
  have 1: "bit (push_bit 1 m AND push_bit 1 (mask 15)) k \<longleftrightarrow> 1 \<le> k \<and> k < 16 \<and> bit m (k - 1)" for k
    by (simp only: bit_and_iff bit_push_bit_iff) (auto simp: bit_mask_iff)
  have 2: "bit (drop_bit 4 h AND 0x1) k \<longleftrightarrow> k = 0 \<and> bit h 4" for k
    by (auto simp: bit_simps)
  have b: "bit ?c k \<longleftrightarrow> k < 16 \<and> (if k = 0 then bit h 4 else bit m (k - 1))" for k
    unfolding ct_block_3_def int_masks by (simp only: bit_word_of_int_iff bit_or_iff 1 2) auto
  have "drop_bit 1 ?c = of_int (take_bit 15 m)"
    by (rule bit_word_eqI) (auto simp: bit_simps b)
  then show "uint (drop_bit 1 ?c) = m mod 2 ^ 15" by (simp only: uint_of_take_bit)
  have "?c AND 1 = of_int (take_bit 1 (drop_bit 4 h))"
    unfolding and_mask_simps
    by (rule bit_word_eqI) (auto simp: bit_simps even_iff_bit b bit_iff_odd_drop_bit [symmetric])
  then have "uint (?c AND 1) = drop_bit 4 h mod 2 ^ 1" by (simp only: uint_of_take_bit)
  then show "uint (?c AND 1) = h div 16 mod 2" by (simp add: drop_bit_eq_div)
qed

lemma ct_block_4_fields:
  "uint (drop_bit 12 (ct_block_4 h m z)) = h mod 16"
  "uint (drop_bit 6 (ct_block_4 h m z) AND 0x3F) = m mod 32"
proof -
  have b: "bit (ct_block_4 h m z) k \<longleftrightarrow> k < 16 \<and> (if 12 \<le> k then bit h (k - 12) else k < 11 \<and> bit m (k - 6))"
    if "6 \<le> k" for k
    using that unfolding ct_block_4_def int_masks by (auto simp: bit_simps bit_push_bit_iff)
  have "drop_bit 12 (ct_block_4 h m z) = of_int (take_bit 4 h)"
    by (rule bit_word_eqI) (auto simp: bit_simps b)
  then show "uint (drop_bit 12 (ct_block_4 h m z)) = h mod 16"
    by (simp only: uint_of_take_bit) simp
  have m: "(0x3F :: uint16) = mask 6" by (simp add: mask_numeral)
  have "drop_bit 6 (ct_block_4 h m z) AND 0x3F = of_int (take_bit 5 m)"
    unfolding m by (rule bit_word_eqI) (auto simp: bit_simps b)
  then show "uint (drop_bit 6 (ct_block_4 h m z) AND 0x3F) = m mod 32"
    by (simp only: uint_of_take_bit) simp
qed

lemma low5_ct: "low5 (of_int (drop_bit 15 m AND 0x3))"
  unfolding int_masks by (auto simp: low5_def bit_simps)

lemma ct_block_2_field:
  "uint ((header_info st code version OR of_int (drop_bit 15 m AND 0x3)) AND 3) = m div 2 ^ 15 mod 4"
proof -
  have "(header_info st code version OR of_int (drop_bit 15 m AND 0x3)) AND 3 = of_int (take_bit 2 (drop_bit 15 m))"
    unfolding and_mask_simps int_masks by (rule bit_word_eqI) (auto simp: bit_simps bit_header_info)
  then have "uint ((header_info st code version OR of_int (drop_bit 15 m AND 0x3)) AND 3) = drop_bit 15 m mod 2 ^ 2"
    by (simp only: uint_of_take_bit)
  then show ?thesis by (simp add: drop_bit_eq_div)
qed

lemma split_17: "0 \<le> m \<Longrightarrow> m < 2 ^ 17 \<Longrightarrow> m div 2 ^ 15 mod 4 * 2 ^ 15 + m mod 2 ^ 15 = (m :: int)"
proof -
  assume "0 \<le> m" "m < 2 ^ 17"
  then have "0 \<le> m div 2 ^ 15" "m div 2 ^ 15 < 4" by (simp_all add: div_less_iff_less_mult)
  then have "m div 2 ^ 15 mod 4 = m div 2 ^ 15" by simp
  then show ?thesis by (metis div_mult_mod_eq)
qed

lemma split_hour: "0 \<le> h \<Longrightarrow> h < 24 \<Longrightarrow> h div 16 mod 2 * 16 + h mod 16 = (h :: int)"
proof -
  assume "0 \<le> h" "h < 24"
  then have "0 \<le> h div 16" "h div 16 < 2" by (simp_all add: div_less_iff_less_mult)
  then have "h div 16 mod 2 = h div 16" by simp
  then show ?thesis by simp
qed

lemma rx_step_4:
  assumes "0 \<le> now clk" "now clk < 47482 * 86400"
  shows "rx_step (group_infos abi clk 4 0 sys) rx =
    (rx_common (sys_st sys) rx)\<lparr>rx_ct := Some (40587 + now clk div 86400, tm_hour (gmtime (now clk)),
                                               tm_min (gmtime (now clk)) mod 32)\<rparr>"
proof -
  let ?m = "ct_date (now clk)"
  have m: "?m = 40587 + now clk div 86400"
    unfolding ct_date_def using assms by (rule group_4_mjd_gmtime)
  have "0 \<le> now clk div 86400" "now clk div 86400 < 47482"
    using assms by (simp_all add: div_less_iff_less_mult)
  then have r: "0 \<le> ?m" "?m < 2 ^ 17" unfolding m by simp_all
  show ?thesis
    unfolding m [symmetric]
    using split_17 [OF r] split_hour [OF gmtime_ranges(1,2)]
    by (simp add: rx_step_def group_infos_def header_simps low5_ct ct_block_2_field
        ct_block_3_fields [simplified] ct_block_4_fields rx_common_def Let_def)
qed

subsection \<open>Carousels\<close>

text \<open>
  A cyclic transmission: some of the events send the segment at the current position and advance
  it, the others leave it alone, and a segment once received stays good.
\<close>

lemma cyclic_cover:
  assumes "i < n" "j < (n :: nat)"
  shows "\<exists>m<n. (i + m) mod n = j"
proof (cases "i \<le> j")
  case True
  with assms show ?thesis by (intro exI [of _ "j - i"]) simp
next
  case False
  with assms have "(i + (j + n - i)) mod n = j" by simp
  with assms False show ?thesis by (intro exI [of _ "j + n - i"]) simp
qed

locale carousel =
  fixes step :: "'s \<Rightarrow> 'e \<Rightarrow> 's"
    and ok :: "'e \<Rightarrow> bool"
    and sends :: "'e \<Rightarrow> bool"
    and inv :: "'s \<Rightarrow> bool"
    and position :: "'s \<Rightarrow> nat"
    and segments :: "'s \<Rightarrow> nat"
    and good :: "'s \<Rightarrow> nat \<Rightarrow> bool"
  assumes inv_step: "inv s \<Longrightarrow> ok e \<Longrightarrow> inv (step s e)"
    and position_less: "inv s \<Longrightarrow> position s < segments s"
    and segments_step: "inv s \<Longrightarrow> ok e \<Longrightarrow> segments (step s e) = segments s"
    and position_step: "inv s \<Longrightarrow> ok e \<Longrightarrow>
          position (step s e) = (if sends e then (position s + 1) mod segments s else position s)"
    and good_sent: "inv s \<Longrightarrow> ok e \<Longrightarrow> sends e \<Longrightarrow> good (step s e) (position s)"
    and good_kept: "inv s \<Longrightarrow> ok e \<Longrightarrow> good s i \<Longrightarrow> i < segments s \<Longrightarrow> good (step s e) i"
begin

lemma run_inv: "inv s \<Longrightarrow> list_all ok es \<Longrightarrow> inv (foldl step s es)"
  by (induction es arbitrary: s) (auto simp: inv_step)

lemma run_segments: "inv s \<Longrightarrow> list_all ok es \<Longrightarrow> segments (foldl step s es) = segments s"
  by (induction es arbitrary: s) (auto simp: inv_step segments_step)

lemma run_good:
  "inv s \<Longrightarrow> list_all ok es \<Longrightarrow> good s i \<Longrightarrow> i < segments s \<Longrightarrow> good (foldl step s es) i"
  by (induction es arbitrary: s) (auto simp: inv_step segments_step good_kept)

lemma run_sent:
  assumes "inv s" "list_all ok es" "m < length (filter sends es)"
  shows "good (foldl step s es) ((position s + m) mod segments s)"
  using assms
proof (induction es arbitrary: s m)
  case (Cons e es)
  have pos: "position s < segments s" using Cons.prems by (simp add: position_less)
  have inv: "inv (step s e)" and seg: "segments (step s e) = segments s"
    using Cons.prems by (simp_all add: inv_step segments_step)
  have pstep: "position (step s e) = (if sends e then (position s + 1) mod segments s else position s)"
    using Cons.prems by (simp add: position_step)
  show ?case
  proof (cases "sends e \<and> m = 0")
    case True
    then have "good (step s e) (position s)" using Cons.prems by (simp add: good_sent)
    then show ?thesis
      using True inv seg pos Cons.prems run_good [of "step s e" es "position s"] by simp
  next
    case False
    let ?m = "if sends e then m - 1 else m"
    have "?m < length (filter sends es)" using Cons.prems False by (auto split: if_splits)
    then have "good (foldl step (step s e) es) ((position (step s e) + ?m) mod segments s)"
      using Cons.IH [OF inv] Cons.prems seg by simp
    moreover have "(position (step s e) + ?m) mod segments s = (position s + m) mod segments s"
      using False pstep by (auto simp: mod_simps)
    ultimately show ?thesis by simp
  qed
qed simp

text \<open>As many sent segments as there are segments cover all of them.\<close>

lemma complete:
  assumes "inv s" "list_all ok es" "segments s \<le> length (filter sends es)" "i < segments s"
  shows "good (foldl step s es) i"
proof -
  obtain m where "m < segments s" "(position s + m) mod segments s = i"
    using cyclic_cover [OF position_less [OF assms(1)] assms(4)] by blast
  with run_sent [OF assms(1,2), of m] assms(3) show ?thesis by simp
qed

end

subsection \<open>What a group leaves unchanged\<close>

lemma group_next_frame [frame_simps]:
  "st_ps (sys_st (group_next code version sys)) = st_ps (sys_st sys)"
  "st_rt (sys_st (group_next code version sys)) = st_rt (sys_st sys)"
  "st_ptyn (sys_st (group_next code version sys)) = st_ptyn (sys_st sys)"
  "st_rt_segments (sys_st (group_next code version sys)) = st_rt_segments (sys_st sys)"
  "st_rt_flush (sys_st (group_next code version sys)) = st_rt_flush (sys_st sys)"
  "st_ptyn_flush (sys_st (group_next code version sys)) = st_ptyn_flush (sys_st sys)"
  "st_di (sys_st (group_next code version sys)) = st_di (sys_st sys)"
  "st_ecc (sys_st (group_next code version sys)) = st_ecc (sys_st sys)"
  "st_lic (sys_st (group_next code version sys)) = st_lic (sys_st sys)"
  "st_pi (sys_st (group_next code version sys)) = st_pi (sys_st sys)"
  "st_tp (sys_st (group_next code version sys)) = st_tp (sys_st sys)"
  "st_pty (sys_st (group_next code version sys)) = st_pty (sys_st sys)"
  "st_ta (sys_st (group_next code version sys)) = st_ta (sys_st sys)"
  "st_ms (sys_st (group_next code version sys)) = st_ms (sys_st sys)"
  by (simp_all add: group_next_def next_ps_idx_def next_af_idx_def next_rt_idx_def next_ptyn_idx_def Let_def)

lemma rx_common_frame [frame_simps]:
  "rx_ps (rx_common st rx) = rx_ps rx" "rx_rt (rx_common st rx) = rx_rt rx"
  "rx_rt_ab (rx_common st rx) = rx_rt_ab rx" "rx_ptyn (rx_common st rx) = rx_ptyn rx"
  "rx_ptyn_ab (rx_common st rx) = rx_ptyn_ab rx" "rx_di (rx_common st rx) = rx_di rx"
  "rx_ecc (rx_common st rx) = rx_ecc rx" "rx_lic (rx_common st rx) = rx_lic rx"
  "rx_ta (rx_common st rx) = rx_ta rx" "rx_ms (rx_common st rx) = rx_ms rx"
  by (simp_all add: rx_common_def)

lemma rx_tuned_frame [frame_simps]:
  "rx_ps (rx_tuned st rx) = rx_ps rx" "rx_rt (rx_tuned st rx) = rx_rt rx"
  "rx_rt_ab (rx_tuned st rx) = rx_rt_ab rx" "rx_ptyn (rx_tuned st rx) = rx_ptyn rx"
  "rx_ptyn_ab (rx_tuned st rx) = rx_ptyn_ab rx"
  "rx_ecc (rx_tuned st rx) = rx_ecc rx" "rx_lic (rx_tuned st rx) = rx_lic rx"
  by (simp_all add: rx_tuned_def Let_def)

text \<open>
  The receiver after a group, field by field. The time of a group 4A only enters \<open>rx_ct\<close>.
\<close>

lemma rx_step_4_frame [frame_simps]:
  "rx_ps (rx_step (group_infos abi clk 4 0 sys) rx) = rx_ps rx"
  "rx_rt (rx_step (group_infos abi clk 4 0 sys) rx) = rx_rt rx"
  "rx_rt_ab (rx_step (group_infos abi clk 4 0 sys) rx) = rx_rt_ab rx"
  "rx_ptyn (rx_step (group_infos abi clk 4 0 sys) rx) = rx_ptyn rx"
  "rx_ptyn_ab (rx_step (group_infos abi clk 4 0 sys) rx) = rx_ptyn_ab rx"
  "rx_di (rx_step (group_infos abi clk 4 0 sys) rx) = rx_di rx"
  "rx_ecc (rx_step (group_infos abi clk 4 0 sys) rx) = rx_ecc rx"
  "rx_lic (rx_step (group_infos abi clk 4 0 sys) rx) = rx_lic rx"
  by (simp_all add: rx_step_def group_infos_def header_simps low5_ct Let_def)

lemmas rx_step_simps = rx_step_0 rx_step_1 rx_step_2 rx_step_10 rx_step_15 Let_def

lemma length_put [simp]: "length (rx_put2 i src xs) = length xs" "length (rx_put4 i src xs) = length xs"
  by (simp_all add: rx_put2_def rx_put4_def)

lemma link_ok_transmit:
  assumes "link_ok abi s" "event_ok e"
  shows "link_ok abi (transmit abi s e)"
proof -
  obtain sys rx clk code version where se: "s = (sys, rx)" "e = (clk, code, version)"
    by (cases s; cases e) auto
  have wf: "rds_state_wf abi (sys_st sys)" and len: "length (rx_ps rx) = 8" "length (rx_rt rx) = 64"
    "length (rx_ptyn rx) = 8"
    using assms by (auto simp: link_ok_def se)
  from assms(2) [unfolded se] show ?thesis
    by (cases rule: event_cases)
      (simp_all add: se link_ok_def transmit_eq group_next_wf wf len rx_step_simps frame_simps)
qed

text \<open>The positions of the four cycles.\<close>

lemma next_ps_position:
  "unat (st_ps_idx (next_ps_idx st)) = (unat (st_ps_idx st) + 1) mod 4"
proof (cases "st_ps_idx st \<ge> 3")
  case True
  then have "unat (st_ps_idx st) = 3"
    using unsigned_less [of "st_ps_idx st", where ?'a = nat] by (simp add: word_le_nat_alt)
  with True show ?thesis by (simp add: next_ps_idx_def)
next
  case False
  then have "unat (st_ps_idx st) < 3" by (simp add: word_less_nat_alt not_le)
  with False show ?thesis
    using unat_add_of_nat [of "st_ps_idx st" 1] by (simp add: next_ps_idx_def)
qed

lemma next_rt_position:
  assumes "rds_state_wf abi st"
  shows "unat (st_rt_idx (next_rt_idx st)) = (unat (st_rt_idx st) + 1) mod max 1 (unat (st_rt_segments st))"
proof -
  let ?i = "unat (st_rt_idx st)" and ?n = "unat (st_rt_segments st)"
  have i: "?i < max 1 ?n" using assms by (simp add: rds_state_wf_def)
  have "?n < 16" using unsigned_less [of "st_rt_segments st", where ?'a = nat] by simp
  with i have u: "unat (st_rt_idx st + 1) = ?i + 1"
    using unat_add_of_nat [of "st_rt_idx st" 1] by (auto simp: max_def split: if_splits)
  then have "st_rt_idx st + 1 \<ge> st_rt_segments st \<longleftrightarrow> ?n \<le> ?i + 1" by (simp add: word_le_nat_alt)
  moreover have "max 1 ?n = ?i + 1" if "?n \<le> ?i + 1" using i that by linarith
  ultimately show ?thesis
    using i u by (cases "?n \<le> ?i + 1") (simp_all add: next_rt_idx_def)
qed

lemma next_ptyn_position:
  "unat (st_ptyn_idx (next_ptyn_idx st)) = (unat (st_ptyn_idx st) + 1) mod 2"
proof -
  have "unat (st_ptyn_idx st) < 2" using unsigned_less [of "st_ptyn_idx st", where ?'a = nat] by simp
  then have "unat (st_ptyn_idx st) = unat (0 :: 1 word) \<or> unat (st_ptyn_idx st) = unat (1 :: 1 word)"
    by auto
  then have "st_ptyn_idx st = 0 \<or> st_ptyn_idx st = 1" by (simp only: word_unat_eq_iff)
  then show ?thesis by (auto simp: next_ptyn_idx_def)
qed

subsection \<open>The four cycles are carousels\<close>

definition pair_good :: "byte list \<Rightarrow> byte list \<Rightarrow> nat \<Rightarrow> bool" where
  "pair_good xs ys i \<longleftrightarrow> xs ! (2 * i) = ys ! (2 * i) \<and> xs ! Suc (2 * i) = ys ! Suc (2 * i)"

definition ps_good :: "link \<Rightarrow> nat \<Rightarrow> bool" where
  "ps_good s i \<longleftrightarrow> pair_good (rx_ps (snd s)) (st_ps (sys_st (fst s))) i"

definition di_good :: "link \<Rightarrow> nat \<Rightarrow> bool" where
  "di_good s i \<longleftrightarrow> bit (rx_di (snd s)) (3 - i) = bit (st_di (sys_st (fst s))) (3 - i)"

definition text_good :: "byte list \<Rightarrow> byte list \<Rightarrow> nat \<Rightarrow> bool" where
  "text_good xs ys i \<longleftrightarrow> (\<forall>k<4. xs ! (4 * i + k) = ys ! (4 * i + k))"

definition rt_good :: "link \<Rightarrow> nat \<Rightarrow> bool" where
  "rt_good s i \<longleftrightarrow>
     rx_rt_ab (snd s) = bit (st_rt_flush (sys_st (fst s))) 0 \<and>
     text_good (rx_rt (snd s)) (st_rt (sys_st (fst s))) i"

definition ptyn_good :: "link \<Rightarrow> nat \<Rightarrow> bool" where
  "ptyn_good s i \<longleftrightarrow>
     rx_ptyn_ab (snd s) = bit (st_ptyn_flush (sys_st (fst s))) 0 \<and>
     text_good (rx_ptyn (snd s)) (st_ptyn (sys_st (fst s))) i"

definition label_good :: "link \<Rightarrow> nat \<Rightarrow> bool" where
  "label_good s i \<longleftrightarrow>
     (if i = 0 then rx_lic (snd s) = st_lic (sys_st (fst s)) else rx_ecc (snd s) = st_ecc (sys_st (fst s)))"

text \<open>The segment that was sent last, and the others.\<close>

lemma pair_good_put2:
  assumes "Suc (2 * i) < length xs" "Suc (2 * p) < length xs"
  shows "pair_good (rx_put2 (2 * p) ys xs) ys i \<longleftrightarrow> i = p \<or> pair_good xs ys i"
proof -
  have "2 * i \<noteq> Suc (2 * p)" "Suc (2 * i) \<noteq> 2 * p" by presburger+
  with assms show ?thesis by (auto simp: pair_good_def rx_put2_def nth_list_update)
qed

lemma text_good_put4:
  assumes "4 * i + 3 < length xs" "4 * p + 3 < length xs"
  shows "text_good (rx_put4 (4 * p) ys xs) ys i \<longleftrightarrow> i = p \<or> text_good xs ys i"
proof -
  have "rx_put4 (4 * p) ys xs ! (4 * i + k) = (if i = p then ys ! (4 * i + k) else xs ! (4 * i + k))"
    if "k < 4" for k
  proof -
    have k: "k = 0 \<or> k = 1 \<or> k = 2 \<or> k = 3" using that by linarith
    have "4 * p + j \<noteq> 4 * i + k" if "i \<noteq> p" "j < 4" for j
      using that \<open>k < 4\<close> by presburger
    from this [of 0] this [of 1] this [of 2] this [of 3] k show ?thesis
      using assms by (auto simp: rx_put4_def nth_list_update)
  qed
  then show ?thesis by (auto simp: text_good_def)
qed

lemma segment_bounds:
  "unat (st_ps_idx st) < 4" "unat (st_ptyn_idx st) < 2" "4 * unat (st_ptyn_idx st) + 3 < 8"
  "4 * unat (st_rt_idx st) + 3 < 64"
  using unsigned_less [of "st_ps_idx st", where ?'a = nat] unsigned_less [of "st_ptyn_idx st", where ?'a = nat]
    unsigned_less [of "st_rt_idx st", where ?'a = nat] by simp_all

definition tuning_event :: "group_event \<Rightarrow> bool" where
  "tuning_event e \<longleftrightarrow> event_code e = 0 \<or> event_code e = 15"

definition ps_event_ok :: "group_event \<Rightarrow> bool" where
  "ps_event_ok e \<longleftrightarrow> event_ok e \<and> event_code e \<noteq> 15"

definition ps_position :: "link \<Rightarrow> nat" where
  "ps_position s = unat (st_ps_idx (sys_st (fst s)))"

definition rt_position :: "link \<Rightarrow> nat" where
  "rt_position s = unat (st_rt_idx (sys_st (fst s)))"

definition rt_size :: "link \<Rightarrow> nat" where
  "rt_size s = max 1 (unat (st_rt_segments (sys_st (fst s))))"

definition ptyn_position :: "link \<Rightarrow> nat" where
  "ptyn_position s = unat (st_ptyn_idx (sys_st (fst s)))"

definition label_position :: "link \<Rightarrow> nat" where
  "label_position s = (if sys_vcode (fst s) = 0 then 0 else 1)"

lemma ps_position_less [simp]: "ps_position s < 4"
  by (simp add: ps_position_def segment_bounds)

lemma transmit_ps_position:
  assumes "event_ok e"
  shows "ps_position (transmit abi s e) =
    (if tuning_event e then (ps_position s + 1) mod 4 else ps_position s)"
proof -
  obtain sys rx clk code version where se: "s = (sys, rx)" "e = (clk, code, version)"
    by (cases s; cases e) auto
  from assms [unfolded se] show ?thesis
    by (cases rule: event_cases)
      (simp_all add: se ps_position_def tuning_event_def event_code_def transmit_eq group_next_def
        next_ps_position next_af_idx_def next_rt_idx_def next_ptyn_idx_def Let_def)
qed

lemma transmit_ps_good:
  assumes "link_ok abi s" "event_ok e" "i < 4"
  shows "ps_good (transmit abi s e) i \<longleftrightarrow> event_code e = 0 \<and> i = ps_position s \<or> ps_good s i"
proof -
  obtain sys rx clk code version where se: "s = (sys, rx)" "e = (clk, code, version)"
    by (cases s; cases e) auto
  have wf: "rds_state_wf abi (sys_st sys)" and len: "length (rx_ps rx) = 8"
    using assms by (auto simp: link_ok_def se)
  have put: "pair_good (rx_put2 (2 * unat (st_ps_idx (sys_st sys))) ys (rx_ps rx)) ys i \<longleftrightarrow>
      i = unat (st_ps_idx (sys_st sys)) \<or> pair_good (rx_ps rx) ys i" for ys
    using pair_good_put2 [of i "rx_ps rx"] len assms(3) segment_bounds(1) [of "sys_st sys"] by simp
  from assms(2) [unfolded se] show ?thesis
    by (cases rule: event_cases)
      (auto simp: se ps_good_def ps_position_def event_code_def transmit_eq frame_simps wf rx_step_simps put)
qed

interpretation ps_cycle: carousel "transmit abi" ps_event_ok "\<lambda>e. event_code e = 0" "link_ok abi"
    ps_position "\<lambda>_. 4" ps_good for abi
  by unfold_locales
    (auto simp: ps_event_ok_def link_ok_transmit transmit_ps_position transmit_ps_good tuning_event_def)

lemma transmit_di_good:
  assumes "link_ok abi s" "event_ok e" "i < 4"
  shows "di_good (transmit abi s e) i \<longleftrightarrow> tuning_event e \<and> i = ps_position s \<or> di_good s i"
proof -
  obtain sys rx clk code version where se: "s = (sys, rx)" "e = (clk, code, version)"
    by (cases s; cases e) auto
  have wf: "rds_state_wf abi (sys_st sys)" using assms by (auto simp: link_ok_def se)
  have "3 - i = 3 - unat (st_ps_idx (sys_st sys)) \<longleftrightarrow> i = unat (st_ps_idx (sys_st sys))"
    using assms(3) segment_bounds(1) [of "sys_st sys"] by linarith
  then have put: "bit (rx_di (rx_tuned (sys_st sys) r)) (3 - i) = bit (st_di (sys_st sys)) (3 - i) \<longleftrightarrow>
      i = unat (st_ps_idx (sys_st sys)) \<or> bit (rx_di r) (3 - i) = bit (st_di (sys_st sys)) (3 - i)" for r
    by (auto simp: rx_tuned_def bit_set_bit_iff bit_unset_bit_iff Let_def)
  from assms(2) [unfolded se] show ?thesis
    by (cases rule: event_cases)
      (auto simp: se di_good_def ps_position_def tuning_event_def event_code_def transmit_eq
        frame_simps wf rx_step_simps put)
qed

interpretation di_cycle: carousel "transmit abi" event_ok tuning_event "link_ok abi"
    ps_position "\<lambda>_. 4" di_good for abi
  by unfold_locales
    (auto simp: link_ok_transmit transmit_ps_position transmit_di_good)

lemma transmit_rt_position:
  assumes "link_ok abi s" "event_ok e"
  shows "rt_position (transmit abi s e) =
    (if event_code e = 2 then (rt_position s + 1) mod rt_size s else rt_position s)"
proof -
  obtain sys rx clk code version where se: "s = (sys, rx)" "e = (clk, code, version)"
    by (cases s; cases e) auto
  have wf: "rds_state_wf abi (sys_st sys)" using assms by (auto simp: link_ok_def se)
  from assms(2) [unfolded se] show ?thesis
    using next_rt_position [OF wf]
    by (cases rule: event_cases)
      (simp_all add: se rt_position_def rt_size_def event_code_def transmit_eq group_next_def
        next_ps_idx_def next_af_idx_def next_ptyn_idx_def Let_def)
qed

lemma transmit_rt_size: "event_ok e \<Longrightarrow> rt_size (transmit abi s e) = rt_size s"
  by (cases s; cases e) (simp add: rt_size_def transmit_eq frame_simps)

lemma rt_position_less: "link_ok abi s \<Longrightarrow> rt_position s < rt_size s"
  by (simp add: link_ok_def rds_state_wf_def rt_position_def rt_size_def)

lemma rt_size_le: "rt_size s \<le> 15"
  using unsigned_less [of "st_rt_segments (sys_st (fst s))", where ?'a = nat] by (simp add: rt_size_def)

lemma transmit_rt_good:
  assumes "link_ok abi s" "event_ok e" "i < rt_size s"
  shows "event_code e = 2 \<and> i = rt_position s \<or> rt_good s i \<Longrightarrow> rt_good (transmit abi s e) i"
proof -
  assume *: "event_code e = 2 \<and> i = rt_position s \<or> rt_good s i"
  obtain sys rx clk code version where se: "s = (sys, rx)" "e = (clk, code, version)"
    by (cases s; cases e) auto
  have wf: "rds_state_wf abi (sys_st sys)" and len: "length (rx_rt rx) = 64"
    using assms by (auto simp: link_ok_def se)
  have "i < 15" using assms(3) rt_size_le [of s] by linarith
  then have put: "text_good (rx_put4 (4 * unat (st_rt_idx (sys_st sys))) ys xs) ys i \<longleftrightarrow>
      i = unat (st_rt_idx (sys_st sys)) \<or> text_good xs ys i" if "length xs = 64" for xs ys
    using text_good_put4 [of i xs] that segment_bounds(4) [of "sys_st sys"] by simp
  from assms(2) [unfolded se] show ?thesis
    using *
    by (cases rule: event_cases)
      (auto simp: se rt_good_def rt_position_def event_code_def transmit_eq frame_simps wf len
        rx_step_simps put)
qed

interpretation rt_cycle: carousel "transmit abi" event_ok "\<lambda>e. event_code e = 2" "link_ok abi"
    rt_position rt_size rt_good for abi
  by unfold_locales
    (simp_all add: link_ok_transmit transmit_rt_position transmit_rt_size transmit_rt_good rt_position_less)

lemma transmit_ptyn_position:
  assumes "event_ok e"
  shows "ptyn_position (transmit abi s e) =
    (if event_code e = 10 then (ptyn_position s + 1) mod 2 else ptyn_position s)"
proof -
  obtain sys rx clk code version where se: "s = (sys, rx)" "e = (clk, code, version)"
    by (cases s; cases e) auto
  from assms [unfolded se] show ?thesis
    by (cases rule: event_cases)
      (simp_all add: se ptyn_position_def event_code_def transmit_eq group_next_def
        next_ptyn_position next_ps_idx_def next_af_idx_def next_rt_idx_def Let_def)
qed

lemma ptyn_position_less [simp]: "ptyn_position s < 2"
  by (simp add: ptyn_position_def segment_bounds)

lemma transmit_ptyn_good:
  assumes "link_ok abi s" "event_ok e" "i < 2"
  shows "event_code e = 10 \<and> i = ptyn_position s \<or> ptyn_good s i \<Longrightarrow> ptyn_good (transmit abi s e) i"
proof -
  assume *: "event_code e = 10 \<and> i = ptyn_position s \<or> ptyn_good s i"
  obtain sys rx clk code version where se: "s = (sys, rx)" "e = (clk, code, version)"
    by (cases s; cases e) auto
  have wf: "rds_state_wf abi (sys_st sys)" and len: "length (rx_ptyn rx) = 8"
    using assms by (auto simp: link_ok_def se)
  have put: "text_good (rx_put4 (4 * unat (st_ptyn_idx (sys_st sys))) ys xs) ys i \<longleftrightarrow>
      i = unat (st_ptyn_idx (sys_st sys)) \<or> text_good xs ys i" if "length xs = 8" for xs ys
    using text_good_put4 [of i xs] that assms(3) segment_bounds(3) [of "sys_st sys"] by simp
  from assms(2) [unfolded se] show ?thesis
    using *
    by (cases rule: event_cases)
      (auto simp: se ptyn_good_def ptyn_position_def event_code_def transmit_eq frame_simps wf len
        rx_step_simps put)
qed

interpretation ptyn_cycle: carousel "transmit abi" event_ok "\<lambda>e. event_code e = 10" "link_ok abi"
    ptyn_position "\<lambda>_. 2" ptyn_good for abi
  by unfold_locales
    (simp_all add: link_ok_transmit transmit_ptyn_position transmit_ptyn_good)

lemma transmit_label:
  assumes "link_ok abi s" "event_ok e"
  shows "label_position (transmit abi s e) =
      (if event_code e = 1 then (label_position s + 1) mod 2 else label_position s)"
    and "event_code e = 1 \<and> i = label_position s \<or> label_good s i \<Longrightarrow> label_good (transmit abi s e) i"
proof -
  obtain sys rx clk code version where se: "s = (sys, rx)" "e = (clk, code, version)"
    by (cases s; cases e) auto
  have wf: "rds_state_wf abi (sys_st sys)" using assms by (auto simp: link_ok_def se)
  from assms(2) [unfolded se]
  show "label_position (transmit abi s e) =
      (if event_code e = 1 then (label_position s + 1) mod 2 else label_position s)"
    by (cases rule: event_cases)
      (simp_all add: se label_position_def event_code_def transmit_eq group_next_def Let_def)
  assume *: "event_code e = 1 \<and> i = label_position s \<or> label_good s i"
  from assms(2) [unfolded se] show "label_good (transmit abi s e) i"
    using *
    by (cases rule: event_cases)
      (auto simp: se label_good_def label_position_def event_code_def transmit_eq frame_simps wf
        rx_step_simps split: if_splits)
qed

interpretation label_cycle: carousel "transmit abi" event_ok "\<lambda>e. event_code e = 1" "link_ok abi"
    label_position "\<lambda>_. 2" label_good for abi
  by unfold_locales
    (auto simp: link_ok_transmit transmit_label(1) label_position_def [of "(_, _)"] intro: transmit_label(2))

text \<open>The flags and the header of every group are carousels of one segment.\<close>

definition flags_good :: "link \<Rightarrow> nat \<Rightarrow> bool" where
  "flags_good s i \<longleftrightarrow>
     rx_ta (snd s) = bit (st_ta (sys_st (fst s))) 0 \<and> rx_ms (snd s) = bit (st_ms (sys_st (fst s))) 0"

definition header_good :: "link \<Rightarrow> nat \<Rightarrow> bool" where
  "header_good s i \<longleftrightarrow>
     rx_pi (snd s) = st_pi (sys_st (fst s)) \<and> rx_tp (snd s) = bit (st_tp (sys_st (fst s))) 0 \<and>
     rx_pty (snd s) = st_pty (sys_st (fst s))"

lemma rx_step_4_header:
  "rx_pi (rx_step (group_infos abi clk 4 0 sys) rx) = st_pi (sys_st sys)"
  "rx_tp (rx_step (group_infos abi clk 4 0 sys) rx) = bit (st_tp (sys_st sys)) 0"
  "rx_pty (rx_step (group_infos abi clk 4 0 sys) rx) = st_pty (sys_st sys)"
  "rx_ta (rx_step (group_infos abi clk 4 0 sys) rx) = rx_ta rx"
  "rx_ms (rx_step (group_infos abi clk 4 0 sys) rx) = rx_ms rx"
  by (simp_all add: rx_step_def group_infos_def header_simps low5_ct Let_def)

lemma transmit_flags:
  assumes "link_ok abi s" "event_ok e"
  shows "tuning_event e \<or> flags_good s i \<Longrightarrow> flags_good (transmit abi s e) i"
    and "header_good (transmit abi s e) i"
proof -
  obtain sys rx clk code version where se: "s = (sys, rx)" "e = (clk, code, version)"
    by (cases s; cases e) auto
  have wf: "rds_state_wf abi (sys_st sys)" using assms by (auto simp: link_ok_def se)
  from assms(2) [unfolded se] show "header_good (transmit abi s e) i"
    by (cases rule: event_cases)
      (simp_all add: se header_good_def transmit_eq frame_simps wf rx_step_simps rx_step_4_header
        rx_common_def rx_tuned_def)
  assume *: "tuning_event e \<or> flags_good s i"
  from assms(2) [unfolded se] show "flags_good (transmit abi s e) i"
    using *
    by (cases rule: event_cases)
      (simp_all add: se flags_good_def tuning_event_def event_code_def transmit_eq frame_simps wf
        rx_step_simps rx_step_4_header rx_tuned_def)
qed

interpretation flags_cycle: carousel "transmit abi" event_ok tuning_event "link_ok abi"
    "\<lambda>_. 0" "\<lambda>_. 1" flags_good for abi
  by unfold_locales (auto simp: link_ok_transmit intro: transmit_flags(1))

interpretation header_cycle: carousel "transmit abi" event_ok "\<lambda>_. True" "link_ok abi"
    "\<lambda>_. 0" "\<lambda>_. 1" header_good for abi
  by unfold_locales (auto simp: link_ok_transmit intro: transmit_flags(2))

subsection \<open>From the setters to the receiver\<close>

lemma run_config:
  assumes "list_all event_ok es"
  shows
  "st_ps (sys_st (fst (foldl (transmit abi) s es))) = st_ps (sys_st (fst s))"
  "st_rt (sys_st (fst (foldl (transmit abi) s es))) = st_rt (sys_st (fst s))"
  "st_ptyn (sys_st (fst (foldl (transmit abi) s es))) = st_ptyn (sys_st (fst s))"
  "st_di (sys_st (fst (foldl (transmit abi) s es))) = st_di (sys_st (fst s))"
  "st_ecc (sys_st (fst (foldl (transmit abi) s es))) = st_ecc (sys_st (fst s))"
  "st_lic (sys_st (fst (foldl (transmit abi) s es))) = st_lic (sys_st (fst s))"
  "st_pi (sys_st (fst (foldl (transmit abi) s es))) = st_pi (sys_st (fst s))"
  "st_tp (sys_st (fst (foldl (transmit abi) s es))) = st_tp (sys_st (fst s))"
  "st_pty (sys_st (fst (foldl (transmit abi) s es))) = st_pty (sys_st (fst s))"
  "st_ta (sys_st (fst (foldl (transmit abi) s es))) = st_ta (sys_st (fst s))"
  "st_ms (sys_st (fst (foldl (transmit abi) s es))) = st_ms (sys_st (fst s))"
  using assms by (induction es arbitrary: s) (auto simp: transmit_eq frame_simps split: prod.splits)

lemma run_link_ok:
  "link_ok abi s \<Longrightarrow> list_all event_ok es \<Longrightarrow> link_ok abi (foldl (transmit abi) s es)"
  by (rule rt_cycle.run_inv)

lemma pairs_eq:
  assumes "length xs = 8" "length ys = 8" "\<And>i. i < 4 \<Longrightarrow> pair_good xs ys i"
  shows "xs = ys"
proof (rule nth_equalityI)
  fix k
  assume k: "k < length xs"
  have "k div 2 < 4" using k assms(1) by simp
  from assms(3) [OF this] have p: "xs ! (2 * (k div 2)) = ys ! (2 * (k div 2))"
      "xs ! Suc (2 * (k div 2)) = ys ! Suc (2 * (k div 2))"
    by (simp_all add: pair_good_def)
  show "xs ! k = ys ! k"
  proof (cases "even k")
    case True
    with p(1) show ?thesis by simp
  next
    case False
    then have "Suc (2 * (k div 2)) = k" by (metis odd_two_times_div_two_succ Suc_eq_plus1)
    with p(2) show ?thesis by simp
  qed
qed (simp add: assms)

lemma quads_eq:
  assumes "\<And>i. i < n \<Longrightarrow> text_good xs ys i" "4 * n \<le> length xs" "4 * n \<le> length ys"
  shows "take (4 * n) xs = take (4 * n) ys"
proof (rule nth_equalityI)
  fix k
  assume "k < length (take (4 * n) xs)"
  then have k: "k < 4 * n" "k div 4 < n" "k mod 4 < 4" using assms(2) by auto
  from assms(1) [OF k(2)] k(3) have "xs ! (4 * (k div 4) + k mod 4) = ys ! (4 * (k div 4) + k mod 4)"
    unfolding text_good_def by blast
  with k assms show "take (4 * n) xs ! k = take (4 * n) ys ! k" by simp
qed (use assms in simp)

lemma ps_received_lemma:
  assumes "link_ok abi s" "list_all ps_event_ok es" "4 \<le> length (filter (\<lambda>e. event_code e = 0) es)"
  shows "rx_ps (snd (foldl (transmit abi) s es)) = st_ps (sys_st (fst s))"
proof (rule pairs_eq)
  have ok: "list_all event_ok es" using assms(2) by (auto simp: ps_event_ok_def list_all_iff)
  let ?s = "foldl (transmit abi) s es"
  have "link_ok abi ?s" using assms(1,2) by (rule ps_cycle.run_inv)
  then show "length (rx_ps (snd ?s)) = 8" by (simp add: link_ok_def)
  show "length (st_ps (sys_st (fst s))) = 8" using assms(1) by (simp add: link_ok_def rds_state_wf_def)
  show "pair_good (rx_ps (snd ?s)) (st_ps (sys_st (fst s))) i" if "i < 4" for i
    using ps_cycle.complete [OF assms that] by (simp add: ps_good_def run_config [OF ok])
qed

lemma rt_received_lemma:
  assumes "link_ok abi s" "list_all event_ok es"
    and "rt_size s \<le> length (filter (\<lambda>e. event_code e = 2) es)"
  shows "take (4 * rt_size s) (rx_rt (snd (foldl (transmit abi) s es))) =
         take (4 * rt_size s) (st_rt (sys_st (fst s)))"
proof (rule quads_eq)
  let ?s = "foldl (transmit abi) s es"
  have "link_ok abi ?s" using assms(1,2) by (rule run_link_ok)
  then show "4 * rt_size s \<le> length (rx_rt (snd ?s))"
    using rt_size_le [of s] by (simp add: link_ok_def)
  show "4 * rt_size s \<le> length (st_rt (sys_st (fst s)))"
    using assms(1) rt_size_le [of s] by (simp add: link_ok_def rds_state_wf_def)
  show "text_good (rx_rt (snd ?s)) (st_rt (sys_st (fst s))) i" if "i < rt_size s" for i
    using rt_cycle.complete [OF assms that] by (simp add: rt_good_def run_config [OF assms(2)])
qed

lemma ptyn_received_lemma:
  assumes "link_ok abi s" "list_all event_ok es" "2 \<le> length (filter (\<lambda>e. event_code e = 10) es)"
  shows "rx_ptyn (snd (foldl (transmit abi) s es)) = st_ptyn (sys_st (fst s))"
proof -
  let ?s = "foldl (transmit abi) s es"
  have len: "length (rx_ptyn (snd ?s)) = 8" "length (st_ptyn (sys_st (fst s))) = 8"
    using run_link_ok [OF assms(1,2)] assms(1) by (simp_all add: link_ok_def rds_state_wf_def)
  have "take (4 * 2) (rx_ptyn (snd ?s)) = take (4 * 2) (st_ptyn (sys_st (fst s)))"
  proof (rule quads_eq)
    show "text_good (rx_ptyn (snd ?s)) (st_ptyn (sys_st (fst s))) i" if "i < 2" for i
      using ptyn_cycle.complete [OF assms that] by (simp add: ptyn_good_def run_config [OF assms(2)])
  qed (use len in simp_all)
  with len show ?thesis by simp
qed

lemma di_received_lemma:
  assumes "link_ok abi s" "list_all event_ok es" "4 \<le> length (filter tuning_event es)"
  shows "rx_di (snd (foldl (transmit abi) s es)) = st_di (sys_st (fst s))"
proof (rule bit_word_eqI)
  fix k
  assume "k < LENGTH(4)"
  then have k: "3 - k < 4" "3 - (3 - k) = k" by simp_all
  show "bit (rx_di (snd (foldl (transmit abi) s es))) k = bit (st_di (sys_st (fst s))) k"
    using di_cycle.complete [OF assms k(1)] k(2) by (simp add: di_good_def run_config [OF assms(2)])
qed

text \<open>The state after setting a text, as the encoder sees it.\<close>

lemma set_rt_segments:
  assumes "strnlen p 64 = n" "n \<noteq> 0" "n \<le> 60"
  shows "max 1 (unat (of_nat (rt_padded n div 4) :: 4 word)) = rt_padded n div 4" "rt_padded n mod 4 = 0"
proof -
  obtain q r where n: "n = 4 * q + r" "r < 4" by (rule quot4E)
  have rp: "rt_padded n = 4 * (if r = 0 then q else q + 1)"
    using n assms(3) by (auto simp: rt_padded_split)
  have "rt_padded n div 4 = (if r = 0 then q else q + 1)" unfolding rp by simp
  moreover have "(if r = 0 then q else q + 1) \<le> 15" "1 \<le> (if r = 0 then q else q + 1)"
    using n assms by auto
  ultimately show "max 1 (unat (of_nat (rt_padded n div 4) :: 4 word)) = rt_padded n div 4"
    by (simp add: unat_of_nat)
  show "rt_padded n mod 4 = 0" unfolding rp by simp
qed

lemma transmit_rt_tail:
  assumes "link_ok abi s" "event_ok e" "4 * rt_size s \<le> k" "k < 64" "rx_rt (snd s) ! k = 0"
  shows "rx_rt (snd (transmit abi s e)) ! k = 0"
proof -
  obtain sys rx clk code version where se: "s = (sys, rx)" "e = (clk, code, version)"
    by (cases s; cases e) auto
  have wf: "rds_state_wf abi (sys_st sys)" and len: "length (rx_rt rx) = 64"
    using assms by (auto simp: link_ok_def se)
  have "4 * unat (st_rt_idx (sys_st sys)) + 3 < k"
    using assms(3) rt_position_less [OF assms(1)] by (simp add: se rt_position_def)
  with assms(2) [unfolded se] show ?thesis
    using assms(4,5)
    by (cases rule: event_cases)
      (auto simp: se transmit_eq frame_simps wf len rx_step_simps rx_put4_def)
qed

lemma run_rt_tail:
  assumes "link_ok abi s" "list_all event_ok es" "4 * rt_size s \<le> k" "k < 64" "rx_rt (snd s) ! k = 0"
  shows "rx_rt (snd (foldl (transmit abi) s es)) ! k = 0"
  using assms
proof (induction es arbitrary: s)
  case (Cons e es)
  then show ?case
    using transmit_rt_tail [of abi s e k] by (simp add: link_ok_transmit transmit_rt_size)
qed simp

definition rx_ok :: "rds_rx \<Rightarrow> bool" where
  "rx_ok rx \<longleftrightarrow> length (rx_ps rx) = 8 \<and> length (rx_rt rx) = 64 \<and> length (rx_ptyn rx) = 8"

lemma link_okI: "rds_state_wf abi (sys_st sys) \<Longrightarrow> rx_ok rx \<Longrightarrow> link_ok abi (sys, rx)"
  by (simp add: link_ok_def rx_ok_def)

text \<open>A receiver that has just been switched on, and the examples' encoder state and clock.\<close>

definition rx_init :: rds_rx where
  "rx_init = \<lparr>rx_pi = 0, rx_tp = False, rx_pty = 0, rx_ta = False, rx_ms = False, rx_di = 0,
     rx_ps = replicate 8 0, rx_rt = replicate 64 0, rx_rt_ab = False, rx_ptyn = replicate 8 0,
     rx_ptyn_ab = False, rx_ecc = 0, rx_lic = 0, rx_ct = None\<rparr>"

definition example_clock :: clock where
  "example_clock = \<lparr>now = 1700000000, utc_offset = \<lambda>_. 7200\<rparr>"

lemma rx_ok_init [simp]: "rx_ok rx_init"
  by (simp add: rx_ok_def rx_init_def)

lemma wf_sys_init [simp]: "rds_state_wf abi (sys_st rds_sys_init)"
  by (simp add: rds_sys_init_def rds_state_wf_zero)

lemma link_after_set:
  assumes "rds_state_wf abi (sys_st sys)" "rx_ok rx" "rds_apply abi c (Some (sys_st sys)) = (r, Some st')"
  shows "link_ok abi (sys\<lparr>sys_st := st'\<rparr>, rx)"
  using rds_apply_wf [OF assms(1), of c] assms(2,3) by (auto intro: link_okI)

subsection \<open>Properties\<close>

text \<open>
  C3: radio text end to end. After \<^verbatim>\<open>rds_set_rt\<close> with a text of 1 to 60 characters, a receiver
  shows the filtered text, padded with spaces to a multiple of four, once as many 2A groups as the
  text has segments were sent, whatever other groups are interleaved and whatever the receiver's
  buffer held before.
\<close>

theorem rt_received:
  assumes "rds_state_wf abi (sys_st sys)" "rx_ok rx"
    and "strnlen p 64 = n" "n \<noteq> 0" "n \<le> 60"
    and "rds_set_rt abi (Some (sys_st sys)) (Some p) flush = (0, Some st')"
    and "list_all event_ok es" "rt_padded n div 4 \<le> length (filter (\<lambda>e. event_code e = 2) es)"
  shows "take (rt_padded n) (rx_rt (snd (foldl (transmit abi) (sys\<lparr>sys_st := st'\<rparr>, rx) es))) =
         map (rt_char abi) (take n p) @ replicate (rt_padded n - n) 0x20"
proof -
  let ?s = "(sys\<lparr>sys_st := st'\<rparr>, rx)"
  have ok: "link_ok abi ?s"
    using link_after_set [OF assms(1,2), of "Set_Rt (Some p) flush"] assms(6) by simp
  have st: "st_rt st' = rt_text abi p n" "st_rt_segments st' = of_nat (rt_padded n div 4)"
    using assms(6) rds_set_rt_eq [OF assms(3,4), of abi "sys_st sys" flush] by auto
  have size: "rt_size ?s = rt_padded n div 4"
    using set_rt_segments(1) [OF assms(3,4,5)] by (simp add: rt_size_def st)
  have "4 * (rt_padded n div 4) = rt_padded n" using set_rt_segments(2) [OF assms(3,4,5)] by auto
  moreover have "n \<le> rt_padded n" "n \<le> length p"
    using rt_padded_ge [of n] assms(3,5) strnlen_le_length [of p 64] by auto
  ultimately show ?thesis
    using rt_received_lemma [OF ok assms(7)] assms(8) size by (simp add: st rt_text_def)
qed

definition example_text :: cstring where
  "example_text = [0x48, 0x45, 0x4C, 0x4C, 0x4F, 0x00]"

lemma strnlen_example: "strnlen example_text 64 = 5" "strnlen example_text 8 = 5"
  by (simp_all add: strnlen_def example_text_def)

theorem rt_received_witness:
  "\<exists>st'. rds_set_rt Signed_Char (Some (sys_st rds_sys_init)) (Some example_text) 0 = (0, Some st') \<and>
     take 8 (rx_rt (snd (foldl (transmit Signed_Char) (rds_sys_init\<lparr>sys_st := st'\<rparr>, rx_init)
       [(example_clock, 2, 0), (example_clock, 0, 1), (example_clock, 2, 0)]))) =
     [0x48, 0x45, 0x4C, 0x4C, 0x4F, 0x20, 0x20, 0x20]"
proof -
  let ?es = "[(example_clock, 2, 0), (example_clock, 0, 1), (example_clock, 2, 0)]"
  obtain st' where st': "rds_set_rt Signed_Char (Some (sys_st rds_sys_init)) (Some example_text) 0 = (0, Some st')"
    using rds_set_rt_eq [OF strnlen_example(1), of Signed_Char "sys_st rds_sys_init" 0] by simp
  have pad: "rt_padded 5 = 8" by (simp add: rt_padded_def)
  have "take (rt_padded 5) (rx_rt (snd (foldl (transmit Signed_Char) (rds_sys_init\<lparr>sys_st := st'\<rparr>, rx_init) ?es))) =
      map (rt_char Signed_Char) (take 5 example_text) @ replicate (rt_padded 5 - 5) 0x20"
    using st' by (intro rt_received [OF _ _ strnlen_example(1)]) (simp_all add: pad event_code_def)
  moreover have "map (rt_char Signed_Char) (take 5 example_text) @ replicate (8 - 5) 0x20 =
      [0x48, 0x45, 0x4C, 0x4C, 0x4F, 0x20, 0x20, 0x20]" by code_simp
  ultimately show ?thesis using st' by (auto simp: pad)
qed

text \<open>
  C32: radio text of 61 to 64 characters, which \<^verbatim>\<open>rds_set_rt\<close> accepts, is never sent completely:
  whatever groups follow, the characters from position 60 on (from position 4 on when the text has
  64 characters) stay empty at the receiver.
\<close>

theorem rt_long_text_tail_lost:
  assumes "rds_state_wf abi (sys_st sys)" "rx_ok rx" "rx_rt rx = replicate 64 0"
    and "strnlen p 64 = n" "60 < n"
    and "rds_set_rt abi (Some (sys_st sys)) (Some p) flush = (0, Some st')"
    and "list_all event_ok es" "(if n = 64 then 4 else 60) \<le> k" "k < n"
  shows "p ! k \<noteq> 0 \<and> rx_rt (snd (foldl (transmit abi) (sys\<lparr>sys_st := st'\<rparr>, rx) es)) ! k = 0"
proof
  let ?s = "(sys\<lparr>sys_st := st'\<rparr>, rx)"
  have n: "n \<noteq> 0" "n \<le> 64" using assms(4,5) strnlen_le [of p 64] by auto
  show "p ! k \<noteq> 0" using strnlen_nonzero [of k p 64] assms(4,9) by simp
  have ok: "link_ok abi ?s"
    using link_after_set [OF assms(1,2), of "Set_Rt (Some p) flush"] assms(6) by simp
  have "st_rt_segments st' = of_nat (rt_padded n div 4)"
    using assms(6) rds_set_rt_eq [OF assms(4) n(1), of abi "sys_st sys" flush] by auto
  moreover have "n = 61 \<or> n = 62 \<or> n = 63 \<or> n = 64" using n assms(5) by linarith
  ultimately have "4 * rt_size ?s = (if n = 64 then 4 else 60)"
    by (auto simp: rt_size_def rt_padded_def)
  then show "rx_rt (snd (foldl (transmit abi) ?s es)) ! k = 0"
    using run_rt_tail [OF ok assms(7), of k] assms(3,8,9) n by simp
qed

theorem rt_long_text_tail_lost_witness:
  "\<exists>st'. rds_set_rt Signed_Char (Some (sys_st rds_sys_init)) (Some (replicate 64 0x41)) 0 = (0, Some st') \<and>
     rx_rt (snd (foldl (transmit Signed_Char) (rds_sys_init\<lparr>sys_st := st'\<rparr>, rx_init)
       (replicate 100 (example_clock, 2, 0)))) ! 4 = 0"
proof -
  have len: "strnlen (replicate 64 (0x41 :: byte)) 64 = 64" by (simp add: strnlen_def)
  obtain st' where st': "rds_set_rt Signed_Char (Some (sys_st rds_sys_init)) (Some (replicate 64 0x41)) 0 = (0, Some st')"
    using rds_set_rt_eq [OF len, of Signed_Char "sys_st rds_sys_init" 0] by simp
  have "rx_rt (snd (foldl (transmit Signed_Char) (rds_sys_init\<lparr>sys_st := st'\<rparr>, rx_init)
      (replicate 100 (example_clock, 2, 0)))) ! 4 = 0"
    using rt_long_text_tail_lost [OF _ _ _ len _ st', of rx_init "replicate 100 (example_clock, 2, 0)" 4]
    by (simp add: rx_init_def rx_ok_def list_all_iff)
  with st' show ?thesis by blast
qed

text \<open>
  C11: the programme service name end to end. After \<^verbatim>\<open>rds_set_ps\<close> with a non-empty name, a
  receiver shows the first eight characters of it, filtered, after four groups of type 0A or 0B,
  whatever other groups (but 15B, which the scheduler sends only while no name is set) are
  interleaved.
\<close>

theorem ps_received:
  assumes "rds_state_wf abi (sys_st sys)" "rx_ok rx" "strnlen p 8 = n" "n \<noteq> 0"
    and "rds_set_ps abi (Some (sys_st sys)) (Some p) = (0, Some st')"
    and "list_all ps_event_ok es" "4 \<le> length (filter (\<lambda>e. event_code e = 0) es)"
  shows "rx_ps (snd (foldl (transmit abi) (sys\<lparr>sys_st := st'\<rparr>, rx) es)) =
         map (ps_char abi) (take n p) @ replicate (8 - n) 0"
proof -
  let ?s = "(sys\<lparr>sys_st := st'\<rparr>, rx)"
  have ok: "link_ok abi ?s"
    using link_after_set [OF assms(1,2), of "Set_Ps (Some p)"] assms(5) by simp
  have "st_ps st' = map (ps_char abi) (take n p) @ replicate (8 - n) 0"
    using assms(5) rds_set_ps_eq [OF assms(3,4), of abi "sys_st sys"] by auto
  then show ?thesis using ps_received_lemma [OF ok assms(6,7)] by simp
qed

theorem ps_received_witness:
  "\<exists>st'. rds_set_ps Unsigned_Char (Some (sys_st rds_sys_init)) (Some example_text) = (0, Some st') \<and>
     rx_ps (snd (foldl (transmit Unsigned_Char) (rds_sys_init\<lparr>sys_st := st'\<rparr>, rx_init)
       (replicate 4 (example_clock, 0, 1)))) = [0x48, 0x45, 0x4C, 0x4C, 0x4F, 0, 0, 0]"
proof -
  obtain st' where st': "rds_set_ps Unsigned_Char (Some (sys_st rds_sys_init)) (Some example_text) = (0, Some st')"
    using rds_set_ps_eq [OF strnlen_example(2), of Unsigned_Char "sys_st rds_sys_init"] by simp
  have "rx_ps (snd (foldl (transmit Unsigned_Char) (rds_sys_init\<lparr>sys_st := st'\<rparr>, rx_init)
      (replicate 4 (example_clock, 0, 1)))) =
      map (ps_char Unsigned_Char) (take 5 example_text) @ replicate (8 - 5) 0"
    using st' by (intro ps_received [OF _ _ strnlen_example(2)])
      (simp_all add: list_all_iff ps_event_ok_def event_code_def)
  moreover have "map (ps_char Unsigned_Char) (take 5 example_text) @ replicate (8 - 5) 0 =
      [0x48, 0x45, 0x4C, 0x4C, 0x4F, 0, 0, 0]" by code_simp
  ultimately show ?thesis using st' by auto
qed

text \<open>
  C28: tuning information. After four groups of type 0A, 0B or 15B a receiver has the encoder's
  decoder identification, its TA and music/speech flags, and its PI, TP and PTY, with any other
  groups interleaved.
\<close>

theorem tuning_received:
  assumes "rds_state_wf abi (sys_st sys)" "rx_ok rx" "list_all event_ok es"
    and "4 \<le> length (filter tuning_event es)"
  shows "let rx' = snd (foldl (transmit abi) (sys, rx) es); st = sys_st sys in
         rx_di rx' = st_di st \<and> rx_ta rx' = bit (st_ta st) 0 \<and> rx_ms rx' = bit (st_ms st) 0 \<and>
         rx_pi rx' = st_pi st \<and> rx_tp rx' = bit (st_tp st) 0 \<and> rx_pty rx' = st_pty st"
proof -
  have ok: "link_ok abi (sys, rx)" using assms(1,2) by (rule link_okI)
  have "length (filter tuning_event es) \<le> length es" by simp
  with assms(4) have "1 \<le> length es" by linarith
  with assms(4) have "1 \<le> length (filter tuning_event es)" "1 \<le> length (filter (\<lambda>_. True) es)"
    by simp_all
  then show ?thesis
    using di_received_lemma [OF ok assms(3,4)] flags_cycle.complete [OF ok assms(3), of 0]
      header_cycle.complete [OF ok assms(3), of 0]
    by (simp add: flags_good_def header_good_def run_config [OF assms(3)])
qed

theorem tuning_received_witness:
  "rx_di (snd (foldl (transmit Signed_Char)
     (rds_sys_init\<lparr>sys_st := rds_state_zero\<lparr>st_di := 5\<rparr>\<rparr>, rx_init) (replicate 4 (example_clock, 15, 1)))) = 5"
proof -
  have "rds_state_wf Signed_Char (rds_state_zero\<lparr>st_di := 5\<rparr>)"
    using rds_state_wf_zero [of Signed_Char] by (simp add: rds_state_wf_def)
  then show ?thesis
    using tuning_received [of Signed_Char "rds_sys_init\<lparr>sys_st := rds_state_zero\<lparr>st_di := 5\<rparr>\<rparr>" rx_init
        "replicate 4 (example_clock, 15, 1)"]
    by (simp add: list_all_iff tuning_event_def event_code_def Let_def)
qed

text \<open>
  C29: the programme type name and the slow labels. After two 10A groups a receiver has the whole
  programme type name, and after two 1A groups the language and the country code.
\<close>

theorem ptyn_labels_received:
  assumes "rds_state_wf abi (sys_st sys)" "rx_ok rx" "list_all event_ok es"
  shows "(2 \<le> length (filter (\<lambda>e. event_code e = 10) es) \<longrightarrow>
            rx_ptyn (snd (foldl (transmit abi) (sys, rx) es)) = st_ptyn (sys_st sys)) \<and>
         (2 \<le> length (filter (\<lambda>e. event_code e = 1) es) \<longrightarrow>
            rx_ecc (snd (foldl (transmit abi) (sys, rx) es)) = st_ecc (sys_st sys) \<and>
            rx_lic (snd (foldl (transmit abi) (sys, rx) es)) = st_lic (sys_st sys))"
proof -
  have ok: "link_ok abi (sys, rx)" using assms(1,2) by (rule link_okI)
  show ?thesis
    using ptyn_received_lemma [OF ok assms(3)] label_cycle.complete [OF ok assms(3), of 0]
      label_cycle.complete [OF ok assms(3), of 1]
    by (simp add: label_good_def run_config [OF assms(3)])
qed

theorem ptyn_labels_received_witness:
  "rx_ecc (snd (foldl (transmit Signed_Char)
     (rds_sys_init\<lparr>sys_st := rds_state_zero\<lparr>st_ecc := 0xE1\<rparr>\<rparr>, rx_init) (replicate 2 (example_clock, 1, 0)))) = 0xE1"
proof -
  have "rds_state_wf Signed_Char (rds_state_zero\<lparr>st_ecc := 0xE1\<rparr>)"
    using rds_state_wf_zero [of Signed_Char] by (simp add: rds_state_wf_def)
  then show ?thesis
    using ptyn_labels_received [of Signed_Char "rds_sys_init\<lparr>sys_st := rds_state_zero\<lparr>st_ecc := 0xE1\<rparr>\<rparr>" rx_init
        "replicate 2 (example_clock, 1, 0)"]
    by (simp add: list_all_iff event_code_def)
qed

text \<open>
  C16: clock time. For every moment from 1970 to 2099, provided the C library can break the time
  down, a 4A group carries the modified Julian date
  of the day and the hour of UTC, although the code computes the date in floating point. The minute
  arrives modulo 32: the code masks it with five bits where the field has six.
\<close>

theorem ct_received:
  assumes "0 \<le> now clk" "now clk < 47482 * 86400" "clock_ok clk"
  shows "rx_ct (snd (transmit abi (sys, rx) (clk, 4, 0))) =
           Some (40587 + now clk div 86400, now clk mod 86400 div 3600, now clk mod 3600 div 60 mod 32)"
  using rx_step_4 [OF assms(1,2), of abi sys rx] assms(3)
  by (simp add: transmit_eq gmtime_hour gmtime_minute)

lemma clock_ok_example: "clock_ok example_clock"
  by (simp add: clock_ok_def localtime_r_def example_clock_def gmtime_r_ok)

theorem ct_received_witness:
  "rx_ct (snd (transmit Signed_Char (rds_sys_init, rx_init) (example_clock, 4, 0))) = Some (60262, 22, 13)"
  using ct_received [of example_clock Signed_Char rds_sys_init rx_init] clock_ok_example
  by (simp add: example_clock_def)

text \<open>
  The alternative frequencies never reach the air: the group that \<^verbatim>\<open>rds_generate_group\<close>
  makes for type 0A does not depend on them, although the standard reserves its third block for
  them; that block repeats the end of block 2.
\<close>

theorem af_not_transmitted:
  "map_option (\<lambda>(ret, _, g). (ret, g))
     (rds_generate_group abi clk 0 0 (sys\<lparr>sys_st := (sys_st sys)\<lparr>st_af_data := af\<rparr>\<rparr>) g0) =
   map_option (\<lambda>(ret, _, g). (ret, g)) (rds_generate_group abi clk 0 0 sys g0) \<and>
   map_option (\<lambda>(_, _, g). map infoword (blocks g) ! 2) (rds_generate_group abi clk 0 0 sys g0) =
     Some (tuning_info (sys_st sys))"
proof -
  have "supported clk 0 0" by (simp add: supported_def)
  then show ?thesis
    by (simp add: rds_generate_group_supported Let_def del: map_map nth_map)
      (simp add: group_infos_def header_info_def tuning_info_def ps_pair_def Let_def)
qed

end
