(* ===== verification/Rds_Scheduler.thy ===== *)
theory Rds_Scheduler
  imports Rds_Receiver
begin

text \<open>
  The group scheduler (\<^verbatim>\<open>rds_encoder.c\<close>, \<^verbatim>\<open>rds_get_next_group\<close>): which group is sent next,
  from three static counters and the fields that are set. The abstract scheduler \<open>sched_step\<close>
  works on integers; the code's 8 and 16 bit counters refine it. Around it, what the receiver of
  \<open>Rds_Receiver\<close> gets from consecutive calls.
\<close>

subsection \<open>The code\<close>

abbreviation (input) RDS_GROUPS_PER_SEC :: int where "RDS_GROUPS_PER_SEC \<equiv> 12"
abbreviation (input) RDS_GROUPS_PER_MIN :: uint16 where "RDS_GROUPS_PER_MIN \<equiv> 720"

type_synonym gen_result = "(int \<times> rds_sys \<times> rds_group) option"

text \<open>The counters after a group (lines 616 to 622).\<close>

definition sched_count :: "int \<Rightarrow> rds_sys \<Rightarrow> rds_sys" where
  "sched_count ret sys =
     (let sys = (if ret \<ge> 0 then sys\<lparr>sys_sec := sys_sec sys + 1, sys_min := sys_min sys + 1\<rparr> else sys)
      in if sys_ptyn_cnt sys \<ge> 2 then sys\<lparr>sys_ptyn_cnt := 0\<rparr> else sys)"

function rds_get_next_group :: "char_abi \<Rightarrow> clock \<Rightarrow> rds_sys \<Rightarrow> rds_group \<Rightarrow> gen_result" where
  "rds_get_next_group abi clk sys grp =
     (let st = sys_st sys; sec = sint (sys_sec sys) in
      if sys_min sys \<ge> RDS_GROUPS_PER_MIN then
        (case rds_generate_group abi clk 4 RDS_GROUP_VERSION_A sys grp of
           None \<Rightarrow> None
         | Some (ret, sys, grp) \<Rightarrow> Some (ret, if ret \<ge> 0 then sys\<lparr>sys_min := 0\<rparr> else sys, grp))
      else
        (case
           (if sec < 4 then
              (if st_ps_set st \<noteq> 0 then
                 (if st_af_set st \<noteq> 0 then rds_generate_group abi clk 0 RDS_GROUP_VERSION_A sys grp
                  else rds_generate_group abi clk 0 RDS_GROUP_VERSION_B sys grp)
               else rds_generate_group abi clk 15 RDS_GROUP_VERSION_B sys grp)
            else if sec < 5 \<and> (st_ecc_set st \<noteq> 0 \<or> st_lic_set st \<noteq> 0) then
              rds_generate_group abi clk 1 RDS_GROUP_VERSION_A sys grp
            else if sec < 7 \<and> st_ptyn_set st \<noteq> 0 \<and> sys_ptyn_cnt sys < 2 then
              map_option (\<lambda>(ret, sys, grp). (ret, sys\<lparr>sys_ptyn_cnt := sys_ptyn_cnt sys + 1\<rparr>, grp))
                (rds_generate_group abi clk 10 RDS_GROUP_VERSION_A sys grp)
            else if sec < RDS_GROUPS_PER_SEC \<and> st_rt_set st \<noteq> 0 then
              rds_generate_group abi clk 2 RDS_GROUP_VERSION_A sys grp
            else rds_get_next_group abi clk (sys\<lparr>sys_sec := - 1\<rparr>) grp)
         of None \<Rightarrow> None
          | Some (ret, sys, grp) \<Rightarrow> Some (ret, sched_count ret sys, grp)))"
  by pat_completeness auto
termination
  by (relation "measure (\<lambda>(abi, clk, sys, grp). if sint (sys_sec sys) < 4 then 0 else 1)") auto

declare rds_get_next_group.simps [simp del]

subsection \<open>The abstract scheduler\<close>

text \<open>What the scheduler looks at, and the kinds of groups it asks for.\<close>

record sched_cfg =
  has_ps :: bool
  has_af :: bool
  has_label :: bool
  has_ptyn :: bool
  has_rt :: bool

definition cfg_of :: "rds_encoder_state \<Rightarrow> sched_cfg" where
  "cfg_of st =
     \<lparr>has_ps = (st_ps_set st \<noteq> 0), has_af = (st_af_set st \<noteq> 0),
      has_label = (st_ecc_set st \<noteq> 0 \<or> st_lic_set st \<noteq> 0), has_ptyn = (st_ptyn_set st \<noteq> 0),
      has_rt = (st_rt_set st \<noteq> 0)\<rparr>"

datatype kind = Tuning | Label | Ptyn | Rt | Ct

definition kind_group :: "sched_cfg \<Rightarrow> kind \<Rightarrow> uint8 \<times> uint8" where
  "kind_group cfg k =
     (case k of
        Tuning \<Rightarrow> if has_ps cfg then (0, if has_af cfg then 0 else 1) else (15, 1)
      | Label \<Rightarrow> (1, 0) | Ptyn \<Rightarrow> (10, 0) | Rt \<Rightarrow> (2, 0) | Ct \<Rightarrow> (4, 0))"

text \<open>The slot in the second, then the second and the minute.\<close>

definition slot :: "sched_cfg \<Rightarrow> int \<Rightarrow> kind \<times> int \<times> nat" where
  "slot cfg s =
     (if s < 4 then (Tuning, s + 1, 1)
      else if s < 5 \<and> has_label cfg then (Label, s + 1, 1)
      else if s < 7 \<and> has_ptyn cfg then (Ptyn, s + 1, 1)
      else if s < 12 \<and> has_rt cfg then (Rt, s + 1, 1)
      else (Tuning, 1, 2))"

type_synonym sched = "int \<times> nat"

definition sched_step :: "sched_cfg \<Rightarrow> sched \<Rightarrow> kind \<times> sched" where
  "sched_step cfg s =
     (case s of (sec, m) \<Rightarrow>
        if m \<ge> 720 then (Ct, sec, 0)
        else case slot cfg sec of (k, sec', n) \<Rightarrow> (k, sec', m + n))"

definition sched_ok :: "sched \<Rightarrow> bool" where
  "sched_ok s \<longleftrightarrow> 0 \<le> fst s \<and> fst s \<le> 12 \<and> snd s \<le> 721"

definition sched_of :: "rds_sys \<Rightarrow> sched" where
  "sched_of sys = (sint (sys_sec sys), unat (sys_min sys))"

lemma sched_step_ok: "sched_ok s \<Longrightarrow> sched_ok (snd (sched_step cfg s))"
  by (auto simp: sched_ok_def sched_step_def slot_def split: prod.splits)

subsection \<open>The code refines the abstract scheduler\<close>

lemma sint_add_1:
  assumes "sint (x :: 8 word) < 127"
  shows "sint (x + 1) = sint x + 1"
proof -
  have ge: "- 128 \<le> sint x" using sint_ge [of x] by simp
  have "x + 1 = of_int (sint x + 1)" by simp
  then have "sint (x + 1) = sint (of_int (sint x + 1) :: 8 word)" by (rule arg_cong)
  also have "\<dots> = sint x + 1"
    using ge assms by (simp only: signed_of_int) (simp add: signed_take_bit_int_eq_self)
  finally show ?thesis .
qed

lemma unat_add_1: "unat (x :: 16 word) < 65535 \<Longrightarrow> unat (x + 1) = unat x + 1"
  using unat_add_of_nat [of x 1] by simp

text \<open>A generated group does not depend on the counters and leaves them alone.\<close>

definition counters :: "8 word \<Rightarrow> uint16 \<Rightarrow> uint8 \<Rightarrow> rds_sys \<Rightarrow> rds_sys" where
  "counters a b c sys = sys\<lparr>sys_sec := a, sys_min := b, sys_ptyn_cnt := c\<rparr>"

lemma counters_simps [simp]:
  "sys_st (counters a b c sys) = sys_st sys" "sys_vcode (counters a b c sys) = sys_vcode sys"
  "sys_window (counters a b c sys) = sys_window sys" "sys_sec (counters a b c sys) = a"
  "sys_min (counters a b c sys) = b" "sys_ptyn_cnt (counters a b c sys) = c"
  "(counters a b c sys)\<lparr>sys_window := w\<rparr> = counters a b c (sys\<lparr>sys_window := w\<rparr>)"
  "counters a b c (counters d e f sys) = counters a b c sys"
  by (simp_all add: counters_def)

lemma group_next_counters: "group_next code version (counters a b c sys) = counters a b c (group_next code version sys)"
  by (simp add: group_next_def counters_def Let_def)

lemma group_infos_counters: "group_infos abi clk code version (counters a b c sys) = group_infos abi clk code version sys"
  by (simp add: group_infos_def Let_def)

lemma counters_self: "counters (sys_sec sys) (sys_min sys) (sys_ptyn_cnt sys) sys = sys"
  by (simp add: counters_def)

lemma group_next_keeps_counters [simp]:
  "sys_sec (group_next code version sys) = sys_sec sys" "sys_min (group_next code version sys) = sys_min sys"
  "sys_ptyn_cnt (group_next code version sys) = sys_ptyn_cnt sys"
  by (simp_all add: group_next_def Let_def)

text \<open>The encoder and the group after a supported group, counters apart.\<close>

definition gen_sys :: "char_abi \<Rightarrow> clock \<Rightarrow> uint8 \<times> uint8 \<Rightarrow> rds_sys \<Rightarrow> rds_sys" where
  "gen_sys abi clk cv sys =
     (group_next (fst cv) (snd cv) sys)
       \<lparr>sys_window := window_after (sys_window sys) (snd cv) (group_infos abi clk (fst cv) (snd cv) sys)\<rparr>"

definition gen_group :: "char_abi \<Rightarrow> clock \<Rightarrow> uint8 \<times> uint8 \<Rightarrow> rds_sys \<Rightarrow> rds_group" where
  "gen_group abi clk cv sys = sent_group (sys_window sys) (snd cv) (group_infos abi clk (fst cv) (snd cv) sys)"

lemma rds_generate_group_gen:
  "supported clk code version \<Longrightarrow>
   rds_generate_group abi clk code version sys grp =
     Some (0, gen_sys abi clk (code, version) sys, gen_group abi clk (code, version) sys)"
  by (simp add: rds_generate_group_supported gen_sys_def gen_group_def Let_def)

lemma gen_sys_counters:
  "gen_sys abi clk cv (counters a b c sys) = counters a b c (gen_sys abi clk cv sys)"
  "gen_group abi clk cv (counters a b c sys) = gen_group abi clk cv sys"
  by (simp_all add: gen_sys_def gen_group_def group_next_counters group_infos_counters)

lemma gen_sys_keeps [simp]:
  "sys_sec (gen_sys abi clk cv sys) = sys_sec sys" "sys_min (gen_sys abi clk cv sys) = sys_min sys"
  "sys_ptyn_cnt (gen_sys abi clk cv sys) = sys_ptyn_cnt sys"
  by (simp_all add: gen_sys_def)

definition tuning_cv :: "rds_encoder_state \<Rightarrow> uint8 \<times> uint8" where
  "tuning_cv st = kind_group (cfg_of st) Tuning"

lemma supported_kinds:
  "supported clk 0 0" "supported clk 0 1" "supported clk 15 1" "supported clk 1 0" "supported clk 2 0"
  "supported clk 10 0" "supported clk 4 0 = clock_ok clk"
  by (simp_all add: supported_def)

lemmas sched_unfold =
  rds_get_next_group.simps RDS_GROUP_VERSION_A_def RDS_GROUP_VERSION_B_def rds_generate_group_gen
  supported_kinds tuning_cv_def kind_group_def cfg_of_def

lemma sched_count_0:
  "sched_count 0 sys =
     counters (sys_sec sys + 1) (sys_min sys + 1) (if sys_ptyn_cnt sys \<ge> 2 then 0 else sys_ptyn_cnt sys) sys"
  by (simp add: sched_count_def counters_def)

text \<open>The first four slots.\<close>

lemma next_group_tuning:
  assumes "sys_min sys < 720" "sint (sys_sec sys) < 4"
  shows "rds_get_next_group abi clk sys grp =
    Some (0, sched_count 0 (gen_sys abi clk (tuning_cv (sys_st sys)) sys), gen_group abi clk (tuning_cv (sys_st sys)) sys)"
  using assms by (subst rds_get_next_group.simps) (simp add: sched_unfold(2-) Let_def not_le)

lemma ptyn_cnt_0:
  assumes "unat (c :: uint8) \<le> 1"
  shows "\<not> c \<ge> 2" "c < 2" "unat (if c + 1 \<ge> 2 then 0 else c + 1) \<le> 1"
proof -
  show "\<not> c \<ge> 2" "c < 2" using assms by (simp_all add: word_le_nat_alt word_less_nat_alt)
  have "unat (c + 1) = unat c + 1" using unat_add_of_nat [of c 1] assms by simp
  then show "unat (if c + 1 \<ge> 2 then 0 else c + 1) \<le> 1"
    by (auto simp: word_le_nat_alt)
qed

text \<open>The other slots.\<close>

lemma next_group_label:
  assumes "sys_min sys < 720" "\<not> sint (sys_sec sys) < 4" "sint (sys_sec sys) < 5" "has_label (cfg_of (sys_st sys))"
  shows "rds_get_next_group abi clk sys grp =
    Some (0, sched_count 0 (gen_sys abi clk (1, 0) sys), gen_group abi clk (1, 0) sys)"
  using assms by (subst rds_get_next_group.simps) (simp add: sched_unfold(2-) Let_def not_le)

lemma next_group_ptyn:
  assumes "sys_min sys < 720" "\<not> sint (sys_sec sys) < 4"
    and "\<not> (sint (sys_sec sys) < 5 \<and> has_label (cfg_of (sys_st sys)))"
    and "sint (sys_sec sys) < 7" "has_ptyn (cfg_of (sys_st sys))" "sys_ptyn_cnt sys < 2"
  shows "rds_get_next_group abi clk sys grp =
    Some (0, sched_count 0 ((gen_sys abi clk (10, 0) sys)\<lparr>sys_ptyn_cnt := sys_ptyn_cnt sys + 1\<rparr>),
          gen_group abi clk (10, 0) sys)"
  using assms by (subst rds_get_next_group.simps) (auto simp: sched_unfold(2-) Let_def not_le)

lemma next_group_rt:
  assumes "sys_min sys < 720" "\<not> sint (sys_sec sys) < 4"
    and "\<not> (sint (sys_sec sys) < 5 \<and> has_label (cfg_of (sys_st sys)))"
    and "\<not> (sint (sys_sec sys) < 7 \<and> has_ptyn (cfg_of (sys_st sys)))"
    and "sint (sys_sec sys) < 12" "has_rt (cfg_of (sys_st sys))"
  shows "rds_get_next_group abi clk sys grp =
    Some (0, sched_count 0 (gen_sys abi clk (2, 0) sys), gen_group abi clk (2, 0) sys)"
  using assms by (subst rds_get_next_group.simps) (auto simp: sched_unfold(2-) Let_def not_le)

text \<open>
  What a call does: the group of the slot, and the counters. \<open>next_sys\<close> is the encoder after it.
\<close>

definition next_ptyn_cnt :: "kind \<Rightarrow> uint8 \<Rightarrow> uint8" where
  "next_ptyn_cnt k c = (if k = Ptyn then (if c + 1 \<ge> 2 then 0 else c + 1) else c)"

definition next_sys :: "char_abi \<Rightarrow> clock \<Rightarrow> rds_sys \<Rightarrow> rds_sys" where
  "next_sys abi clk sys =
     (case sched_step (cfg_of (sys_st sys)) (sched_of sys) of
        (k, sec, m) \<Rightarrow>
          counters (of_int sec) (of_nat m) (next_ptyn_cnt k (sys_ptyn_cnt sys))
            (gen_sys abi clk (kind_group (cfg_of (sys_st sys)) k) sys))"

definition next_kind :: "rds_sys \<Rightarrow> kind" where
  "next_kind sys = fst (sched_step (cfg_of (sys_st sys)) (sched_of sys))"

lemma next_group_wrap:
  assumes m: "sys_min sys < 720" and s: "4 \<le> sint (sys_sec sys)" and c: "unat (sys_ptyn_cnt sys) \<le> 1"
    and k: "slot (cfg_of (sys_st sys)) (sint (sys_sec sys)) = (Tuning, 1, 2)"
  shows "rds_get_next_group abi clk sys grp =
    Some (0, counters 1 (sys_min sys + 2) (sys_ptyn_cnt sys) (gen_sys abi clk (tuning_cv (sys_st sys)) sys),
          gen_group abi clk (tuning_cv (sys_st sys)) sys)"
proof -
  let ?sys = "sys\<lparr>sys_sec := - 1\<rparr>" and ?cv = "tuning_cv (sys_st sys)"
  have eq: "?sys = counters (- 1) (sys_min sys) (sys_ptyn_cnt sys) sys" by (simp add: counters_def)
  have inner: "rds_get_next_group abi clk ?sys grp =
      Some (0, counters 0 (sys_min sys + 1) (sys_ptyn_cnt sys) (gen_sys abi clk ?cv sys), gen_group abi clk ?cv sys)"
    using next_group_tuning [of ?sys abi clk grp] m ptyn_cnt_0(1) [OF c]
    by (simp add: sched_count_0 eq gen_sys_counters)
  have "\<not> (sint (sys_sec sys) < 5 \<and> (st_ecc_set (sys_st sys) \<noteq> 0 \<or> st_lic_set (sys_st sys) \<noteq> 0))"
      "\<not> (sint (sys_sec sys) < 7 \<and> st_ptyn_set (sys_st sys) \<noteq> 0 \<and> sys_ptyn_cnt sys < 2)"
      "\<not> (sint (sys_sec sys) < 12 \<and> st_rt_set (sys_st sys) \<noteq> 0)"
    using k s by (auto simp: slot_def cfg_of_def split: if_splits)
  moreover have "\<not> sys_min sys \<ge> 720" "\<not> sint (sys_sec sys) < 4" using m s by simp_all
  ultimately have "rds_get_next_group abi clk sys grp =
      (case rds_get_next_group abi clk ?sys grp of
         None \<Rightarrow> None | Some (ret, sys, grp) \<Rightarrow> Some (ret, sched_count ret sys, grp))"
    by (subst rds_get_next_group.simps) (simp only: if_False Let_def)
  then show ?thesis
    using ptyn_cnt_0(1) [OF c] by (simp add: inner sched_count_0)
qed

lemma next_group_eq:
  assumes ok: "sched_ok (sched_of sys)" and c: "unat (sys_ptyn_cnt sys) \<le> 1"
    and clk: "next_kind sys = Ct \<Longrightarrow> clock_ok clk"
  shows "rds_get_next_group abi clk sys grp =
    Some (0, next_sys abi clk sys, gen_group abi clk (kind_group (cfg_of (sys_st sys)) (next_kind sys)) sys)"
proof (cases "sys_min sys \<ge> 720")
  case True
  then have "720 \<le> unat (sys_min sys)" by (simp add: word_le_nat_alt)
  then have step: "sched_step (cfg_of (sys_st sys)) (sched_of sys) = (Ct, sint (sys_sec sys), 0)"
    by (simp add: sched_step_def sched_of_def)
  then have "clock_ok clk" using clk by (simp add: next_kind_def)
  with True step show ?thesis
    by (subst rds_get_next_group.simps)
      (simp add: sched_unfold(2-) next_sys_def next_kind_def next_ptyn_cnt_def counters_def Let_def)
next
  case False
  let ?cfg = "cfg_of (sys_st sys)" and ?s = "sint (sys_sec sys)"
  have m: "unat (sys_min sys) < 720" "sys_min sys < 720"
    using False by (simp_all add: word_le_nat_alt word_less_nat_alt)
  obtain k s' n where slot: "slot ?cfg ?s = (k, s', n)" by (metis prod_cases3)
  have step: "sched_step ?cfg (sched_of sys) = (k, s', unat (sys_min sys) + n)"
    using m slot by (simp add: sched_step_def sched_of_def)
  note next_simps = next_sys_def next_kind_def step next_ptyn_cnt_def sched_count_0
    ptyn_cnt_0 [OF c] tuning_cv_def
  consider "?s < 4" | "4 \<le> ?s" "n = 1" | "4 \<le> ?s" "n = 2" "k = Tuning" "s' = 1"
    using slot by (auto simp: slot_def split: if_splits)
  then show ?thesis
  proof cases
    case 1
    with slot have "k = Tuning" "s' = ?s + 1" "n = 1" by (auto simp: slot_def)
    then show ?thesis
      using next_group_tuning [OF m(2) 1] by (simp add: next_simps)
  next
    case 2
    with slot have s': "s' = ?s + 1" by (auto simp: slot_def split: if_splits)
    have n4: "\<not> ?s < 4" using 2 by simp
    consider "k = Label" "?s < 5" "has_label ?cfg"
      | "k = Ptyn" "\<not> (?s < 5 \<and> has_label ?cfg)" "?s < 7" "has_ptyn ?cfg"
      | "k = Rt" "\<not> (?s < 5 \<and> has_label ?cfg)" "\<not> (?s < 7 \<and> has_ptyn ?cfg)" "?s < 12" "has_rt ?cfg"
      using slot 2 by (auto simp: slot_def split: if_splits)
    then show ?thesis
    proof cases
      case 1
      then show ?thesis
        using next_group_label [OF m(2) n4] by (simp add: next_simps s' 2 kind_group_def)
    next
      case 2
      then show ?thesis
        using next_group_ptyn [OF m(2) n4 2(2,3,4) ptyn_cnt_0(2) [OF c]] \<open>n = 1\<close>
        by (simp add: next_simps s' kind_group_def counters_def)
    next
      case 3
      then show ?thesis
        using next_group_rt [OF m(2) n4 3(2-5)] \<open>n = 1\<close> by (simp add: next_simps s' kind_group_def)
    qed
  next
    case 3
    then show ?thesis
      using next_group_wrap [OF m(2) 3(1) c] slot by (simp add: next_simps)
  qed
qed

lemma next_sys_sched:
  assumes "sched_ok (sched_of sys)" "unat (sys_ptyn_cnt sys) \<le> 1"
  shows "sched_of (next_sys abi clk sys) = snd (sched_step (cfg_of (sys_st sys)) (sched_of sys))"
    and "unat (sys_ptyn_cnt (next_sys abi clk sys)) \<le> 1"
proof -
  obtain k s m where step: "sched_step (cfg_of (sys_st sys)) (sched_of sys) = (k, s, m)"
    by (metis prod_cases3)
  have "sched_ok (s, m)" using sched_step_ok [OF assms(1), of "cfg_of (sys_st sys)"] step by simp
  then have "sint (of_int s :: 8 word) = s" "unat (of_nat m :: uint16) = m"
    by (simp_all add: sched_ok_def signed_of_int signed_take_bit_int_eq_self unat_of_nat)
  then show "sched_of (next_sys abi clk sys) = snd (sched_step (cfg_of (sys_st sys)) (sched_of sys))"
    unfolding next_sys_def step by (simp add: sched_of_def)
  show "unat (sys_ptyn_cnt (next_sys abi clk sys)) \<le> 1"
    using ptyn_cnt_0(3) [OF assms(2)] assms(2) by (simp add: next_sys_def step next_ptyn_cnt_def)
qed

lemma cfg_of_group_next [simp]: "cfg_of (sys_st (group_next code version sys)) = cfg_of (sys_st sys)"
  by (simp add: cfg_of_def group_next_def next_ps_idx_def next_af_idx_def next_rt_idx_def
      next_ptyn_idx_def Let_def)

lemma cfg_of_next_sys [simp]: "cfg_of (sys_st (next_sys abi clk sys)) = cfg_of (sys_st sys)"
  by (simp add: next_sys_def gen_sys_def split: prod.splits)

lemma next_sys_wf: "rds_state_wf abi (sys_st sys) \<Longrightarrow> rds_state_wf abi (sys_st (next_sys abi clk sys))"
  by (simp add: next_sys_def gen_sys_def group_next_wf split: prod.splits)

text \<open>Everything the encoder's thread relies on.\<close>

definition sys_ok :: "char_abi \<Rightarrow> rds_sys \<Rightarrow> bool" where
  "sys_ok abi sys \<longleftrightarrow>
     rds_state_wf abi (sys_st sys) \<and> sched_ok (sched_of sys) \<and> unat (sys_ptyn_cnt sys) \<le> 1"

lemma sys_ok_next: "sys_ok abi sys \<Longrightarrow> sys_ok abi (next_sys abi clk sys)"
  using next_sys_sched [of sys abi clk] by (simp add: sys_ok_def next_sys_wf sched_step_ok)

lemma sys_ok_init: "sys_ok abi rds_sys_init"
  by (simp add: sys_ok_def rds_sys_init_def rds_state_wf_zero sched_ok_def sched_of_def)

subsection \<open>Consecutive calls\<close>

fun sched_run :: "sched_cfg \<Rightarrow> nat \<Rightarrow> sched \<Rightarrow> kind list" where
  "sched_run cfg 0 s = []"
| "sched_run cfg (Suc n) s = (case sched_step cfg s of (k, s') \<Rightarrow> k # sched_run cfg n s')"

fun slot_run :: "sched_cfg \<Rightarrow> nat \<Rightarrow> int \<Rightarrow> kind list" where
  "slot_run cfg 0 s = []"
| "slot_run cfg (Suc n) s = (case slot cfg s of (k, s', _) \<Rightarrow> k # slot_run cfg n s')"

lemma length_sched_run [simp]: "length (sched_run cfg n s) = n"
  by (induction n arbitrary: s) (simp_all split: prod.splits)

lemma slot_not_ct: "fst (slot cfg s) \<noteq> Ct"
  by (simp add: slot_def)

lemma slot_count: "snd (snd (slot cfg s)) \<le> 2" "0 < snd (snd (slot cfg s))"
  by (simp_all add: slot_def)

text \<open>Without a clock group in between, the calls follow the slots of the second.\<close>

lemma sched_run_slots: "m + 2 * n < 722 \<Longrightarrow> sched_run cfg n (s, m) = slot_run cfg n s"
proof (induction n arbitrary: s m)
  case (Suc n)
  obtain k s' c where slot: "slot cfg s = (k, s', c)" by (metis prod_cases3)
  have "c \<le> 2" using slot_count [of cfg s] slot by simp
  with Suc.prems have "m + c + 2 * n < 722" by simp
  from Suc.IH [OF this] show ?case using Suc.prems slot by (simp add: sched_step_def)
qed simp

text \<open>Up to 360 calls contain at most one clock group; the others follow the slots.\<close>

lemma sched_run_ct:
  "n \<le> 360 \<Longrightarrow> filter (\<lambda>k. k \<noteq> Ct) (sched_run cfg n (s, m)) = slot_run cfg n s \<or>
     filter (\<lambda>k. k \<noteq> Ct) (sched_run cfg n (s, m)) = slot_run cfg (n - 1) s \<and> 0 < n"
proof (induction n arbitrary: s m)
  case (Suc n)
  show ?case
  proof (cases "720 \<le> m")
    case True
    have "sched_run cfg n (s, 0) = slot_run cfg n s"
      using Suc.prems by (intro sched_run_slots) simp
    moreover have "filter (\<lambda>k. k \<noteq> Ct) (slot_run cfg n s) = slot_run cfg n s" for n s
      using slot_not_ct by (induction n arbitrary: s) (auto split: prod.splits, metis fst_conv)
    ultimately show ?thesis using True by (simp add: sched_step_def)
  next
    case False
    obtain k s' c where slot: "slot cfg s = (k, s', c)" by (metis prod_cases3)
    have "k \<noteq> Ct" using slot_not_ct [of cfg s] slot by simp
    then show ?thesis
      using Suc.IH [of s' "m + c"] Suc.prems False slot
      by (cases n) (auto simp: sched_step_def)
  qed
qed simp

subsection \<open>The slots of a second\<close>

definition kinds :: "kind \<Rightarrow> kind list \<Rightarrow> nat" where
  "kinds k ks = length (filter (\<lambda>x. x = k) ks)"

lemma kinds_simps [simp]:
  "kinds k [] = 0" "kinds k (x # xs) = (if x = k then 1 else 0) + kinds k xs"
  "kinds k (xs @ ys) = kinds k xs + kinds k ys"
  by (simp_all add: kinds_def)

lemma kinds_filter: "k \<noteq> Ct \<Longrightarrow> kinds k (filter (\<lambda>k. k \<noteq> Ct) ks) = kinds k ks"
  by (induction ks) simp_all

text \<open>
  Twelve slots from any position, with a radio text set: evaluated for every position and every
  combination of optional fields.
\<close>

definition cfg_rt :: "bool \<Rightarrow> bool \<Rightarrow> sched_cfg" where
  "cfg_rt l p = \<lparr>has_ps = True, has_af = False, has_label = l, has_ptyn = p, has_rt = True\<rparr>"

definition rt_cycle_ok :: bool where
  "rt_cycle_ok \<longleftrightarrow>
     list_all (\<lambda>s. list_all (\<lambda>l. list_all (\<lambda>p.
        let ks = slot_run (cfg_rt l p) 12 s
        in kinds Tuning ks \<ge> 4 \<and> kinds Rt ks \<ge> 5 \<and>
           (s > 0 \<longrightarrow> kinds Tuning ks = 4 \<and> kinds Label ks = (if l then 1 else 0) \<and>
              kinds Ptyn ks = (if p then (if l then 2 else 3) else 0)))
        [False, True]) [False, True]) [0, 1, 2, 3, 4, 5, 6, 7, 8, 9, 10, 11, 12]"

lemma rt_cycle_ok: rt_cycle_ok
  by code_simp

lemma slot_cfg_rt: "has_rt cfg \<Longrightarrow> slot cfg s = slot (cfg_rt (has_label cfg) (has_ptyn cfg)) s"
  by (simp add: slot_def cfg_rt_def)

lemma slot_run_cfg_rt:
  "has_rt cfg \<Longrightarrow> slot_run cfg n s = slot_run (cfg_rt (has_label cfg) (has_ptyn cfg)) n s"
proof (induction n arbitrary: s)
  case (Suc n)
  then show ?case by (simp add: slot_cfg_rt [of cfg s])
qed simp

lemma sec_range: "0 \<le> (s :: int) \<Longrightarrow> s \<le> 12 \<Longrightarrow> s \<in> set [0, 1, 2, 3, 4, 5, 6, 7, 8, 9, 10, 11, 12]"
  by simp arith

lemma rt_cycle_at:
  assumes "0 \<le> s" "s \<le> 12"
  shows "let ks = slot_run (cfg_rt l p) 12 s
    in kinds Tuning ks \<ge> 4 \<and> kinds Rt ks \<ge> 5 \<and>
       (s > 0 \<longrightarrow> kinds Tuning ks = 4 \<and> kinds Label ks = (if l then 1 else 0) \<and>
          kinds Ptyn ks = (if p then (if l then 2 else 3) else 0))"
proof -
  have "l \<in> set [False, True]" "p \<in> set [False, True]" by simp_all
  then show ?thesis
    using rt_cycle_ok [unfolded rt_cycle_ok_def list_all_iff] sec_range [OF assms] by blast
qed

lemma rt_second:
  assumes "has_rt cfg" "0 \<le> s" "s \<le> 12"
  shows "4 \<le> kinds Tuning (slot_run cfg 12 s)" "5 \<le> kinds Rt (slot_run cfg 12 s)"
  using rt_cycle_at [OF assms(2,3), of "has_label cfg" "has_ptyn cfg"]
  by (simp_all add: slot_run_cfg_rt [OF assms(1)] Let_def)

lemma rt_second_exact:
  assumes "has_rt cfg" "1 \<le> s" "s \<le> 12"
  shows "kinds Tuning (slot_run cfg 12 s) = 4"
    "kinds Label (slot_run cfg 12 s) = (if has_label cfg then 1 else 0)"
    "kinds Ptyn (slot_run cfg 12 s) = (if has_ptyn cfg then (if has_label cfg then 2 else 3) else 0)"
  using rt_cycle_at [of s "has_label cfg" "has_ptyn cfg"] assms
  by (simp_all add: slot_run_cfg_rt [OF assms(1)] Let_def)

lemma slot_range: "0 \<le> s \<Longrightarrow> s \<le> 12 \<Longrightarrow> 0 \<le> fst (snd (slot cfg s)) \<and> fst (snd (slot cfg s)) \<le> 12"
  by (simp add: slot_def)

fun slot_pos :: "sched_cfg \<Rightarrow> nat \<Rightarrow> int \<Rightarrow> int" where
  "slot_pos cfg 0 s = s"
| "slot_pos cfg (Suc n) s = slot_pos cfg n (fst (snd (slot cfg s)))"

lemma slot_pos_range: "0 \<le> s \<Longrightarrow> s \<le> 12 \<Longrightarrow> 0 \<le> slot_pos cfg n s \<and> slot_pos cfg n s \<le> 12"
  by (induction n arbitrary: s) (simp_all add: slot_range)

lemma slot_run_add: "slot_run cfg (m + n) s = slot_run cfg m s @ slot_run cfg n (slot_pos cfg m s)"
  by (induction m arbitrary: s) (simp_all split: prod.splits)

lemma slots_rt:
  assumes "has_rt cfg" "0 \<le> s" "s \<le> 12"
  shows "5 * q \<le> kinds Rt (slot_run cfg (12 * q + r) s) \<and> 4 * q \<le> kinds Tuning (slot_run cfg (12 * q + r) s)"
  using assms(2,3)
proof (induction q arbitrary: s)
  case (Suc q)
  have pos: "0 \<le> slot_pos cfg 12 s" "slot_pos cfg 12 s \<le> 12" using slot_pos_range Suc.prems by auto
  have "slot_run cfg (12 * Suc q + r) s = slot_run cfg 12 s @ slot_run cfg (12 * q + r) (slot_pos cfg 12 s)"
    using slot_run_add [of cfg 12 "12 * q + r" s] by (simp add: add.assoc)
  then show ?case
    using Suc.IH [OF pos] rt_second [OF assms(1) Suc.prems] by simp
qed simp

text \<open>
  Any stretch of \<open>12 q + 1\<close> calls, at most one of them for the clock, has at least \<open>5 q\<close> radio text
  groups and \<open>4 q\<close> tuning groups.
\<close>

lemma sched_run_rt:
  assumes "has_rt cfg" "sched_ok s" "12 * q + 1 \<le> n" "n \<le> 360"
  shows "5 * q \<le> kinds Rt (sched_run cfg n s) \<and> 4 * q \<le> kinds Tuning (sched_run cfg n s)"
proof -
  obtain sec m where s: "s = (sec, m)" by (cases s)
  have sec: "0 \<le> sec" "sec \<le> 12" using assms(2) by (simp_all add: sched_ok_def s)
  obtain r where n: "n = 12 * q + (r + 1)" using assms(3) by (metis add.assoc add.commute le_Suc_ex)
  have "n - 1 = 12 * q + r" using n by simp
  then have "5 * q \<le> kinds Rt (filter (\<lambda>k. k \<noteq> Ct) (sched_run cfg n s)) \<and>
      4 * q \<le> kinds Tuning (filter (\<lambda>k. k \<noteq> Ct) (sched_run cfg n s))"
    using sched_run_ct [OF assms(4), of cfg sec m] slots_rt [OF assms(1) sec, of q r]
      slots_rt [OF assms(1) sec, of q "r + 1"] n s by auto
  then show ?thesis by (simp add: kinds_filter)
qed

lemma sched_run_has_ct:
  "720 \<le> m + n \<Longrightarrow> Ct \<in> set (sched_run cfg (Suc n) (s, m))"
proof (induction n arbitrary: s m)
  case (Suc n)
  show ?case
  proof (cases "720 \<le> m")
    case False
    obtain k s' c where slot: "slot cfg s = (k, s', c)" by (metis prod_cases3)
    have "0 < c" using slot_count(2) [of cfg s] slot by simp
    then have "Ct \<in> set (sched_run cfg (Suc n) (s', m + c))" using Suc by simp
    then show ?thesis
      using False slot by (subst sched_run.simps) (simp add: sched_step_def del: sched_run.simps)
  qed (simp add: sched_step_def)
qed (simp add: sched_step_def)

subsection \<open>On the air\<close>

text \<open>Consecutive calls of the scheduler, one clock reading each, received group by group.\<close>

fun on_air :: "char_abi \<Rightarrow> clock list \<Rightarrow> link \<Rightarrow> link" where
  "on_air abi [] s = s"
| "on_air abi (clk # clks) (sys, rx) =
     (case rds_get_next_group abi clk sys group_zero of
        None \<Rightarrow> (sys, rx)
      | Some (ret, sys', g) \<Rightarrow>
          on_air abi clks (sys', if ret < 0 then rx else rx_step (map infoword (blocks g)) rx))"

definition sched_events :: "sched_cfg \<Rightarrow> clock list \<Rightarrow> sched \<Rightarrow> group_event list" where
  "sched_events cfg clks s = map2 (\<lambda>clk k. (clk, kind_group cfg k)) clks (sched_run cfg (length clks) s)"

lemma sched_events_Cons:
  "sched_events cfg (clk # clks) s =
     (clk, kind_group cfg (fst (sched_step cfg s))) # sched_events cfg clks (snd (sched_step cfg s))"
  by (simp add: sched_events_def split: prod.splits)

lemma kind_supported: "clock_ok clk \<Longrightarrow> supported clk (fst (kind_group cfg k)) (snd (kind_group cfg k))"
  by (cases k) (auto simp: kind_group_def supported_def)

lemma sched_events_ok: "list_all clock_ok clks \<Longrightarrow> list_all event_ok (sched_events cfg clks s)"
proof (induction clks arbitrary: s)
  case (Cons clk clks)
  then show ?case
    using kind_supported [of clk cfg "fst (sched_step cfg s)"]
    by (simp add: sched_events_Cons event_ok_def case_prod_beta)
qed (simp add: sched_events_def)

lemma transmit_counters:
  assumes "supported clk code version"
  shows "transmit abi (counters a b c sys, rx) (clk, code, version) =
    (counters a b c (fst (transmit abi (sys, rx) (clk, code, version))),
     snd (transmit abi (sys, rx) (clk, code, version)))"
  using assms
  by (simp add: transmit_eq event_ok_def group_next_counters group_infos_counters)

lemma transmit_gen:
  "supported clk code version \<Longrightarrow>
   transmit abi (sys, rx) (clk, code, version) =
     (gen_sys abi clk (code, version) sys, rx_step (group_infos abi clk code version sys) rx)"
  by (simp add: transmit_eq event_ok_def gen_sys_def)

lemma foldl_transmit_counters:
  "list_all event_ok es \<Longrightarrow>
   snd (foldl (transmit abi) (counters a b c sys, rx) es) = snd (foldl (transmit abi) (sys, rx) es)"
proof (induction es arbitrary: sys rx)
  case (Cons e es)
  obtain clk code version where e: "e = (clk, code, version)" by (cases e)
  with Cons.prems have "supported clk code version" by (simp add: event_ok_def)
  then show ?case
    using Cons by (simp add: e transmit_counters [of clk code version])
qed simp

lemma on_air_transmit:
  assumes "sys_ok abi sys" "list_all clock_ok clks"
  shows "snd (on_air abi clks (sys, rx)) =
    snd (foldl (transmit abi) (sys, rx) (sched_events (cfg_of (sys_st sys)) clks (sched_of sys)))"
  using assms
proof (induction clks arbitrary: sys rx)
  case (Cons clk clks)
  let ?cfg = "cfg_of (sys_st sys)"
  obtain code version where cv: "kind_group ?cfg (next_kind sys) = (code, version)" by force
  have sup: "supported clk code version"
    using kind_supported [of clk ?cfg "next_kind sys"] cv Cons.prems by simp
  have nx: "rds_get_next_group abi clk sys group_zero =
      Some (0, next_sys abi clk sys, gen_group abi clk (code, version) sys)"
    using next_group_eq [of sys clk abi group_zero] Cons.prems cv by (simp add: sys_ok_def)
  obtain a b c where ns: "next_sys abi clk sys = counters a b c (gen_sys abi clk (code, version) sys)"
    using cv by (cases "sched_step ?cfg (sched_of sys)") (auto simp: next_sys_def next_kind_def)
  have ok: "sys_ok abi (next_sys abi clk sys)" using Cons.prems by (simp add: sys_ok_next)
  let ?rx = "rx_step (group_infos abi clk code version sys) rx"
  let ?es = "sched_events ?cfg clks (snd (sched_step ?cfg (sched_of sys)))"
  have "snd (on_air abi (clk # clks) (sys, rx)) = snd (on_air abi clks (next_sys abi clk sys, ?rx))"
    by (simp add: nx gen_group_def)
  also have "\<dots> = snd (foldl (transmit abi) (next_sys abi clk sys, ?rx) ?es)"
    using Cons.IH [OF ok] Cons.prems next_sys_sched(1) [of sys abi clk] by (simp add: sys_ok_def)
  also have "\<dots> = snd (foldl (transmit abi) (gen_sys abi clk (code, version) sys, ?rx) ?es)"
    unfolding ns using Cons.prems by (intro foldl_transmit_counters sched_events_ok) simp
  finally show ?case
    using cv by (simp add: sched_events_Cons next_kind_def transmit_gen [OF sup])
qed (simp add: sched_events_def)

text \<open>The types of the groups of consecutive calls, as a receiver reads them from block 2.\<close>

fun call_codes :: "char_abi \<Rightarrow> clock list \<Rightarrow> rds_sys \<Rightarrow> nat list" where
  "call_codes abi [] sys = []"
| "call_codes abi (clk # clks) sys =
     (case rds_get_next_group abi clk sys group_zero of
        None \<Rightarrow> []
      | Some (ret, sys', g) \<Rightarrow> blk2_code (infoword (blocks g ! 1)) # call_codes abi clks sys')"

lemma group_infos_code:
  assumes "supported clk code version"
  shows "blk2_code (group_infos abi clk code version sys ! 1) = unat code"
  using assms
  by (auto simp: supported_def group_infos_def header_simps header_simps_0 low5_infos low5_ct Let_def)

lemma gen_group_code:
  assumes "supported clk code version"
  shows "blk2_code (infoword (blocks (gen_group abi clk (code, version) sys) ! 1)) = unat code"
proof -
  let ?g = "gen_group abi clk (code, version) sys"
  have "length (blocks ?g) = 4"
    using group_shape_sent by (simp add: gen_group_def group_shape_def)
  then have "infoword (blocks ?g ! 1) = map infoword (blocks ?g) ! 1" by simp
  also have "\<dots> = group_infos abi clk code version sys ! 1" by (simp add: gen_group_def del: nth_map)
  finally show ?thesis using group_infos_code [OF assms] by simp
qed

lemma call_codes_eq:
  assumes "sys_ok abi sys" "list_all clock_ok clks"
  shows "call_codes abi clks sys =
    map (\<lambda>k. unat (fst (kind_group (cfg_of (sys_st sys)) k)))
      (sched_run (cfg_of (sys_st sys)) (length clks) (sched_of sys))"
  using assms
proof (induction clks arbitrary: sys)
  case (Cons clk clks)
  let ?cfg = "cfg_of (sys_st sys)"
  obtain code version where cv: "kind_group ?cfg (next_kind sys) = (code, version)" by force
  have sup: "supported clk code version"
    using kind_supported [of clk ?cfg "next_kind sys"] cv Cons.prems by simp
  have "rds_get_next_group abi clk sys group_zero =
      Some (0, next_sys abi clk sys, gen_group abi clk (code, version) sys)"
    using next_group_eq [of sys clk abi group_zero] Cons.prems cv by (simp add: sys_ok_def)
  then show ?case
    using Cons.IH [OF sys_ok_next] Cons.prems next_sys_sched(1) [of sys abi clk] cv
    by (cases "sched_step ?cfg (sched_of sys)")
      (simp add: gen_group_code [OF sup, simplified] sys_ok_def next_kind_def)
qed simp

lemma kind_group_codes:
  "unat (fst (kind_group cfg k)) = 2 \<longleftrightarrow> k = Rt" "unat (fst (kind_group cfg k)) = 10 \<longleftrightarrow> k = Ptyn"
  "unat (fst (kind_group cfg k)) = 0 \<or> unat (fst (kind_group cfg k)) = 15 \<longleftrightarrow> k = Tuning"
  "unat (fst (kind_group cfg k)) = 4 \<longleftrightarrow> k = Ct"
  by (cases k; simp add: kind_group_def)+

text \<open>How many events of a kind the calls make.\<close>

lemma count_events:
  "length (filter (\<lambda>e. P (event_code e)) (sched_events cfg clks s)) =
   length (filter (\<lambda>k. P (fst (kind_group cfg k))) (sched_run cfg (length clks) s))"
proof (induction clks arbitrary: s)
  case (Cons clk clks)
  then show ?case by (simp add: sched_events_Cons event_code_def split: prod.splits)
qed (simp add: sched_events_def)

lemma count_rt:
  "length (filter (\<lambda>e. event_code e = 2) (sched_events cfg clks s)) = kinds Rt (sched_run cfg (length clks) s)"
proof -
  have "fst (kind_group cfg k) = 2 \<longleftrightarrow> k = Rt" for k by (cases k) (simp_all add: kind_group_def)
  then show ?thesis using count_events [of "\<lambda>c. c = 2"] by (simp add: kinds_def)
qed

lemma count_ps:
  assumes "has_ps cfg"
  shows "length (filter (\<lambda>e. event_code e = 0) (sched_events cfg clks s)) = kinds Tuning (sched_run cfg (length clks) s)"
    and "list_all (\<lambda>e. event_code e \<noteq> 15) (sched_events cfg clks s)"
proof -
  have "fst (kind_group cfg k) = 0 \<longleftrightarrow> k = Tuning" for k
    using assms by (cases k) (simp_all add: kind_group_def)
  then show "length (filter (\<lambda>e. event_code e = 0) (sched_events cfg clks s)) =
      kinds Tuning (sched_run cfg (length clks) s)"
    using count_events [of "\<lambda>c. c = 0"] by (simp add: kinds_def)
  have "fst (kind_group cfg k) \<noteq> 15" for k using assms by (cases k) (simp_all add: kind_group_def)
  then show "list_all (\<lambda>e. event_code e \<noteq> 15) (sched_events cfg clks s)"
    by (induction clks arbitrary: s) (simp_all add: sched_events_def event_code_def split: prod.splits)
qed

subsection \<open>Properties\<close>

text \<open>
  C6: the scheduler refines the abstract one. From a well-formed encoder every call returns 0 with
  a complete group: the group of the abstract scheduler's slot, with the information words of that
  group, and the encoder's counters follow the abstract ones, so that the 8 and 16 bit counters
  never overflow. A call needs the clock only when the abstract scheduler asks for a clock group.
\<close>

theorem rds_get_next_group_refines:
  assumes "sys_ok abi sys" "sched_step (cfg_of (sys_st sys)) (sched_of sys) = (k, s')"
    and "kind_group (cfg_of (sys_st sys)) k = (code, version)" "k = Ct \<Longrightarrow> clock_ok clk"
  shows "\<exists>sys' g'. rds_get_next_group abi clk sys grp = Some (0, sys', g') \<and> sys_ok abi sys' \<and>
           sched_of sys' = s' \<and> group_shape g' \<and>
           rds_generate_group abi clk code version sys grp =
             Some (0, counters (sys_sec sys) (sys_min sys) (sys_ptyn_cnt sys) sys', g')"
proof -
  have k: "next_kind sys = k" using assms(2) by (simp add: next_kind_def)
  have "supported clk code version"
    using assms(3,4) by (cases k) (auto simp: kind_group_def supported_def split: if_splits)
  then have gen: "rds_generate_group abi clk code version sys grp =
      Some (0, gen_sys abi clk (code, version) sys, gen_group abi clk (code, version) sys)"
    by (rule rds_generate_group_gen)
  have "counters (sys_sec sys) (sys_min sys) (sys_ptyn_cnt sys) (next_sys abi clk sys) =
      gen_sys abi clk (code, version) sys"
    using assms(2,3) counters_self [of "gen_sys abi clk (code, version) sys"]
    by (cases s') (simp add: next_sys_def)
  then show ?thesis
    using next_group_eq [of sys clk abi grp] sys_ok_next [OF assms(1), of clk] k gen assms
      next_sys_sched(1) [of sys abi clk]
    by (simp add: sys_ok_def gen_group_def)
qed

theorem rds_get_next_group_refines_witness:
  "\<exists>sys' g'. rds_get_next_group Signed_Char example_clock rds_sys_init group_zero = Some (0, sys', g') \<and>
     sys_ok Signed_Char sys' \<and> sched_of sys' = (1, 1) \<and> group_shape g'"
proof -
  have "sched_step (cfg_of (sys_st rds_sys_init)) (sched_of rds_sys_init) = (Tuning, 1, 1)"
    "kind_group (cfg_of (sys_st rds_sys_init)) Tuning = (15, 1)"
    by (simp_all add: sched_step_def sched_of_def slot_def rds_sys_init_def rds_state_zero_def
        kind_group_def cfg_of_def)
  from rds_get_next_group_refines [OF sys_ok_init [of Signed_Char] this, of example_clock group_zero]
  show ?thesis by auto
qed

text \<open>
  When the clock cannot be read, a due clock group fails with a negative result and changes
  nothing: the next call tries it again.
\<close>

theorem rds_get_next_group_clock_error:
  assumes "sys_min sys \<ge> 720" "\<not> clock_ok clk"
  shows "\<exists>ret g'. rds_get_next_group abi clk sys grp = Some (ret, sys, g') \<and> ret < 0"
proof -
  obtain ret where "ret < 0" "fill_group abi clk 4 0 sys (group_header (sys_st sys) 4 0) =
      (ret, sys, group_header (sys_st sys) 4 0)"
    using fill_group_4A_fails [OF assms(2)] by blast
  with assms(1) show ?thesis
    by (subst rds_get_next_group.simps)
      (simp add: rds_generate_group_def RDS_GROUP_VERSION_A_def RDS_GROUP_VERSION_B_def)
qed

theorem rds_get_next_group_clock_error_witness:
  "\<exists>ret g'. rds_get_next_group Signed_Char \<lparr>now = 366 * 2 ^ 32 * 86400, utc_offset = \<lambda>_. 0\<rparr>
     (rds_sys_init\<lparr>sys_min := 720\<rparr>) group_zero = Some (ret, rds_sys_init\<lparr>sys_min := 720\<rparr>, g') \<and> ret < 0"
  by (rule rds_get_next_group_clock_error) (simp_all add: clock_ok_def gmtime_r_far)

text \<open>
  With a radio text set, any 13 consecutive groups (about a second on the air) contain at least
  four groups with the programme service name or the tuning flags and at least five radio text groups,
  whatever else is set and whether or not the clock group is due.
\<close>

theorem sched_second:
  assumes "sys_ok abi sys" "st_rt_set (sys_st sys) \<noteq> 0" "list_all clock_ok clks" "length clks = 13"
  shows "5 \<le> length (filter (\<lambda>c. c = 2) (call_codes abi clks sys)) \<and>
         4 \<le> length (filter (\<lambda>c. c = 0 \<or> c = 15) (call_codes abi clks sys))"
  using sched_run_rt [of "cfg_of (sys_st sys)" "sched_of sys" 1 13] assms
  by (simp add: call_codes_eq [OF assms(1,3)] filter_map comp_def kind_group_codes sys_ok_def
      cfg_of_def kinds_def)

theorem sched_second_witness:
  "5 \<le> length (filter (\<lambda>c. c = 2) (call_codes Signed_Char (replicate 13 example_clock)
     (rds_sys_init\<lparr>sys_st := rds_state_zero\<lparr>st_rt_set := 1\<rparr>\<rparr>)))"
proof -
  let ?sys = "rds_sys_init\<lparr>sys_st := rds_state_zero\<lparr>st_rt_set := 1\<rparr>\<rparr>"
  have "sys_ok Signed_Char ?sys"
    using sys_ok_init [of Signed_Char]
    by (simp add: sys_ok_def rds_sys_init_def rds_state_wf_def sched_of_def)
  from sched_second [OF this, of "replicate 13 example_clock"] show ?thesis
    by (simp add: list_all_iff clock_ok_example del: replicate.simps)
qed

text \<open>
  C1: everything reaches the receiver. With a name and a radio text set, the receiver has the whole
  name and the whole stored text (all its segments) after at most 37 calls of the scheduler (about
  three seconds), from every state of the encoder's counters and whatever the receiver had before.
\<close>

theorem on_air_complete:
  assumes "sys_ok abi sys" "rx_ok rx" "list_all clock_ok clks" "37 \<le> length clks" "length clks \<le> 360"
    and "st_ps_set (sys_st sys) \<noteq> 0" "st_rt_set (sys_st sys) \<noteq> 0"
  shows "rx_ps (snd (on_air abi clks (sys, rx))) = st_ps (sys_st sys) \<and>
         take (4 * rt_size (sys, rx)) (rx_rt (snd (on_air abi clks (sys, rx)))) =
           take (4 * rt_size (sys, rx)) (st_rt (sys_st sys))"
proof -
  let ?cfg = "cfg_of (sys_st sys)"
  let ?es = "sched_events ?cfg clks (sched_of sys)"
  have ok: "link_ok abi (sys, rx)" using assms(1,2) by (simp add: sys_ok_def link_okI)
  have es: "list_all event_ok ?es" using assms(3) by (rule sched_events_ok)
  have cfg: "has_rt ?cfg" "has_ps ?cfg" using assms(6,7) by (simp_all add: cfg_of_def)
  have "5 * 3 \<le> kinds Rt (sched_run ?cfg (length clks) (sched_of sys)) \<and>
      4 * 3 \<le> kinds Tuning (sched_run ?cfg (length clks) (sched_of sys))"
    using assms(1,4,5) cfg by (intro sched_run_rt) (simp_all add: sys_ok_def)
  then have n: "rt_size (sys, rx) \<le> length (filter (\<lambda>e. event_code e = 2) ?es)"
      "4 \<le> length (filter (\<lambda>e. event_code e = 0) ?es)"
    using rt_size_le [of "(sys, rx)"] by (simp_all add: count_rt count_ps [OF cfg(2)])
  have "list_all ps_event_ok ?es"
    using es count_ps(2) [OF cfg(2)] by (simp add: ps_event_ok_def list_all_iff)
  from ps_received_lemma [OF ok this n(2)] rt_received_lemma [OF ok es n(1)] show ?thesis
    by (simp add: on_air_transmit [OF assms(1,3)])
qed

theorem on_air_complete_witness:
  "rx_ps (snd (on_air Signed_Char (replicate 37 example_clock)
     (rds_sys_init\<lparr>sys_st := rds_state_zero\<lparr>st_ps := replicate 8 0x41, st_ps_set := 1, st_rt_set := 1\<rparr>\<rparr>, rx_init))) =
   replicate 8 0x41"
proof -
  let ?st = "rds_state_zero\<lparr>st_ps := replicate 8 0x41, st_ps_set := 1, st_rt_set := 1\<rparr>"
  have "char_ok Signed_Char 0x41" by (simp add: char_ok_def char_int_def)
  then have "sys_ok Signed_Char (rds_sys_init\<lparr>sys_st := ?st\<rparr>)"
    using sys_ok_init [of Signed_Char]
    by (simp add: sys_ok_def rds_sys_init_def rds_state_wf_def sched_of_def list_all_iff)
  from on_air_complete [OF this rx_ok_init, of "replicate 37 example_clock"] show ?thesis
    by (simp add: list_all_iff clock_ok_example)
qed

text \<open>
  The programme type name is sent twice per second as the comment in the code says when labels
  are sent too, but three times when neither a country code nor a language is set: the counter that
  should limit it is reset in the same call in which it reaches its limit.
\<close>

theorem ptyn_groups_per_second:
  assumes "sys_ok abi sys" "list_all clock_ok clks" "length clks = 12"
    and "1 \<le> sint (sys_sec sys)" "unat (sys_min sys) < 690"
    and "st_rt_set (sys_st sys) \<noteq> 0" "st_ptyn_set (sys_st sys) \<noteq> 0"
  shows "length (filter (\<lambda>c. c = 10) (call_codes abi clks sys)) =
           (if st_ecc_set (sys_st sys) \<noteq> 0 \<or> st_lic_set (sys_st sys) \<noteq> 0 then 2 else 3)"
proof -
  let ?cfg = "cfg_of (sys_st sys)" and ?s = "sint (sys_sec sys)"
  have "sched_run ?cfg 12 (sched_of sys) = slot_run ?cfg 12 ?s"
    unfolding sched_of_def using assms(5) by (intro sched_run_slots) simp
  moreover have "kinds Ptyn (slot_run ?cfg 12 ?s) = (if has_label ?cfg then 2 else 3)"
    using rt_second_exact(3) [of ?cfg ?s] assms by (simp add: sys_ok_def sched_ok_def sched_of_def cfg_of_def)
  ultimately show ?thesis
    using assms(3) by (simp add: call_codes_eq [OF assms(1,2)] filter_map comp_def kind_group_codes
        kinds_def) (simp add: cfg_of_def)
qed

theorem ptyn_groups_per_second_witness:
  "length (filter (\<lambda>c. c = 10) (call_codes Signed_Char (replicate 12 example_clock)
     (rds_sys_init\<lparr>sys_sec := 1, sys_st := rds_state_zero\<lparr>st_rt_set := 1, st_ptyn_set := 1\<rparr>\<rparr>))) = 3"
proof -
  let ?sys = "rds_sys_init\<lparr>sys_sec := 1, sys_st := rds_state_zero\<lparr>st_rt_set := 1, st_ptyn_set := 1\<rparr>\<rparr>"
  have ok: "sys_ok Signed_Char ?sys"
    using sys_ok_init [of Signed_Char]
    by (simp add: sys_ok_def rds_sys_init_def rds_state_wf_def sched_of_def sched_ok_def)
  have "length (filter (\<lambda>c. c = 10) (call_codes Signed_Char (replicate 12 example_clock) ?sys)) =
      (if st_ecc_set (sys_st ?sys) \<noteq> 0 \<or> st_lic_set (sys_st ?sys) \<noteq> 0 then 2 else 3)"
    by (rule ptyn_groups_per_second [OF ok])
      (simp_all add: list_all_iff clock_ok_example rds_sys_init_def)
  then show ?thesis by (simp add: rds_state_zero_def)
qed

text \<open>
  The clock is sent again and again: any 721 consecutive calls contain a 4A group.
\<close>

theorem clock_group_recurs:
  assumes "sys_ok abi sys" "list_all clock_ok clks" "721 \<le> length clks"
  shows "4 \<in> set (call_codes abi clks sys)"
proof -
  let ?cfg = "cfg_of (sys_st sys)"
  obtain n where n: "length clks = Suc n" "720 \<le> n" using assms(3) by (cases "length clks") auto
  then have "Ct \<in> set (sched_run ?cfg (length clks) (sched_of sys))"
    using sched_run_has_ct [of "unat (sys_min sys)" n ?cfg "sint (sys_sec sys)"]
    by (simp add: sched_of_def del: sched_run.simps)
  moreover have "unat (fst (kind_group ?cfg Ct)) = 4" by (simp add: kind_group_def)
  ultimately show ?thesis unfolding call_codes_eq [OF assms(1,2)] by force
qed

theorem clock_group_recurs_witness:
  "4 \<in> set (call_codes Signed_Char (replicate 721 example_clock) rds_sys_init)"
  by (rule clock_group_recurs [OF sys_ok_init]) (simp_all add: list_all_iff clock_ok_example)

end
