(* ===== verification/Os.thy ===== *)
theory Os
  imports Main "HOL-Library.Multiset"
begin

text \<open>
  The resources a component asks of the system and of the libraries: heap blocks, descriptors,
  mappings, FFT buffers and plans, resamplers, JACK clients and ports, threads. Every request may
  fail; which of them do is the parameter \<open>os_fail\<close>, a function of the number of the request, so
  that a theorem for every \<open>os_fail\<close> covers every combination of failures. A granted resource has
  the number of its request as its handle. Giving back a resource that is not held (a double free)
  sets \<open>os_fault\<close>. Named shared memory segments exist independently of the handles.
\<close>

subsection \<open>Resources\<close>

datatype res_kind =
    Heap | Descriptor | Mapping | Fftw_Buffer | Fftw_Plan | Soxr | Jack_Client | Jack_Port | Thread
  | Gst_Object | Main_Loop

type_synonym resource = "res_kind \<times> nat"

record os =
  os_fail :: "nat \<Rightarrow> bool"
  os_next :: nat
  os_live :: "resource multiset"
  os_shm :: "string list"
  os_fault :: bool
  os_raised :: nat

definition acquire :: "res_kind \<Rightarrow> os \<Rightarrow> nat option \<times> os" where
  "acquire k os =
     (if os_fail os (os_next os) then (None, os\<lparr>os_next := Suc (os_next os)\<rparr>)
      else (Some (os_next os),
            os\<lparr>os_next := Suc (os_next os), os_live := add_mset (k, os_next os) (os_live os)\<rparr>))"

definition release :: "res_kind \<Rightarrow> nat \<Rightarrow> os \<Rightarrow> os" where
  "release k h os =
     (if (k, h) \<in># os_live os then os\<lparr>os_live := os_live os - {#(k, h)#}\<rparr> else os\<lparr>os_fault := True\<rparr>)"

text \<open>The calls that accept \<^verbatim>\<open>NULL\<close>, or that the code guards with a test for it.\<close>

definition release_opt :: "res_kind \<Rightarrow> nat option \<Rightarrow> os \<Rightarrow> os" where
  "release_opt k h os = (case h of None \<Rightarrow> os | Some h \<Rightarrow> release k h os)"

text \<open>A call that only succeeds or fails.\<close>

definition attempt :: "os \<Rightarrow> bool \<times> os" where
  "attempt os = (\<not> os_fail os (os_next os), os\<lparr>os_next := Suc (os_next os)\<rparr>)"

text \<open>\<^verbatim>\<open>raise(SIGTERM)\<close>.\<close>

definition raise_sigterm :: "os \<Rightarrow> os" where
  "raise_sigterm os = os\<lparr>os_raised := Suc (os_raised os)\<rparr>"

definition os_start :: "(nat \<Rightarrow> bool) \<Rightarrow> os" where
  "os_start f = \<lparr>os_fail = f, os_next = 0, os_live = {#}, os_shm = [], os_fault = False, os_raised = 0\<rparr>"

text \<open>No request fails any more.\<close>

definition no_fail :: "os \<Rightarrow> bool" where "no_fail os \<longleftrightarrow> (\<forall>n. \<not> os_fail os n)"

lemma no_fail_start: "no_fail (os_start (\<lambda>_. False))"
  by (simp add: no_fail_def os_start_def)

subsection \<open>Handles held by a component\<close>

definition held_opt :: "res_kind \<Rightarrow> nat option \<Rightarrow> resource multiset" where
  "held_opt k h = (case h of None \<Rightarrow> {#} | Some h \<Rightarrow> {#(k, h)#})"

lemma held_opt_simps [simp]: "held_opt k None = {#}" "held_opt k (Some h) = {#(k, h)#}"
  by (simp_all add: held_opt_def)

lemma release_opt_held:
  assumes "held_opt k h \<subseteq># os_live os"
  shows "release_opt k h os = os\<lparr>os_live := os_live os - held_opt k h\<rparr>"
proof (cases h)
  case (Some n)
  then have "(k, n) \<in># os_live os" using assms by simp
  with Some show ?thesis by (simp add: release_opt_def release_def)
qed (simp add: release_opt_def)

text \<open>
  Giving back the resources of a list one after the other; a component's destructor is such a list.
\<close>

primrec release_all :: "(res_kind \<times> nat option) list \<Rightarrow> os \<Rightarrow> os" where
  "release_all [] os = os"
| "release_all (x # xs) os = release_all xs (release_opt (fst x) (snd x) os)"

definition held_all :: "(res_kind \<times> nat option) list \<Rightarrow> resource multiset" where
  "held_all xs = sum_list (map (\<lambda>x. held_opt (fst x) (snd x)) xs)"

lemma held_all_simps [simp]:
  "held_all [] = {#}" "held_all (x # xs) = held_opt (fst x) (snd x) + held_all xs"
  by (simp_all add: held_all_def)

lemma subset_add_left:
  fixes A B C :: "'a multiset"
  assumes "A + B \<subseteq># C"
  shows "A \<subseteq># C" "B \<subseteq># C - A"
proof -
  show A: "A \<subseteq># C" using subset_mset.order_trans [OF mset_subset_eq_add_left assms] .
  show "B \<subseteq># C - A" using assms by (simp add: subset_mset.le_diff_conv2 [OF A] add.commute)
qed

lemma release_all_held:
  "held_all xs \<subseteq># os_live os \<Longrightarrow> release_all xs os = os\<lparr>os_live := os_live os - held_all xs\<rparr>"
proof (induction xs arbitrary: os)
  case (Cons x xs)
  let ?h = "held_opt (fst x) (snd x)"
  have "?h \<subseteq># os_live os" "held_all xs \<subseteq># os_live os - ?h"
    using subset_add_left [of ?h "held_all xs" "os_live os"] Cons.prems by simp_all
  then show ?case
    using Cons.IH [of "os\<lparr>os_live := os_live os - ?h\<rparr>"] by (simp add: release_opt_held)
qed simp

subsection \<open>The contract of a component that starts and stops\<close>

text \<open>
  A failed start holds nothing more than before; a successful start holds what the component
  records; stopping gives back exactly that, each resource once. A start that would dereference
  \<^verbatim>\<open>NULL\<close> is \<open>None\<close>. \<open>env\<close> is what the component assumes of the system for its start.
\<close>

locale lifecycle =
  fixes env :: "os \<Rightarrow> bool"
    and start :: "os \<Rightarrow> ((int \<times> 'c) \<times> os) option"
    and stop :: "'c \<Rightarrow> os \<Rightarrow> os"
    and held :: "'c \<Rightarrow> resource multiset"
  assumes start_runs: "env os \<Longrightarrow> start os \<noteq> None"
    and start_fail: "env os \<Longrightarrow> start os = Some ((r, c), os') \<Longrightarrow> r < 0 \<Longrightarrow>
      os_live os' = os_live os \<and> os_fault os' = os_fault os"
    and start_ok: "start os = Some ((r, c), os') \<Longrightarrow> 0 \<le> r \<Longrightarrow>
      os_live os' = os_live os + held c \<and> os_fault os' = os_fault os"
    and stop_held: "held c \<subseteq># os_live os \<Longrightarrow>
      os_live (stop c os) = os_live os - held c \<and> os_fault (stop c os) = os_fault os"
begin

lemma start_stop:
  assumes "start os = Some ((r, c), os')" "0 \<le> r"
  shows "os_live (stop c os') = os_live os \<and> os_fault (stop c os') = os_fault os"
proof -
  have "os_live os' = os_live os + held c" "os_fault os' = os_fault os"
    using start_ok [OF assms] by simp_all
  then show ?thesis using stop_held [of c os'] by simp
qed

lemma start_fault: "env os \<Longrightarrow> start os = Some ((r, c), os') \<Longrightarrow> os_fault os' = os_fault os"
  using start_fail [of os r c os'] start_ok [of os r c os'] by (cases "r < 0") auto

text \<open>The component among others that hold resources of their own.\<close>

lemma stop_among:
  assumes "os_live os = rest + held c"
  shows "os_live (stop c os) = rest \<and> os_fault (stop c os) = os_fault os"
  using stop_held [of c os] assms by simp

end

end
