(* ===== verification/Utils.thy ===== *)
theory Utils
  imports Os
begin

text \<open>
  \<^verbatim>\<open>utils.c\<close>: the named shared memory through which the modulator, the encoder and the RTP server
  are controlled, and the console output. The name of a segment is either taken or free;
  \<^verbatim>\<open>shm_open\<close> with \<^verbatim>\<open>O_CREAT | O_EXCL\<close> fails for a name that is taken, without it for one that is
  free. The contents of a mapping are the states of the components, modelled with them.
\<close>

subsection \<open>Shared memory\<close>

datatype mem_ptr = Mem_Null | Map_Failed | Mem_At nat

record shm_mapping =
  shm_self :: nat
  shm_name :: string
  shm_size :: int
  shm_fd :: "nat option"
  shm_mem :: mem_ptr

definition FMMOD_CTL_SHM_NAME :: string where "FMMOD_CTL_SHM_NAME = ''/FMMOD_CTL_SHM''"
definition RDS_ENC_SHM_NAME :: string where "RDS_ENC_SHM_NAME = ''/RDS_ENC_SHM''"
definition RTP_SRV_SHM_NAME :: string where "RTP_SRV_SHM_NAME = ''/RTP_SRV_SHM''"

text \<open>The system calls.\<close>

definition shm_create :: "string \<Rightarrow> os \<Rightarrow> nat option \<times> os" where
  "shm_create name os =
     (if name \<in> set (os_shm os) then (None, os)
      else case acquire Descriptor os of
             (None, os) \<Rightarrow> (None, os)
           | (Some fd, os) \<Rightarrow> (Some fd, os\<lparr>os_shm := name # os_shm os\<rparr>))"

definition shm_open :: "string \<Rightarrow> os \<Rightarrow> nat option \<times> os" where
  "shm_open name os = (if name \<in> set (os_shm os) then acquire Descriptor os else (None, os))"

definition shm_unlink :: "string \<Rightarrow> os \<Rightarrow> os" where
  "shm_unlink name os = os\<lparr>os_shm := removeAll name (os_shm os)\<rparr>"

definition mmap :: "os \<Rightarrow> mem_ptr \<times> os" where
  "mmap os = (case acquire Mapping os of (None, os) \<Rightarrow> (Map_Failed, os) | (Some m, os) \<Rightarrow> (Mem_At m, os))"

text \<open>
  \<^verbatim>\<open>utils_shm_init\<close>: the two \<^verbatim>\<open>goto cleanup\<close> are the case of a failed \<^verbatim>\<open>shm_open\<close>, which returns
  without freeing the block, and the case of a failed \<^verbatim>\<open>ftruncate\<close>, which leaves \<^verbatim>\<open>mem\<close> at
  \<^verbatim>\<open>NULL\<close>.
\<close>

definition utils_shm_init :: "string \<Rightarrow> int \<Rightarrow> os \<Rightarrow> shm_mapping option \<times> os" where
  "utils_shm_init name sz os =
     (case acquire Heap os of
        (None, os) \<Rightarrow> (None, os)
      | (Some self, os) \<Rightarrow>
          (case shm_create name os of
             (None, os) \<Rightarrow> (None, os)
           | (Some fd, os) \<Rightarrow>
               (case attempt os of (truncated, os) \<Rightarrow>
                  (case (if truncated then mmap os else (Mem_Null, os)) of (mem, os) \<Rightarrow>
                     let os = release Descriptor fd os in
                     if mem = Map_Failed then (None, release Heap self (shm_unlink name os))
                     else (Some \<lparr>shm_self = self, shm_name = name, shm_size = sz, shm_fd = Some fd,
                                 shm_mem = mem\<rparr>, os)))))"

definition utils_shm_attach :: "string \<Rightarrow> int \<Rightarrow> os \<Rightarrow> shm_mapping option \<times> os" where
  "utils_shm_attach name sz os =
     (case acquire Heap os of
        (None, os) \<Rightarrow> (None, os)
      | (Some self, os) \<Rightarrow>
          (case shm_open name os of
             (None, os) \<Rightarrow> (None, release Heap self os)
           | (Some fd, os) \<Rightarrow>
               (case mmap os of (mem, os) \<Rightarrow>
                  let os = release Descriptor fd os in
                  if mem = Map_Failed then (None, release Heap self (shm_unlink name os))
                  else (Some \<lparr>shm_self = self, shm_name = name, shm_size = sz, shm_fd = Some fd,
                              shm_mem = mem\<rparr>, os))))"

definition utils_shm_destroy :: "shm_mapping option \<Rightarrow> bool \<Rightarrow> os \<Rightarrow> os" where
  "utils_shm_destroy shmem unlink os =
     (case shmem of
        None \<Rightarrow> os
      | Some m \<Rightarrow>
          (case shm_mem m of
             Mem_At a \<Rightarrow>
               let os = release Mapping a os;
                   os = (if unlink then shm_unlink (shm_name m) os else os)
               in release Heap (shm_self m) os
           | _ \<Rightarrow> os))"

definition utils_shm_unlink_all :: "os \<Rightarrow> os" where
  "utils_shm_unlink_all os =
     shm_unlink RTP_SRV_SHM_NAME (shm_unlink RDS_ENC_SHM_NAME (shm_unlink FMMOD_CTL_SHM_NAME os))"

subsection \<open>Console output\<close>

text \<open>
  What is written to which stream. The arguments of the \<^verbatim>\<open>printf\<close> functions are already formatted
  into the message; \<^verbatim>\<open>utils_dbg\<close> and \<^verbatim>\<open>utils_trace\<close> depend on the \<^verbatim>\<open>DEBUG\<close> of the build.
\<close>

datatype stream = Stdout | Stderr

definition esc :: "string \<Rightarrow> string" where "esc s = CHR 0x1B # CHR 0x5B # s"

definition NORMAL :: string where "NORMAL = esc ''0m''"
definition RED :: string where "RED = esc ''31m''"
definition GREEN :: string where "GREEN = esc ''32m''"
definition YELLOW :: string where "YELLOW = esc ''33m''"
definition MAGENTA :: string where "MAGENTA = esc ''35m''"
definition CYAN :: string where "CYAN = esc ''36m''"

definition utils_ann :: "string \<Rightarrow> (stream \<times> string) list" where
  "utils_ann msg = [(Stdout, GREEN), (Stdout, msg), (Stdout, NORMAL)]"

definition utils_info :: "string \<Rightarrow> (stream \<times> string) list" where
  "utils_info msg = [(Stdout, CYAN), (Stdout, msg), (Stdout, NORMAL)]"

definition utils_wrn :: "string \<Rightarrow> (stream \<times> string) list" where
  "utils_wrn msg = [(Stderr, YELLOW), (Stderr, msg), (Stderr, NORMAL)]"

definition utils_err :: "string \<Rightarrow> (stream \<times> string) list" where
  "utils_err msg = [(Stderr, RED), (Stderr, msg), (Stderr, NORMAL)]"

text \<open>\<^verbatim>\<open>utils_perr\<close> does not format its message; \<open>strerror\<close> is the text for the current \<^verbatim>\<open>errno\<close>.\<close>

definition utils_perr :: "string \<Rightarrow> string \<Rightarrow> (stream \<times> string) list" where
  "utils_perr strerror msg = [(Stderr, RED), (Stderr, msg @ '': '' @ strerror @ [CHR 0x0A]), (Stderr, NORMAL)]"

definition utils_dbg :: "bool \<Rightarrow> string \<Rightarrow> (stream \<times> string) list" where
  "utils_dbg debug msg = (if debug then [(Stderr, MAGENTA), (Stderr, msg), (Stderr, NORMAL)] else [])"

definition utils_trace :: "bool \<Rightarrow> string \<Rightarrow> (stream \<times> string) list" where
  "utils_trace debug msg = (if debug then [(Stderr, YELLOW), (Stderr, msg), (Stderr, NORMAL)] else [])"

subsection \<open>What creating and removing a segment does\<close>

lemmas shm_defs =
  utils_shm_init_def utils_shm_attach_def utils_shm_destroy_def shm_create_def shm_open_def
  shm_unlink_def mmap_def acquire_def attempt_def release_def Let_def

definition shm_held :: "shm_mapping \<Rightarrow> resource multiset" where
  "shm_held m = {#(Heap, shm_self m)#} + (case shm_mem m of Mem_At a \<Rightarrow> {#(Mapping, a)#} | _ \<Rightarrow> {#})"

lemma utils_shm_destroy_held:
  assumes "shm_held m \<subseteq># os_live os" "shm_mem m = Mem_At a"
  shows "utils_shm_destroy (Some m) u os =
    os\<lparr>os_live := os_live os - shm_held m,
       os_shm := (if u then removeAll (shm_name m) (os_shm os) else os_shm os)\<rparr>"
proof -
  have "add_mset (Mapping, a) {#(Heap, shm_self m)#} \<subseteq># os_live os" using assms by (simp add: shm_held_def add_mset_commute)
  then have "(Mapping, a) \<in># os_live os" "(Heap, shm_self m) \<in># os_live os - {#(Mapping, a)#}"
    by (simp_all add: insert_subset_eq_iff)
  with assms show ?thesis
    by (cases os) (simp add: utils_shm_destroy_def release_def shm_unlink_def shm_held_def add_mset_commute)
qed

text \<open>What a component that owns a mapping holds; a mapping without memory is not given back.\<close>

definition map_held :: "shm_mapping option \<Rightarrow> resource multiset" where
  "map_held sm =
     (case sm of None \<Rightarrow> {#}
      | Some m \<Rightarrow> (case shm_mem m of Mem_At a \<Rightarrow> shm_held m | _ \<Rightarrow> {#}))"

lemma utils_shm_destroy_map:
  assumes "map_held sm \<subseteq># os_live os"
  shows "os_live (utils_shm_destroy sm u os) = os_live os - map_held sm \<and>
    os_fault (utils_shm_destroy sm u os) = os_fault os"
proof (cases "\<exists>m a. sm = Some m \<and> shm_mem m = Mem_At a")
  case True
  then obtain m a where m: "sm = Some m" "shm_mem m = Mem_At a" by blast
  then have "shm_held m \<subseteq># os_live os" using assms by (simp add: map_held_def)
  from utils_shm_destroy_held [OF this m(2), of u] m show ?thesis by (simp add: map_held_def)
next
  case False
  then show ?thesis
    by (auto simp: utils_shm_destroy_def map_held_def split: option.splits mem_ptr.splits)
qed

lemma utils_shm_init_cases:
  assumes "utils_shm_init name sz os = (res, os')"
  shows "os_fault os' = os_fault os"
    and "res = None \<Longrightarrow> os_shm os' = os_shm os"
    and "res = None \<Longrightarrow> os_live os' = os_live os \<or> (\<exists>h. os_live os' = add_mset (Heap, h) (os_live os))"
    and "res = Some m \<Longrightarrow> name \<notin> set (os_shm os) \<and> os_shm os' = name # os_shm os \<and>
           os_live os' = os_live os + shm_held m \<and> shm_name m = name \<and> shm_mem m \<noteq> Map_Failed"
  using assms by (auto simp: shm_defs shm_held_def split: if_splits)

text \<open>When the name is free and \<^verbatim>\<open>shm_open\<close> and \<^verbatim>\<open>ftruncate\<close> succeed, nothing leaks.\<close>

definition shm_env :: "string \<Rightarrow> os \<Rightarrow> bool" where
  "shm_env name os \<longleftrightarrow>
     name \<notin> set (os_shm os) \<and> \<not> os_fail os (Suc (os_next os)) \<and> \<not> os_fail os (Suc (Suc (os_next os)))"

lemma utils_shm_init_env:
  assumes "utils_shm_init name sz os = (res, os')" "shm_env name os"
  shows "os_fault os' = os_fault os"
    and "res = None \<Longrightarrow> os_live os' = os_live os"
    and "res = Some m \<Longrightarrow> os_live os' = os_live os + map_held (Some m) \<and> shm_mem m \<noteq> Mem_Null"
  using assms by (auto simp: shm_defs shm_held_def map_held_def shm_env_def split: if_splits)

lemma utils_shm_init_map:
  assumes "utils_shm_init name sz os = (Some m, os')" "shm_mem m \<noteq> Mem_Null"
  shows "os_live os' = os_live os + map_held (Some m)"
proof -
  have m: "os_live os' = os_live os + shm_held m" "shm_mem m \<noteq> Map_Failed"
    using utils_shm_init_cases(4) [OF assms(1) refl] by simp_all
  with assms(2) obtain a where "shm_mem m = Mem_At a" by (cases "shm_mem m") auto
  with m show ?thesis by (simp add: map_held_def)
qed

lemma utils_shm_init_taken:
  "name \<in> set (os_shm os) \<Longrightarrow> fst (utils_shm_init name sz os) = None"
  by (auto simp: shm_defs)



end
