(* ===== verification/Resampler.thy ===== *)
theory Resampler
  imports Utils Complex_Main "HOL-Library.Word"
begin

text \<open>
  The resampler (\<^verbatim>\<open>resampler.c\<close>). The SoXr library is a parameter: \<open>soxr_process h in n\<close> is a call
  of \<^verbatim>\<open>soxr_process\<close> on the resampler with handle \<open>h\<close>, the input frames \<open>in\<close> and room for \<open>n\<close>
  output frames; it returns the error code, the number of frames used and the frames generated,
  and the state \<open>'s\<close> of the library after the call. The documented behaviour that the code relies
  on: no more frames than the room given are generated, and resamplers are independent of each
  other.

  A buffer is the list of its values. Writing more values than it has is \<open>None\<close>.
\<close>

type_synonym 's soxr_fun = "nat option \<Rightarrow> real list \<Rightarrow> nat \<Rightarrow> 's \<Rightarrow> (int \<times> nat \<times> real list) \<times> 's"

definition soxr_bounded :: "'s soxr_fun \<Rightarrow> bool" where
  "soxr_bounded soxr_process \<longleftrightarrow>
     (\<forall>h xs n s. length (snd (snd (fst (soxr_process h xs n s)))) \<le> n)"

definition soxr_independent :: "'s soxr_fun \<Rightarrow> bool" where
  "soxr_independent soxr_process \<longleftrightarrow>
     (\<forall>h k xs ys m n s. h \<noteq> k \<longrightarrow>
        (let (a, s1) = soxr_process h xs m s; (b, s2) = soxr_process k ys n s1;
             (b', t1) = soxr_process k ys n s; (a', t2) = soxr_process h xs m t1
         in a = a' \<and> b = b' \<and> s2 = t2))"

definition write_buf :: "'a list \<Rightarrow> 'a list \<Rightarrow> 'a list option" where
  "write_buf buf xs = (if length xs \<le> length buf then Some (xs @ drop (length xs) buf) else None)"

lemma length_write_buf: "write_buf buf xs = Some b \<Longrightarrow> length b = length buf"
  by (auto simp: write_buf_def split: if_splits)

lemma take_write_buf: "write_buf buf xs = Some b \<Longrightarrow> take (length xs) b = xs"
  by (auto simp: write_buf_def split: if_splits)

subsection \<open>State\<close>

record resampler_thread_data =
  rstd_resampler :: "nat option"
  rstd_in :: "real list"
  rstd_outframes :: nat
  rstd_frames_used :: nat
  rstd_frames_generated :: nat
  rstd_result :: int
  rstd_tid :: "nat option"

record resampler_data =
  rs_osc_samplerate :: "32 word"
  rs_audio_upsampler_l :: "nat option"
  rs_audio_upsampler_r :: "nat option"
  rs_audio_upsampler_bypass :: int
  rs_rds_upsampler :: "nat option"
  rs_mpx_downsampler :: "nat option"
  rs_mpx_downsampler_bypass :: int
  rs_active :: int
  rs_rstd_l :: resampler_thread_data
  rs_rstd_r :: resampler_thread_data

definition rstd_zero :: resampler_thread_data where
  "rstd_zero = \<lparr>rstd_resampler = None, rstd_in = [], rstd_outframes = 0, rstd_frames_used = 0,
     rstd_frames_generated = 0, rstd_result = 0, rstd_tid = None\<rparr>"

definition resampler_zero :: resampler_data where
  "resampler_zero = \<lparr>rs_osc_samplerate = 0, rs_audio_upsampler_l = None, rs_audio_upsampler_r = None,
     rs_audio_upsampler_bypass = 0, rs_rds_upsampler = None, rs_mpx_downsampler = None,
     rs_mpx_downsampler_bypass = 0, rs_active = 0, rs_rstd_l = rstd_zero, rs_rstd_r = rstd_zero\<rparr>"

subsection \<open>Processing\<close>

definition resampler_thread_run ::
  "'s soxr_fun \<Rightarrow> resampler_thread_data \<Rightarrow> real list \<Rightarrow> 's \<Rightarrow>
   (resampler_thread_data \<times> real list \<times> 's) option" where
  "resampler_thread_run soxr_process rstd out s =
     (case soxr_process (rstd_resampler rstd) (rstd_in rstd) (rstd_outframes rstd) s of
        ((error, used, generated), s) \<Rightarrow>
          map_option (\<lambda>out. (rstd\<lparr>rstd_result := error, rstd_frames_used := used,
                                   rstd_frames_generated := length generated\<rparr>, out, s))
            (write_buf out generated))"

text \<open>
  \<^verbatim>\<open>resampler_upsample_audio\<close>. The build without \<^verbatim>\<open>JMPXRDS_MT\<close> runs the left and then the right
  channel; with it the left channel runs in its own thread, so that either may be first
  (\<open>Left_First\<close>, \<open>Right_First\<close>). The audio buffers have \<open>inframes\<close> frames.
\<close>

datatype channel_order = Left_First | Right_First

definition resampler_upsample_audio ::
  "channel_order \<Rightarrow> 's soxr_fun \<Rightarrow> resampler_data \<Rightarrow> real list \<Rightarrow> real list \<Rightarrow> real list \<Rightarrow> real list \<Rightarrow>
   nat \<Rightarrow> nat \<Rightarrow> 's \<Rightarrow> (int \<times> resampler_data \<times> real list \<times> real list \<times> 's) option" where
  "resampler_upsample_audio order soxr_process rsmpl in_l in_r out_l out_r inframes outframes s =
     (if rs_audio_upsampler_bypass rsmpl \<noteq> 0 then
        (case (write_buf out_l (take inframes in_l), write_buf out_r (take inframes in_r)) of
           (Some out_l, Some out_r) \<Rightarrow> Some (int inframes, rsmpl, out_l, out_r, s)
         | _ \<Rightarrow> None)
      else
        let rstd_l = (rs_rstd_l rsmpl)\<lparr>rstd_in := take inframes in_l, rstd_outframes := outframes\<rparr>;
            rstd_r = (rs_rstd_r rsmpl)\<lparr>rstd_in := take inframes in_r, rstd_outframes := outframes\<rparr>;
            ran = (case order of
                     Left_First \<Rightarrow>
                       (case resampler_thread_run soxr_process rstd_l out_l s of
                          None \<Rightarrow> None
                        | Some (rstd_l, out_l, s) \<Rightarrow>
                            map_option (\<lambda>(rstd_r, out_r, s). (rstd_l, out_l, rstd_r, out_r, s))
                              (resampler_thread_run soxr_process rstd_r out_r s))
                   | Right_First \<Rightarrow>
                       (case resampler_thread_run soxr_process rstd_r out_r s of
                          None \<Rightarrow> None
                        | Some (rstd_r, out_r, s) \<Rightarrow>
                            map_option (\<lambda>(rstd_l, out_l, s). (rstd_l, out_l, rstd_r, out_r, s))
                              (resampler_thread_run soxr_process rstd_l out_l s)))
        in map_option
             (\<lambda>(rstd_l, out_l, rstd_r, out_r, s).
                (if rstd_result rstd_l \<noteq> 0 \<or> rstd_result rstd_r \<noteq> 0 then - 1
                 else int (rstd_frames_generated rstd_l),
                 rsmpl\<lparr>rs_rstd_l := rstd_l, rs_rstd_r := rstd_r\<rparr>, out_l, out_r, s)) ran)"

definition resampler_upsample_rds ::
  "'s soxr_fun \<Rightarrow> resampler_data \<Rightarrow> real list \<Rightarrow> real list \<Rightarrow> nat \<Rightarrow> nat \<Rightarrow> 's \<Rightarrow>
   (int \<times> real list \<times> 's) option" where
  "resampler_upsample_rds soxr_process rsmpl inp out inframes outframes s =
     (case soxr_process (rs_rds_upsampler rsmpl) (take inframes inp) outframes s of
        ((error, used, generated), s) \<Rightarrow>
          map_option (\<lambda>out. (if error \<noteq> 0 then - 1 else int (length generated), out, s))
            (write_buf out generated))"

definition resampler_downsample_mpx ::
  "'s soxr_fun \<Rightarrow> resampler_data \<Rightarrow> real list \<Rightarrow> real list \<Rightarrow> nat \<Rightarrow> nat \<Rightarrow> 's \<Rightarrow>
   (int \<times> real list \<times> 's) option" where
  "resampler_downsample_mpx soxr_process rsmpl inp out inframes outframes s =
     (if rs_mpx_downsampler_bypass rsmpl \<noteq> 0 then
        map_option (\<lambda>out. (int inframes, out, s)) (write_buf out (take inframes inp))
      else
        case soxr_process (rs_mpx_downsampler rsmpl) (take inframes inp) outframes s of
          ((error, used, generated), s) \<Rightarrow>
            map_option (\<lambda>out. (if error \<noteq> 0 then - 1 else int (length generated), out, s))
              (write_buf out generated))"

subsection \<open>Initialisation\<close>

text \<open>\<open>mt\<close> is \<^verbatim>\<open>JMPXRDS_MT\<close>. The left channel's thread is created and never joined.\<close>

definition resampler_init_upsampler_threads ::
  "bool \<Rightarrow> resampler_data \<Rightarrow> os \<Rightarrow> (int \<times> resampler_data) \<times> os" where
  "resampler_init_upsampler_threads mt rsmpl os =
     (let rsmpl = rsmpl\<lparr>rs_rstd_l := (rs_rstd_l rsmpl)\<lparr>rstd_resampler := rs_audio_upsampler_l rsmpl\<rparr>,
                        rs_rstd_r := (rs_rstd_r rsmpl)\<lparr>rstd_resampler := rs_audio_upsampler_r rsmpl\<rparr>\<rparr>
      in if mt then
           (case acquire Thread os of
              (None, os) \<Rightarrow> ((- 1, rsmpl), os)
            | (Some tid, os) \<Rightarrow>
                ((0, rsmpl\<lparr>rs_rstd_l := (rs_rstd_l rsmpl)\<lparr>rstd_tid := Some tid\<rparr>\<rparr>), os))
         else ((0, rsmpl), os))"

definition resampler_destroy :: "resampler_data \<Rightarrow> os \<Rightarrow> resampler_data \<times> os" where
  "resampler_destroy rsmpl os =
     (rsmpl\<lparr>rs_active := 0\<rparr>,
      release_all [(Soxr, rs_audio_upsampler_l rsmpl), (Soxr, rs_audio_upsampler_r rsmpl),
                   (Soxr, rs_rds_upsampler rsmpl), (Soxr, rs_mpx_downsampler rsmpl)] os)"

definition resampler_fail :: "int \<Rightarrow> resampler_data \<Rightarrow> os \<Rightarrow> (int \<times> resampler_data) \<times> os" where
  "resampler_fail ret rsmpl os = (case resampler_destroy rsmpl os of (rsmpl, os) \<Rightarrow> ((ret, rsmpl), os))"

text \<open>The part from the label \<^verbatim>\<open>audio_upsampler_bypass\<close> on.\<close>

definition resampler_init_rds_mpx ::
  "32 word \<Rightarrow> 32 word \<Rightarrow> resampler_data \<Rightarrow> os \<Rightarrow> (int \<times> resampler_data) \<times> os" where
  "resampler_init_rds_mpx osc_samplerate output_samplerate rsmpl os =
     (case acquire Soxr os of (h, os) \<Rightarrow>
        let rsmpl = rsmpl\<lparr>rs_rds_upsampler := h\<rparr> in
        if h = None then resampler_fail (- 5) rsmpl os
        else if osc_samplerate = output_samplerate then ((0, rsmpl\<lparr>rs_mpx_downsampler_bypass := 1\<rparr>), os)
        else
          case acquire Soxr os of (h, os) \<Rightarrow>
            let rsmpl = rsmpl\<lparr>rs_mpx_downsampler := h\<rparr> in
            if h = None then resampler_fail (- 6) rsmpl os else ((0, rsmpl), os))"

definition resampler_init ::
  "bool \<Rightarrow> 32 word \<Rightarrow> 32 word \<Rightarrow> 32 word \<Rightarrow> os \<Rightarrow> (int \<times> resampler_data) \<times> os" where
  "resampler_init mt jack_samplerate osc_samplerate output_samplerate os =
     (let rsmpl = resampler_zero\<lparr>rs_osc_samplerate := osc_samplerate\<rparr> in
      if jack_samplerate = osc_samplerate then
        resampler_init_rds_mpx osc_samplerate output_samplerate (rsmpl\<lparr>rs_audio_upsampler_bypass := 1\<rparr>) os
      else
        case acquire Soxr os of (h, os) \<Rightarrow>
          let rsmpl = rsmpl\<lparr>rs_audio_upsampler_l := h\<rparr> in
          if h = None then resampler_fail (- 2) rsmpl os
          else
            case acquire Soxr os of (h, os) \<Rightarrow>
              let rsmpl = rsmpl\<lparr>rs_audio_upsampler_r := h\<rparr> in
              if h = None then resampler_fail (- 3) rsmpl os
              else
                case resampler_init_upsampler_threads mt (rsmpl\<lparr>rs_active := 1\<rparr>) os of
                  ((ret, rsmpl), os) \<Rightarrow>
                    if ret < 0 then resampler_fail (- 4) (rsmpl\<lparr>rs_active := 0\<rparr>) os
                    else resampler_init_rds_mpx osc_samplerate output_samplerate rsmpl os)"

subsection \<open>The order of the channels\<close>

text \<open>
  Upsampling the two channels in two threads gives the result of upsampling them one after the
  other: whichever channel's resampler runs first, the samples, the return value and the state of
  the resampler are the same.
\<close>

theorem resampler_upsample_audio_order:
  assumes "soxr_independent soxr_process"
    and "rstd_resampler (rs_rstd_l rsmpl) \<noteq> rstd_resampler (rs_rstd_r rsmpl)"
  shows "resampler_upsample_audio Right_First soxr_process rsmpl in_l in_r out_l out_r n m s =
         resampler_upsample_audio Left_First soxr_process rsmpl in_l in_r out_l out_r n m s"
proof -
  let ?l = "rstd_resampler (rs_rstd_l rsmpl)" and ?r = "rstd_resampler (rs_rstd_r rsmpl)"
  obtain e1 u1 g1 s1 where l: "soxr_process ?l (take n in_l) m s = ((e1, u1, g1), s1)"
    by (metis surj_pair)
  obtain e2 u2 g2 s2 where r: "soxr_process ?r (take n in_r) m s1 = ((e2, u2, g2), s2)"
    by (metis surj_pair)
  obtain b t1 where r': "soxr_process ?r (take n in_r) m s = (b, t1)" by (metis surj_pair)
  obtain a t2 where l': "soxr_process ?l (take n in_l) m t1 = (a, t2)" by (metis surj_pair)
  have "b = (e2, u2, g2)" "a = (e1, u1, g1)" "t2 = s2"
    using assms(1) [unfolded soxr_independent_def, rule_format, OF assms(2),
        where xs = "take n in_l" and ys = "take n in_r" and m = m and n = m and s = s]
    by (simp_all add: l r r' l' Let_def)
  with r' l' have "soxr_process ?r (take n in_r) m s = ((e2, u2, g2), t1)"
    "soxr_process ?l (take n in_l) m t1 = ((e1, u1, g1), s2)" by simp_all
  with l r show ?thesis
    by (cases "write_buf out_l g1"; cases "write_buf out_r g2")
      (simp_all add: resampler_upsample_audio_def resampler_thread_run_def Let_def)
qed

text \<open>A library that repeats each frame and keeps, per resampler, the number of frames it has seen.\<close>

definition count_soxr :: "(nat option \<Rightarrow> nat) soxr_fun" where
  "count_soxr h xs n c =
     (let out = take n (concat (map (\<lambda>x. [x, x]) xs)) in ((0, length xs, out), c(h := c h + length xs)))"

lemma count_soxr_bounded: "soxr_bounded count_soxr"
  by (simp add: soxr_bounded_def count_soxr_def Let_def)

lemma count_soxr_independent: "soxr_independent count_soxr"
  by (auto simp: soxr_independent_def count_soxr_def Let_def fun_upd_twist)

theorem resampler_upsample_audio_order_witness:
  "map_option fst (resampler_upsample_audio Right_First count_soxr
      (resampler_zero\<lparr>rs_rstd_l := rstd_zero\<lparr>rstd_resampler := Some 1\<rparr>\<rparr>)
      [1, 2] [3, 4] [0, 0, 0, 0] [0, 0, 0, 0] 2 4 (\<lambda>_. 0)) = Some 4"
proof -
  let ?r = "resampler_zero\<lparr>rs_rstd_l := rstd_zero\<lparr>rstd_resampler := Some 1\<rparr>\<rparr>"
  have "rstd_resampler (rs_rstd_l ?r) \<noteq> rstd_resampler (rs_rstd_r ?r)"
    by (simp add: resampler_zero_def rstd_zero_def)
  from resampler_upsample_audio_order [OF count_soxr_independent this] show ?thesis
    by (simp add: resampler_upsample_audio_def resampler_zero_def rstd_zero_def resampler_thread_run_def
        count_soxr_def write_buf_def)
qed

subsection \<open>The contract of the initialisation\<close>

definition resampler_held :: "resampler_data \<Rightarrow> resource multiset" where
  "resampler_held rsmpl =
     held_all [(Soxr, rs_audio_upsampler_l rsmpl), (Soxr, rs_audio_upsampler_r rsmpl),
               (Soxr, rs_rds_upsampler rsmpl), (Soxr, rs_mpx_downsampler rsmpl)]"

lemma resampler_destroy_held:
  "resampler_held rsmpl \<subseteq># os_live os \<Longrightarrow>
   snd (resampler_destroy rsmpl os) = os\<lparr>os_live := os_live os - resampler_held rsmpl\<rparr>"
  by (simp only: resampler_destroy_def resampler_held_def snd_conv release_all_held)

lemma resampler_fail_held:
  assumes "resampler_fail ret rsmpl os = ((r, c), os')" "resampler_held rsmpl \<subseteq># os_live os"
  shows "r = ret \<and> os_live os' = os_live os - resampler_held rsmpl \<and> os_fault os' = os_fault os"
  using assms resampler_destroy_held [OF assms(2)]
  by (auto simp: resampler_fail_def split: prod.splits)

lemma resampler_init_rds_mpx_held:
  assumes init: "resampler_init_rds_mpx osc out c os = ((r, c'), os')"
    and c: "resampler_held c \<subseteq># os_live os" "rs_rds_upsampler c = None" "rs_mpx_downsampler c = None"
  shows "os_fault os' = os_fault os" "r < 0 \<Longrightarrow> os_live os' = os_live os - resampler_held c"
    "0 \<le> r \<Longrightarrow> os_live os' = os_live os - resampler_held c + resampler_held c'"
proof -
  have 1: "resampler_held (c\<lparr>rs_rds_upsampler := None\<rparr>) = resampler_held c"
    "resampler_held (c\<lparr>rs_rds_upsampler := Some h\<rparr>) = add_mset (Soxr, h) (resampler_held c)"
    "resampler_held (c\<lparr>rs_rds_upsampler := Some h, rs_mpx_downsampler_bypass := 1\<rparr>) =
       add_mset (Soxr, h) (resampler_held c)"
    "resampler_held (c\<lparr>rs_rds_upsampler := Some h, rs_mpx_downsampler := None\<rparr>) =
       add_mset (Soxr, h) (resampler_held c)"
    "resampler_held (c\<lparr>rs_rds_upsampler := Some h, rs_mpx_downsampler := Some k\<rparr>) =
       add_mset (Soxr, h) (add_mset (Soxr, k) (resampler_held c))" for h k
    using c by (simp_all add: resampler_held_def add_mset_commute)
  have "os_fault os' = os_fault os \<and> (r < 0 \<longrightarrow> os_live os' = os_live os - resampler_held c) \<and>
    (0 \<le> r \<longrightarrow> os_live os' = os_live os - resampler_held c + resampler_held c')"
  proof (cases "os_fail os (os_next os)")
    case True
    with init c 1(1) show ?thesis
      by (auto simp: resampler_init_rds_mpx_def acquire_def dest!: resampler_fail_held)
  next
    case granted: False
    show ?thesis
    proof (cases "osc = out")
      case True
      with granted init c show ?thesis
        by (auto simp: resampler_init_rds_mpx_def acquire_def Let_def 1)
    next
      case False
      with granted init c show ?thesis
        by (auto simp: resampler_init_rds_mpx_def acquire_def Let_def 1 split: if_splits
            dest!: resampler_fail_held)
    qed
  qed
  then show "os_fault os' = os_fault os" "r < 0 \<Longrightarrow> os_live os' = os_live os - resampler_held c"
    "0 \<le> r \<Longrightarrow> os_live os' = os_live os - resampler_held c + resampler_held c'" by auto
qed

lemma resampler_init_held:
  assumes init: "resampler_init False jack osc out os = ((r, c'), os')"
  shows "os_fault os' = os_fault os \<and> (r < 0 \<longrightarrow> os_live os' = os_live os) \<and>
    (0 \<le> r \<longrightarrow> os_live os' = os_live os + resampler_held c')"
proof -
  define c where "c = resampler_zero\<lparr>rs_osc_samplerate := osc\<rparr>"
  define c2 where "c2 l r = c\<lparr>rs_audio_upsampler_l := Some l, rs_audio_upsampler_r := Some r, rs_active := 1,
      rs_rstd_l := (rs_rstd_l c)\<lparr>rstd_resampler := Some l\<rparr>,
      rs_rstd_r := (rs_rstd_r c)\<lparr>rstd_resampler := Some r\<rparr>\<rparr>" for l r
  have h: "resampler_held (c\<lparr>rs_audio_upsampler_bypass := 1\<rparr>) = {#}"
    "resampler_held (c\<lparr>rs_audio_upsampler_l := None\<rparr>) = {#}"
    "resampler_held (c\<lparr>rs_audio_upsampler_l := Some l, rs_audio_upsampler_r := None\<rparr>) = {#(Soxr, l)#}"
    "resampler_held (c2 l r) = {#(Soxr, l), (Soxr, r)#}"
    "rs_rds_upsampler (c2 l r) = None" "rs_mpx_downsampler (c2 l r) = None"
    "rs_rds_upsampler (c\<lparr>rs_audio_upsampler_bypass := 1\<rparr>) = None"
    "rs_mpx_downsampler (c\<lparr>rs_audio_upsampler_bypass := 1\<rparr>) = None" for l r
    by (simp_all add: resampler_held_def c_def c2_def resampler_zero_def)
  show ?thesis
  proof (cases "jack = osc")
    case True
    with init have "resampler_init_rds_mpx osc out (c\<lparr>rs_audio_upsampler_bypass := 1\<rparr>) os = ((r, c'), os')"
      by (simp add: resampler_init_def Let_def c_def)
    from resampler_init_rds_mpx_held [OF this] h show ?thesis by auto
  next
    case ne: False
    let ?n = "os_next os"
    define os2 where "os2 = os\<lparr>os_next := Suc (Suc ?n),
        os_live := add_mset (Soxr, Suc ?n) (add_mset (Soxr, ?n) (os_live os))\<rparr>"
    show ?thesis
    proof (cases "os_fail os ?n \<or> os_fail os (Suc ?n)")
      case True
      with ne init h show ?thesis
        by (cases "os_fail os ?n")
          (auto simp: resampler_init_def acquire_def Let_def simp flip: c_def dest!: resampler_fail_held)
    next
      case False
      with ne init have "resampler_init_rds_mpx osc out (c2 ?n (Suc ?n)) os2 = ((r, c'), os')"
        by (simp add: resampler_init_def acquire_def Let_def resampler_init_upsampler_threads_def
            c2_def os2_def flip: c_def)
      from resampler_init_rds_mpx_held [OF this] h show ?thesis by (auto simp: os2_def)
    qed
  qed
qed

interpretation resampler: lifecycle "\<lambda>_. True" "\<lambda>os. Some (resampler_init False jack osc out os)"
  "\<lambda>c os. snd (resampler_destroy c os)" resampler_held for jack osc out
  by unfold_locales (auto dest: resampler_init_held simp: resampler_destroy_held)

end
