(* ===== verification/Rds_Encoder.thy ===== *)
theory Rds_Encoder
  imports Rds_Scheduler Resampler "HOL-Library.Sublist"
begin

text \<open>
  The encoder around the scheduler (\<^verbatim>\<open>rds_encoder.c\<close>, from \<^verbatim>\<open>rds_get_next_upsampled_group\<close> on):
  two output buffers, a thread that fills the one that is not being played, the function through
  which the modulator takes a sample at a time, and the initialisation and destruction.

  The static variables of the functions are fields of the record. \<open>None\<close> is a write past a buffer
  or an access through \<^verbatim>\<open>NULL\<close>.
\<close>

subsection \<open>State\<close>

abbreviation (input) RDS_SAMPLE_RATE :: int where "RDS_SAMPLE_RATE \<equiv> 47500"

text \<open>The size of the shared structure with the layout of the x86-64 ABI.\<close>

abbreviation (input) sizeof_rds_encoder_state :: int where "sizeof_rds_encoder_state \<equiv> 108"

datatype rds_encoder_status = RDS_ENC_INACTIVE | RDS_ENC_ACTIVE | RDS_ENC_TERMINATED | RDS_ENC_FAILED

record rds_upsampled_group =
  ug_block :: "nat option"
  ug_waveform :: "real list"
  ug_samples :: int
  ug_result :: int

record rds_encoder =
  enc_state_map :: "shm_mapping option"
  enc_sys :: rds_sys
  enc_outbuf_0 :: rds_upsampled_group
  enc_outbuf_1 :: rds_upsampled_group
  enc_curr_outbuf_idx :: int
  enc_upsampled_waveform_len :: nat
  enc_status :: rds_encoder_status
  enc_tid :: "nat option"
  enc_samples_out :: int

definition enc_outbuf :: "rds_encoder \<Rightarrow> int \<Rightarrow> rds_upsampled_group" where
  "enc_outbuf enc i = (if i = 0 then enc_outbuf_0 enc else enc_outbuf_1 enc)"

definition enc_set_outbuf :: "int \<Rightarrow> rds_upsampled_group \<Rightarrow> rds_encoder \<Rightarrow> rds_encoder" where
  "enc_set_outbuf i ug enc = (if i = 0 then enc\<lparr>enc_outbuf_0 := ug\<rparr> else enc\<lparr>enc_outbuf_1 := ug\<rparr>)"

text \<open>The number of samples after resampling, in \<^verbatim>\<open>float\<close> arithmetic.\<close>

definition num_resampled_samples :: "int \<Rightarrow> int \<Rightarrow> int \<Rightarrow> int" where
  "num_resampled_samples in_srate out_srate num_samples =
     (let ratio = f32 (f32 (of_int out_srate) / f32 (of_int in_srate));
          olenf = f32 (ratio * f32 (of_int num_samples));
          olenf = f32 (max olenf (f64 (of_int num_samples - 1)))
      in c_trunc olenf)"

subsection \<open>The producer\<close>

text \<open>
  \<open>grp\<close> is the content of the uninitialised local variable \<^verbatim>\<open>next_group\<close>. The result is the index of
  the buffer that was written, \<open>None\<close> for the returned \<^verbatim>\<open>NULL\<close>.
\<close>

definition rds_get_next_upsampled_group ::
  "char_abi \<Rightarrow> clock \<Rightarrow> 's soxr_fun \<Rightarrow> resampler_data \<Rightarrow> rds_group \<Rightarrow> rds_encoder \<times> 's \<Rightarrow>
   (int option \<times> rds_encoder \<times> 's) option" where
  "rds_get_next_upsampled_group abi clk soxr_process rsmpl grp es =
     (case es of (enc, s) \<Rightarrow>
        if enc_status enc \<noteq> RDS_ENC_ACTIVE then Some (None, enc, s)
        else
          let out_idx = (if enc_curr_outbuf_idx enc = 0 then 1 else 0);
              outbuf = enc_outbuf enc out_idx
          in case rds_get_next_group abi clk (enc_sys enc) grp of
               None \<Rightarrow> None
             | Some (ret, sys, next_group) \<Rightarrow>
                 let enc = enc\<lparr>enc_sys := sys\<rparr> in
                 if ret < 0 then Some (Some out_idx, enc_set_outbuf out_idx (outbuf\<lparr>ug_result := - 1\<rparr>) enc, s)
                 else
                   (case resampler_upsample_rds soxr_process rsmpl (samples_buffer next_group)
                           (ug_waveform outbuf) RDS_GROUP_SAMPLES (enc_upsampled_waveform_len enc) s of
                      None \<Rightarrow> None
                    | Some (n, waveform, s) \<Rightarrow>
                        let outbuf = outbuf\<lparr>ug_waveform := waveform, ug_samples := n\<rparr>;
                            outbuf = (if ug_samples outbuf < 0 then outbuf\<lparr>ug_samples := 0, ug_result := - 2\<rparr>
                                      else outbuf\<lparr>ug_result := 0\<rparr>)
                        in Some (Some out_idx, enc_set_outbuf out_idx outbuf enc, s)))"

text \<open>
  One round of \<^verbatim>\<open>rds_main_loop\<close>, from the return of \<^verbatim>\<open>pthread_cond_wait\<close> on; \<open>True\<close> when the loop
  goes on. The check of the status and the call are under the same lock.
\<close>

definition rds_main_round ::
  "char_abi \<Rightarrow> clock \<Rightarrow> 's soxr_fun \<Rightarrow> resampler_data \<Rightarrow> rds_group \<Rightarrow> rds_encoder \<times> 's \<Rightarrow>
   (bool \<times> rds_encoder \<times> 's) option" where
  "rds_main_round abi clk soxr_process rsmpl grp es =
     (if enc_status (fst es) \<noteq> RDS_ENC_ACTIVE then Some (False, es)
      else
        case rds_get_next_upsampled_group abi clk soxr_process rsmpl grp es of
          Some (Some i, enc, s) \<Rightarrow>
            let enc = (if ug_result (enc_outbuf enc i) < 0 then enc\<lparr>enc_status := RDS_ENC_FAILED\<rparr> else enc)
            in Some (enc_status enc = RDS_ENC_ACTIVE, enc, s)
        | _ \<Rightarrow> None)"

subsection \<open>The consumer\<close>

text \<open>The sample, whether the producer is signalled, and the encoder after the call.\<close>

definition rds_get_next_sample :: "rds_encoder \<Rightarrow> real \<times> bool \<times> rds_encoder" where
  "rds_get_next_sample enc =
     (let outbuf = enc_outbuf enc (enc_curr_outbuf_idx enc) in
      if enc_status enc \<noteq> RDS_ENC_ACTIVE \<or> st_enabled (sys_st (enc_sys enc)) = 0 then (0, False, enc)
      else if enc_samples_out enc < ug_samples outbuf then
        (ug_waveform outbuf ! nat (enc_samples_out enc), False,
         enc\<lparr>enc_samples_out := enc_samples_out enc + 1\<rparr>)
      else
        let enc = enc\<lparr>enc_curr_outbuf_idx := (if enc_curr_outbuf_idx enc = 0 then 1 else 0)\<rparr>;
            enc = enc\<lparr>enc_samples_out := 0\<rparr>;
            outbuf = enc_outbuf enc (enc_curr_outbuf_idx enc)
        in (ug_waveform outbuf ! nat (enc_samples_out enc), True,
            enc\<lparr>enc_samples_out := enc_samples_out enc + 1\<rparr>))"

subsection \<open>Initialisation and destruction\<close>

definition ug_zero :: rds_upsampled_group where
  "ug_zero = \<lparr>ug_block = None, ug_waveform = [], ug_samples = 0, ug_result = 0\<rparr>"

text \<open>
  \<open>samples_out\<close> and the static variables of the scheduler keep their values over a \<^verbatim>\<open>memset\<close> of the
  structure; \<open>rds_encoder_zero\<close> is the encoder of a process that has just started.
\<close>

definition rds_encoder_zero :: rds_encoder where
  "rds_encoder_zero =
     \<lparr>enc_state_map = None, enc_sys = rds_sys_init, enc_outbuf_0 = ug_zero, enc_outbuf_1 = ug_zero,
      enc_curr_outbuf_idx = 0, enc_upsampled_waveform_len = 0, enc_status = RDS_ENC_INACTIVE,
      enc_tid = None, enc_samples_out = 0\<rparr>"

text \<open>The part of \<^verbatim>\<open>rds_encoder_destroy\<close> from the label \<^verbatim>\<open>inactive\<close> to the signal.\<close>

definition rds_encoder_cleanup :: "rds_encoder \<Rightarrow> os \<Rightarrow> rds_encoder \<times> os" where
  "rds_encoder_cleanup enc os =
     (let enc = enc\<lparr>enc_status := RDS_ENC_TERMINATED\<rparr>;
          os = utils_shm_destroy (enc_state_map enc) True os;
          enc = enc\<lparr>enc_state_map := None\<rparr>;
          os = release_opt Heap (ug_block (enc_outbuf_0 enc)) os;
          enc = enc\<lparr>enc_outbuf_0 := (enc_outbuf_0 enc)\<lparr>ug_block := None\<rparr>\<rparr>;
          os = release_opt Heap (ug_block (enc_outbuf_1 enc)) os;
          enc = enc\<lparr>enc_outbuf_1 := (enc_outbuf_1 enc)\<lparr>ug_block := None\<rparr>\<rparr>
      in (enc, os))"

text \<open>
  An active encoder is stopped together with its thread: the thread leaves \<^verbatim>\<open>rds_main_loop\<close> because
  the status is no longer active and calls \<^verbatim>\<open>rds_encoder_destroy\<close> itself, which runs the part above
  on the same encoder; then the thread is joined and the part above runs once more.
\<close>

definition rds_encoder_destroy :: "rds_encoder \<Rightarrow> os \<Rightarrow> rds_encoder \<times> os" where
  "rds_encoder_destroy enc os =
     (case enc_status enc of
        RDS_ENC_INACTIVE \<Rightarrow> rds_encoder_cleanup enc os
      | RDS_ENC_FAILED \<Rightarrow>
          (case rds_encoder_cleanup enc os of (enc, os) \<Rightarrow> (enc, raise_sigterm os))
      | RDS_ENC_TERMINATED \<Rightarrow> (enc, os)
      | RDS_ENC_ACTIVE \<Rightarrow>
          let enc = enc\<lparr>enc_status := RDS_ENC_INACTIVE\<rparr>
          in (case enc_tid enc of
                None \<Rightarrow> rds_encoder_cleanup enc os
              | Some tid \<Rightarrow>
                  (case rds_encoder_cleanup enc os of
                     (enc, os) \<Rightarrow> rds_encoder_cleanup enc (release Thread tid os))))"

definition rds_encoder_fail :: "int \<Rightarrow> rds_encoder \<Rightarrow> os \<Rightarrow> ((int \<times> rds_encoder) \<times> os) option" where
  "rds_encoder_fail ret enc os = (case rds_encoder_destroy enc os of (enc, os) \<Rightarrow> Some ((ret, enc), os))"

text \<open>\<^verbatim>\<open>rds_encoder_init\<close> from the allocation of the buffers (of \<open>n\<close> samples each) on.\<close>

definition rds_encoder_init_rest :: "nat \<Rightarrow> shm_mapping \<Rightarrow> rds_encoder \<Rightarrow> os \<Rightarrow> ((int \<times> rds_encoder) \<times> os) option" where
  "rds_encoder_init_rest n m enc os =
     (case acquire Heap os of (b, os) \<Rightarrow>
        let enc = enc\<lparr>enc_outbuf_0 := ug_zero\<lparr>ug_block := b, ug_waveform := replicate n 0\<rparr>\<rparr>
        in if b = None then rds_encoder_fail (- 3) enc os
           else
             case acquire Heap os of (b, os) \<Rightarrow>
               let enc = enc\<lparr>enc_outbuf_1 := ug_zero\<lparr>ug_block := b, ug_waveform := replicate n 0\<rparr>\<rparr>
               in if b = None then rds_encoder_fail (- 4) enc os
                  else if shm_mem m = Mem_Null then None
                  else
                    let sys = enc_sys enc;
                        enc = enc\<lparr>enc_sys := sys\<lparr>sys_st := (sys_st sys)\<lparr>st_ms := 1, st_di := 0x9\<rparr>\<rparr>,
                                  enc_status := RDS_ENC_ACTIVE\<rparr>
                    in case acquire Thread os of
                         (None, os) \<Rightarrow> rds_encoder_fail (- 5) (enc\<lparr>enc_status := RDS_ENC_FAILED\<rparr>) os
                       | (Some tid, os) \<Rightarrow> Some ((0, enc\<lparr>enc_tid := Some tid\<rparr>), os))"

text \<open>
  \<^verbatim>\<open>rds_encoder_init\<close> for a process that has just started. The state is all zero after
  \<^verbatim>\<open>utils_shm_init\<close>; a mapping without memory makes \<^verbatim>\<open>enc->state\<close> \<^verbatim>\<open>NULL\<close>.
\<close>

definition rds_encoder_init :: "resampler_data \<Rightarrow> os \<Rightarrow> ((int \<times> rds_encoder) \<times> os) option" where
  "rds_encoder_init rsmpl os =
     (let enc = rds_encoder_zero in
      case utils_shm_init RDS_ENC_SHM_NAME sizeof_rds_encoder_state os of
        (None, os) \<Rightarrow> Some ((- 2, enc), os)
      | (Some m, os) \<Rightarrow>
          let enc = enc\<lparr>enc_state_map := Some m\<rparr>;
              n = nat (num_resampled_samples RDS_SAMPLE_RATE (uint (rs_osc_samplerate rsmpl)) 4160);
              enc = enc\<lparr>enc_upsampled_waveform_len := n * 4\<rparr>
          in rds_encoder_init_rest n m enc os)"

subsection \<open>Resources\<close>

definition enc_blocks :: "rds_encoder \<Rightarrow> resource multiset" where
  "enc_blocks enc =
     map_held (enc_state_map enc) + held_opt Heap (ug_block (enc_outbuf_0 enc)) +
     held_opt Heap (ug_block (enc_outbuf_1 enc))"

definition enc_held :: "rds_encoder \<Rightarrow> resource multiset" where
  "enc_held enc =
     (if enc_status enc = RDS_ENC_TERMINATED then {#}
      else enc_blocks enc + (if enc_status enc = RDS_ENC_ACTIVE then held_opt Thread (enc_tid enc) else {#}))"

lemma rds_encoder_cleanup_held:
  assumes "enc_blocks enc \<subseteq># os_live os"
  shows "os_live (snd (rds_encoder_cleanup enc os)) = os_live os - enc_blocks enc"
    and "os_fault (snd (rds_encoder_cleanup enc os)) = os_fault os"
    and "enc_blocks (fst (rds_encoder_cleanup enc os)) = {#}"
    and "enc_status (fst (rds_encoder_cleanup enc os)) = RDS_ENC_TERMINATED"
    and "enc_tid (fst (rds_encoder_cleanup enc os)) = enc_tid enc"
proof -
  let ?m = "map_held (enc_state_map enc)" and ?a = "held_opt Heap (ug_block (enc_outbuf_0 enc))"
    and ?b = "held_opt Heap (ug_block (enc_outbuf_1 enc))"
  let ?os1 = "utils_shm_destroy (enc_state_map enc) True os"
  have m: "?m \<subseteq># os_live os" and ab: "?a + ?b \<subseteq># os_live os - ?m"
    using subset_add_left [of ?m "?a + ?b" "os_live os"] assms by (simp_all add: enc_blocks_def add.assoc)
  have os1: "os_live ?os1 = os_live os - ?m" "os_fault ?os1 = os_fault os"
    using utils_shm_destroy_map [OF m] by simp_all
  have a: "?a \<subseteq># os_live ?os1" and b: "?b \<subseteq># os_live ?os1 - ?a"
    using subset_add_left [OF ab] os1 by simp_all
  let ?os2 = "release_opt Heap (ug_block (enc_outbuf_0 enc)) ?os1"
  have os2: "os_live ?os2 = os_live ?os1 - ?a" "os_fault ?os2 = os_fault os"
    using release_opt_held [OF a] os1 by simp_all
  have "os_live (release_opt Heap (ug_block (enc_outbuf_1 enc)) ?os2) = os_live os - ?m - ?a - ?b"
    "os_fault (release_opt Heap (ug_block (enc_outbuf_1 enc)) ?os2) = os_fault os"
    using release_opt_held [of Heap "ug_block (enc_outbuf_1 enc)" ?os2] b os1 os2 by simp_all
  then show "os_live (snd (rds_encoder_cleanup enc os)) = os_live os - enc_blocks enc"
    "os_fault (snd (rds_encoder_cleanup enc os)) = os_fault os"
    by (simp_all add: rds_encoder_cleanup_def Let_def enc_blocks_def)
qed (simp_all add: rds_encoder_cleanup_def Let_def enc_blocks_def map_held_def)

lemma rds_encoder_destroy_held:
  assumes "enc_held enc \<subseteq># os_live os"
  shows "os_live (snd (rds_encoder_destroy enc os)) = os_live os - enc_held enc"
    and "os_fault (snd (rds_encoder_destroy enc os)) = os_fault os"
proof -
  have "os_live (snd (rds_encoder_destroy enc os)) = os_live os - enc_held enc \<and>
    os_fault (snd (rds_encoder_destroy enc os)) = os_fault os"
  proof (cases "enc_status enc = RDS_ENC_ACTIVE")
    case True
    let ?e = "enc\<lparr>enc_status := RDS_ENC_INACTIVE\<rparr>"
    have same: "enc_blocks ?e = enc_blocks enc" by (simp add: enc_blocks_def)
    have sub: "enc_blocks ?e \<subseteq># os_live os" "held_opt Thread (enc_tid enc) \<subseteq># os_live os - enc_blocks ?e"
      using subset_add_left [of "enc_blocks enc" "held_opt Thread (enc_tid enc)" "os_live os"] assms True
      by (simp_all add: enc_held_def same)
    note c = rds_encoder_cleanup_held [OF sub(1)]
    show ?thesis
    proof (cases "enc_tid enc")
      case None
      then show ?thesis using True c by (simp add: rds_encoder_destroy_def enc_held_def same)
    next
      case (Some tid)
      obtain e1 os1 where run: "rds_encoder_cleanup ?e os = (e1, os1)"
        by (cases "rds_encoder_cleanup ?e os")
      let ?os2 = "release Thread tid os1"
      have "(Thread, tid) \<in># os_live os1" using sub(2) Some c(1) run by simp
      then have os2: "os_live ?os2 = os_live os - enc_held enc" "os_fault ?os2 = os_fault os"
        using c run Some True by (simp_all add: release_def enc_held_def same)
      have "enc_blocks e1 = {#}" using c(3) run by simp
      then have "os_live (snd (rds_encoder_cleanup e1 ?os2)) = os_live ?os2"
        "os_fault (snd (rds_encoder_cleanup e1 ?os2)) = os_fault ?os2"
        using rds_encoder_cleanup_held [of e1 ?os2] by simp_all
      then show ?thesis using True Some run os2 by (simp add: rds_encoder_destroy_def)
    qed
  next
    case False
    show ?thesis
    proof (cases "enc_status enc = RDS_ENC_TERMINATED")
      case True
      then show ?thesis by (simp add: rds_encoder_destroy_def enc_held_def)
    next
      case 2: False
      then have sub: "enc_blocks enc \<subseteq># os_live os" using assms False by (simp add: enc_held_def)
      show ?thesis
        using rds_encoder_cleanup_held(1,2) [OF sub] False 2
        by (cases "enc_status enc")
          (auto simp: rds_encoder_destroy_def enc_held_def raise_sigterm_def split: prod.splits)
    qed
  qed
  then show "os_live (snd (rds_encoder_destroy enc os)) = os_live os - enc_held enc"
    "os_fault (snd (rds_encoder_destroy enc os)) = os_fault os" by auto
qed

lemma rds_encoder_fail_held:
  assumes "rds_encoder_fail ret enc os = Some ((r, c), os')" "enc_held enc \<subseteq># os_live os"
  shows "r = ret \<and> os_live os' = os_live os - enc_held enc \<and> os_fault os' = os_fault os"
  using assms(1) rds_encoder_destroy_held [OF assms(2)]
  by (auto simp: rds_encoder_fail_def split: prod.splits)

lemma rds_encoder_init_rest_held:
  assumes run: "rds_encoder_init_rest n m enc os = Some ((r, c), os')"
    and enc: "enc_state_map enc = Some m" "enc_status enc = RDS_ENC_INACTIVE" "shm_mem m \<noteq> Mem_Null"
      "ug_block (enc_outbuf_0 enc) = None" "ug_block (enc_outbuf_1 enc) = None"
    and live: "os_live os = rest + map_held (Some m)"
  shows "os_fault os' = os_fault os \<and> (r < 0 \<longrightarrow> os_live os' = rest) \<and>
    (0 \<le> r \<longrightarrow> os_live os' = rest + enc_held c)"
proof -
  have h: "enc_held (enc\<lparr>enc_outbuf_0 := ug_zero\<lparr>ug_block := None, ug_waveform := w\<rparr>\<rparr>) = map_held (Some m)"
    "enc_held (enc\<lparr>enc_outbuf_0 := ug_zero\<lparr>ug_block := Some a, ug_waveform := w\<rparr>,
        enc_outbuf_1 := ug_zero\<lparr>ug_block := None, ug_waveform := w\<rparr>\<rparr>) = add_mset (Heap, a) (map_held (Some m))"
    for a w
    using enc by (simp_all add: enc_held_def enc_blocks_def ug_zero_def)
  let ?n = "os_next os"
  consider "os_fail os ?n" | "\<not> os_fail os ?n" "os_fail os (Suc ?n)"
    | "\<not> os_fail os ?n" "\<not> os_fail os (Suc ?n)" by blast
  then show ?thesis
  proof cases
    case 1
    with run enc live h(1) show ?thesis
      by (auto simp: rds_encoder_init_rest_def acquire_def dest!: rds_encoder_fail_held)
  next
    case 2
    with run enc live h(2) show ?thesis
      by (auto simp: rds_encoder_init_rest_def acquire_def Let_def dest!: rds_encoder_fail_held)
  next
    case 3
    with run enc live show ?thesis
      by (auto simp: rds_encoder_init_rest_def acquire_def Let_def enc_held_def enc_blocks_def ug_zero_def
          split: if_splits dest!: rds_encoder_fail_held)
  qed
qed

lemma rds_encoder_init_rest_null:
  "rds_encoder_init_rest n m enc os = Some ((r, c), os') \<Longrightarrow> 0 \<le> r \<Longrightarrow> shm_mem m \<noteq> Mem_Null"
  by (auto simp: rds_encoder_init_rest_def rds_encoder_fail_def Let_def split: prod.splits if_splits option.splits)

lemma rds_encoder_init_rest_runs: "shm_mem m \<noteq> Mem_Null \<Longrightarrow> rds_encoder_init_rest n m enc os \<noteq> None"
  by (auto simp: rds_encoder_init_rest_def rds_encoder_fail_def Let_def split: prod.splits option.splits)

lemma rds_encoder_init_ok:
  assumes "rds_encoder_init rsmpl os = Some ((r, c), os')" "0 \<le> r"
  shows "os_live os' = os_live os + enc_held c \<and> os_fault os' = os_fault os"
proof -
  obtain res os1 where shm: "utils_shm_init RDS_ENC_SHM_NAME sizeof_rds_encoder_state os = (res, os1)"
    by (cases "utils_shm_init RDS_ENC_SHM_NAME sizeof_rds_encoder_state os")
  with assms obtain m where m: "res = Some m" by (cases res) (auto simp: rds_encoder_init_def)
  from assms shm m obtain n enc where rest: "rds_encoder_init_rest n m enc os1 = Some ((r, c), os')"
    and enc: "enc_state_map enc = Some m" "enc_status enc = RDS_ENC_INACTIVE"
      "ug_block (enc_outbuf_0 enc) = None" "ug_block (enc_outbuf_1 enc) = None"
    by (auto simp: rds_encoder_init_def Let_def rds_encoder_zero_def ug_zero_def)
  have mem: "shm_mem m \<noteq> Mem_Null" using rds_encoder_init_rest_null [OF rest assms(2)] .
  have "os_live os1 = os_live os + map_held (Some m)" "os_fault os1 = os_fault os"
    using utils_shm_init_map [OF _ mem] utils_shm_init_cases(1) shm m by blast+
  with rds_encoder_init_rest_held [OF rest enc(1,2) mem enc(3,4)] assms(2) show ?thesis by auto
qed

lemma rds_encoder_init_env:
  assumes "shm_env RDS_ENC_SHM_NAME os"
  shows "rds_encoder_init rsmpl os \<noteq> None"
    and "rds_encoder_init rsmpl os = Some ((r, c), os') \<Longrightarrow> r < 0 \<Longrightarrow>
      os_live os' = os_live os \<and> os_fault os' = os_fault os"
proof -
  obtain res os1 where shm: "utils_shm_init RDS_ENC_SHM_NAME sizeof_rds_encoder_state os = (res, os1)"
    by (cases "utils_shm_init RDS_ENC_SHM_NAME sizeof_rds_encoder_state os")
  note env = utils_shm_init_env [OF shm assms]
  show "rds_encoder_init rsmpl os \<noteq> None"
    using shm env(3) rds_encoder_init_rest_runs
    by (cases res) (auto simp: rds_encoder_init_def Let_def)
  assume run: "rds_encoder_init rsmpl os = Some ((r, c), os')" "r < 0"
  show "os_live os' = os_live os \<and> os_fault os' = os_fault os"
  proof (cases res)
    case None
    with run shm env show ?thesis by (auto simp: rds_encoder_init_def)
  next
    case (Some m)
    from run(1) shm Some obtain n enc where rest: "rds_encoder_init_rest n m enc os1 = Some ((r, c), os')"
      and enc: "enc_state_map enc = Some m" "enc_status enc = RDS_ENC_INACTIVE"
        "ug_block (enc_outbuf_0 enc) = None" "ug_block (enc_outbuf_1 enc) = None"
      by (auto simp: rds_encoder_init_def Let_def rds_encoder_zero_def ug_zero_def)
    have "os_live os1 = os_live os + map_held (Some m)" "shm_mem m \<noteq> Mem_Null" "os_fault os1 = os_fault os"
      using env Some by simp_all
    with rds_encoder_init_rest_held [OF rest enc(1,2) _ enc(3,4)] run(2) show ?thesis by auto
  qed
qed

interpretation encoder: lifecycle "shm_env RDS_ENC_SHM_NAME" "rds_encoder_init rsmpl"
  "\<lambda>c os. snd (rds_encoder_destroy c os)" enc_held for rsmpl
  by unfold_locales
    (use rds_encoder_init_env rds_encoder_init_ok rds_encoder_destroy_held in \<open>blast+\<close>)



subsection \<open>The stream of samples\<close>

text \<open>
  The modulator takes a sample; when the call signals the producer, the producer runs a round
  before the next sample is taken.
\<close>

definition enc_pull ::
  "char_abi \<Rightarrow> clock \<Rightarrow> 's soxr_fun \<Rightarrow> resampler_data \<Rightarrow> rds_group \<Rightarrow> rds_encoder \<times> 's \<Rightarrow>
   (real \<times> rds_encoder \<times> 's) option" where
  "enc_pull abi clk soxr_process rsmpl grp es =
     (case rds_get_next_sample (fst es) of
        (out, signalled, enc) \<Rightarrow>
          if signalled then
            (case rds_main_round abi clk soxr_process rsmpl grp (enc, snd es) of
               Some (True, es) \<Rightarrow> Some (out, es)
             | _ \<Rightarrow> None)
          else Some (out, enc, snd es))"

fun enc_pulls ::
  "char_abi \<Rightarrow> clock list \<Rightarrow> 's soxr_fun \<Rightarrow> resampler_data \<Rightarrow> rds_group \<Rightarrow> rds_encoder \<times> 's \<Rightarrow>
   (real list \<times> rds_encoder \<times> 's) option" where
  "enc_pulls abi [] soxr_process rsmpl grp es = Some ([], es)"
| "enc_pulls abi (clk # clks) soxr_process rsmpl grp es =
     (case enc_pull abi clk soxr_process rsmpl grp es of
        None \<Rightarrow> None
      | Some (x, es) \<Rightarrow>
          map_option (\<lambda>(xs, es). (x # xs, es)) (enc_pulls abi clks soxr_process rsmpl grp es))"

text \<open>The waveforms of consecutive groups, upsampled one after the other.\<close>

definition group_wave ::
  "char_abi \<Rightarrow> clock \<Rightarrow> 's soxr_fun \<Rightarrow> resampler_data \<Rightarrow> nat \<Rightarrow> rds_sys \<times> 's \<Rightarrow> real list \<times> rds_sys \<times> 's" where
  "group_wave abi clk soxr_process rsmpl len gs =
     (case gs of (sys, s) \<Rightarrow>
        (case soxr_process (rs_rds_upsampler rsmpl)
                (samples_buffer (gen_group abi clk (kind_group (cfg_of (sys_st sys)) (next_kind sys)) sys)) len s of
           ((error, used, wave), s) \<Rightarrow> (wave, next_sys abi clk sys, s)))"

fun group_waves ::
  "char_abi \<Rightarrow> clock list \<Rightarrow> 's soxr_fun \<Rightarrow> resampler_data \<Rightarrow> nat \<Rightarrow> rds_sys \<times> 's \<Rightarrow>
   real list list \<times> rds_sys \<times> 's" where
  "group_waves abi [] soxr_process rsmpl len gs = ([], gs)"
| "group_waves abi (clk # clks) soxr_process rsmpl len gs =
     (case group_wave abi clk soxr_process rsmpl len gs of
        (w, gs) \<Rightarrow> (case group_waves abi clks soxr_process rsmpl len gs of (ws, gs) \<Rightarrow> (w # ws, gs)))"

text \<open>What is assumed of SoXr: no error, at least one frame, and no more than the buffer holds.\<close>

definition rds_soxr_ok :: "'s soxr_fun \<Rightarrow> resampler_data \<Rightarrow> nat \<Rightarrow> bool" where
  "rds_soxr_ok soxr_process rsmpl n \<longleftrightarrow>
     (\<forall>xs m s. length xs = 4160 \<longrightarrow>
        (case soxr_process (rs_rds_upsampler rsmpl) xs m s of
           ((error, used, wave), _) \<Rightarrow> error = 0 \<and> wave \<noteq> [] \<and> length wave \<le> n))"

lemma enabled_group_next [simp]: "st_enabled (sys_st (group_next code version sys)) = st_enabled (sys_st sys)"
  by (simp add: group_next_def next_ps_idx_def next_af_idx_def next_rt_idx_def next_ptyn_idx_def Let_def)

lemma enabled_next_sys [simp]: "st_enabled (sys_st (next_sys abi clk sys)) = st_enabled (sys_st sys)"
  by (simp add: next_sys_def gen_sys_def split: prod.splits)

lemma length_gen_group: "length (samples_buffer (gen_group abi clk cv sys)) = 4160"
  using group_shape_sent unfolding gen_group_def group_shape_def by blast

text \<open>A round of the producer on an active encoder.\<close>

lemma rds_main_round_wave:
  assumes ok: "sys_ok abi (enc_sys enc)" "clock_ok clk" "enc_status enc = RDS_ENC_ACTIVE"
    and soxr: "rds_soxr_ok soxr_process rsmpl n"
    and i_def: "i = (if enc_curr_outbuf_idx enc = 0 then 1 else 0)"
    and len: "length (ug_waveform (enc_outbuf enc i)) = n"
    and wave: "group_wave abi clk soxr_process rsmpl (enc_upsampled_waveform_len enc) (enc_sys enc, s) = (w, sys', s')"
  shows "rds_main_round abi clk soxr_process rsmpl grp (enc, s) =
      Some (True, enc_set_outbuf i ((enc_outbuf enc i)\<lparr>ug_waveform := w @ drop (length w) (ug_waveform (enc_outbuf enc i)),
        ug_samples := int (length w), ug_result := 0\<rparr>) (enc\<lparr>enc_sys := sys'\<rparr>), s') \<and>
    w \<noteq> [] \<and> length w \<le> n \<and> sys_ok abi sys' \<and> st_enabled (sys_st sys') = st_enabled (sys_st (enc_sys enc))"
proof -
  let ?sys = "enc_sys enc" and ?buf = "ug_waveform (enc_outbuf enc i)"
  let ?g = "gen_group abi clk (kind_group (cfg_of (sys_st ?sys)) (next_kind ?sys)) ?sys"
  have grp: "rds_get_next_group abi clk ?sys grp = Some (0, next_sys abi clk ?sys, ?g)"
    using ok next_group_eq [of ?sys clk abi grp] by (simp add: sys_ok_def)
  have in4160: "take 4160 (samples_buffer ?g) = samples_buffer ?g" "length (samples_buffer ?g) = 4160"
    using length_gen_group [of abi clk _ ?sys] by simp_all
  obtain e u where run: "soxr_process (rs_rds_upsampler rsmpl) (samples_buffer ?g) (enc_upsampled_waveform_len enc) s =
      ((e, u, w), s')" and sys': "sys' = next_sys abi clk ?sys"
    using wave by (auto simp: group_wave_def split: prod.splits)
  have e: "e = 0" "w \<noteq> []" "length w \<le> n"
    using soxr [unfolded rds_soxr_ok_def, rule_format, OF in4160(2), of "enc_upsampled_waveform_len enc" s] run
    by simp_all
  have up: "resampler_upsample_rds soxr_process rsmpl (samples_buffer ?g) ?buf 4160 (enc_upsampled_waveform_len enc) s =
      Some (int (length w), w @ drop (length w) ?buf, s')"
    using run e len in4160 by (simp add: resampler_upsample_rds_def write_buf_def)
  have "rds_get_next_upsampled_group abi clk soxr_process rsmpl grp (enc, s) =
      Some (Some i, enc_set_outbuf i ((enc_outbuf enc i)\<lparr>ug_waveform := w @ drop (length w) ?buf,
        ug_samples := int (length w), ug_result := 0\<rparr>) (enc\<lparr>enc_sys := sys'\<rparr>), s')"
    using ok(3) grp up sys' by (simp add: rds_get_next_upsampled_group_def Let_def flip: i_def)
  then show ?thesis
    using ok e sys' sys_ok_next [OF ok(1), of clk]
    by (simp add: rds_main_round_def enc_set_outbuf_def enc_outbuf_def)
qed

text \<open>
  While the stream runs: \<open>outs\<close> are the samples taken so far, \<open>vs\<close> the waveforms that have been
  played or are being played, \<open>w\<close> the waveform that waits in the other buffer.
\<close>

definition other_idx :: "rds_encoder \<Rightarrow> int" where
  "other_idx enc = (if enc_curr_outbuf_idx enc = 0 then 1 else 0)"

definition holds_wave :: "nat \<Rightarrow> rds_upsampled_group \<Rightarrow> real list \<Rightarrow> bool" where
  "holds_wave n ug u \<longleftrightarrow>
     length (ug_waveform ug) = n \<and> ug_samples ug = int (length u) \<and> take (length u) (ug_waveform ug) = u"

definition stream_inv ::
  "char_abi \<Rightarrow> nat \<Rightarrow> rds_encoder \<Rightarrow> real list \<Rightarrow> real list list \<Rightarrow> real list \<Rightarrow> bool" where
  "stream_inv abi n enc outs vs w \<longleftrightarrow>
     sys_ok abi (enc_sys enc) \<and> enc_status enc = RDS_ENC_ACTIVE \<and> st_enabled (sys_st (enc_sys enc)) \<noteq> 0 \<and>
     0 \<le> enc_samples_out enc \<and>
     (\<exists>u. holds_wave n (enc_outbuf enc (enc_curr_outbuf_idx enc)) u \<and>
        outs @ drop (nat (enc_samples_out enc)) u = 0 # concat vs) \<and>
     holds_wave n (enc_outbuf enc (other_idx enc)) w \<and> w \<noteq> []"

lemma take_nth_eq: "take (length u) xs = u \<Longrightarrow> i < length u \<Longrightarrow> xs ! i = u ! i"
  by (metis nth_take)

lemma stream_inv_play:
  assumes inv: "stream_inv abi n enc outs vs w"
    and more: "enc_samples_out enc < ug_samples (enc_outbuf enc (enc_curr_outbuf_idx enc))"
  shows "\<exists>x. enc_pull abi clk soxr_process rsmpl grp (enc, s) =
      Some (x, enc\<lparr>enc_samples_out := enc_samples_out enc + 1\<rparr>, s) \<and>
    stream_inv abi n (enc\<lparr>enc_samples_out := enc_samples_out enc + 1\<rparr>) (outs @ [x]) vs w"
proof -
  let ?k = "nat (enc_samples_out enc)"
  obtain u where u: "holds_wave n (enc_outbuf enc (enc_curr_outbuf_idx enc)) u"
    "outs @ drop ?k u = 0 # concat vs" using inv by (auto simp: stream_inv_def)
  have k: "?k < length u" "nat (enc_samples_out enc + 1) = Suc ?k"
    using u more inv by (auto simp: holds_wave_def stream_inv_def)
  then have x: "ug_waveform (enc_outbuf enc (enc_curr_outbuf_idx enc)) ! ?k = u ! ?k"
    using u(1) take_nth_eq by (auto simp: holds_wave_def)
  have "drop ?k u = u ! ?k # drop (Suc ?k) u" using k by (simp add: Cons_nth_drop_Suc)
  with u k have "(outs @ [u ! ?k]) @ drop (nat (enc_samples_out enc + 1)) u = 0 # concat vs" by simp
  then show ?thesis
    using inv more u x
    by (auto simp: stream_inv_def enc_pull_def rds_get_next_sample_def Let_def enc_outbuf_def other_idx_def)
qed

lemma stream_inv_switch:
  assumes inv: "stream_inv abi n enc outs vs w" and clk: "clock_ok clk"
    and soxr: "rds_soxr_ok soxr_process rsmpl n"
    and last: "\<not> enc_samples_out enc < ug_samples (enc_outbuf enc (enc_curr_outbuf_idx enc))"
    and wave: "group_wave abi clk soxr_process rsmpl (enc_upsampled_waveform_len enc) (enc_sys enc, s) = (w', sys', s')"
  shows "\<exists>x enc'. enc_pull abi clk soxr_process rsmpl grp (enc, s) = Some (x, enc', s') \<and>
    enc_sys enc' = sys' \<and> enc_upsampled_waveform_len enc' = enc_upsampled_waveform_len enc \<and>
    stream_inv abi n enc' (outs @ [x]) (vs @ [w]) w'"
proof -
  obtain u where u: "holds_wave n (enc_outbuf enc (enc_curr_outbuf_idx enc)) u"
    "outs @ drop (nat (enc_samples_out enc)) u = 0 # concat vs" using inv by (auto simp: stream_inv_def)
  have outs: "outs = 0 # concat vs" using u last inv by (auto simp: holds_wave_def stream_inv_def)
  let ?e = "enc\<lparr>enc_curr_outbuf_idx := other_idx enc, enc_samples_out := 1\<rparr>"
  let ?old = "if other_idx enc = 0 then 1 else 0 :: int"
  have old: "enc_outbuf ?e ?old = enc_outbuf enc (enc_curr_outbuf_idx enc)"
    by (simp add: enc_outbuf_def other_idx_def)
  have w: "holds_wave n (enc_outbuf enc (other_idx enc)) w" "w \<noteq> []" using inv by (simp_all add: stream_inv_def)
  then have x: "ug_waveform (enc_outbuf enc (other_idx enc)) ! 0 = w ! 0"
    using take_nth_eq [of w "ug_waveform (enc_outbuf enc (other_idx enc))" 0] unfolding holds_wave_def by blast
  have get: "rds_get_next_sample enc = (w ! 0, True, ?e)"
    using inv last x
    by (cases "enc_curr_outbuf_idx enc = 0")
      (simp_all add: rds_get_next_sample_def stream_inv_def Let_def enc_outbuf_def other_idx_def)
  have e: "sys_ok abi (enc_sys ?e)" "enc_status ?e = RDS_ENC_ACTIVE"
      "?old = (if enc_curr_outbuf_idx ?e = 0 then 1 else 0)"
      "length (ug_waveform (enc_outbuf ?e ?old)) = n"
      "group_wave abi clk soxr_process rsmpl (enc_upsampled_waveform_len ?e) (enc_sys ?e, s) = (w', sys', s')"
      "st_enabled (sys_st (enc_sys ?e)) \<noteq> 0"
    unfolding old using inv wave u by (simp_all add: stream_inv_def holds_wave_def)
  note main = rds_main_round_wave [OF e(1) clk e(2) soxr e(3-5), of grp]
  obtain e' where e': "rds_main_round abi clk soxr_process rsmpl grp (?e, s) = Some (True, e', s')"
    "e' = enc_set_outbuf ?old ((enc_outbuf ?e ?old)\<lparr>ug_waveform := w' @ drop (length w') (ug_waveform (enc_outbuf ?e ?old)),
        ug_samples := int (length w'), ug_result := 0\<rparr>) (?e\<lparr>enc_sys := sys'\<rparr>)"
    "w' \<noteq> []" "length w' \<le> n" "sys_ok abi sys'" "st_enabled (sys_st sys') \<noteq> 0"
    using main e(6) by simp
  have cur: "enc_outbuf e' (enc_curr_outbuf_idx e') = enc_outbuf enc (other_idx enc)"
    "enc_outbuf e' (other_idx e') = (enc_outbuf enc (enc_curr_outbuf_idx enc))\<lparr>
       ug_waveform := w' @ drop (length w') (ug_waveform (enc_outbuf enc (enc_curr_outbuf_idx enc))),
       ug_samples := int (length w'), ug_result := 0\<rparr>"
    using old by (auto simp: e'(2) enc_set_outbuf_def enc_outbuf_def other_idx_def)
  have "(outs @ [w ! 0]) @ drop 1 w = 0 # concat (vs @ [w])"
    using outs w(2) by (cases w) simp_all
  moreover have "enc_samples_out e' = 1" "enc_status e' = enc_status enc" "enc_sys e' = sys'"
    "enc_upsampled_waveform_len e' = enc_upsampled_waveform_len enc"
    by (simp_all add: e'(2) enc_set_outbuf_def)
  ultimately have "stream_inv abi n e' (outs @ [w ! 0]) (vs @ [w]) w'"
    using inv e' w u unfolding stream_inv_def cur by (auto simp: holds_wave_def)
  with get e' show ?thesis
    by (auto simp: enc_pull_def enc_set_outbuf_def)
qed

lemma group_waves_append:
  "group_waves abi (xs @ ys) soxr_process rsmpl len gs =
     (case group_waves abi xs soxr_process rsmpl len gs of
        (ws, gs) \<Rightarrow> (case group_waves abi ys soxr_process rsmpl len gs of (vs, gs) \<Rightarrow> (ws @ vs, gs)))"
  by (induction xs arbitrary: gs) (auto split: prod.splits)

lemma stream_run:
  assumes "stream_inv abi n enc outs vs w" "\<forall>clk \<in> set clks. clock_ok clk"
    and soxr: "rds_soxr_ok soxr_process rsmpl n"
  shows "\<exists>xs enc' s' cs ws vs' w'. enc_pulls abi clks soxr_process rsmpl grp (enc, s) = Some (xs, enc', s') \<and>
    length xs = length clks \<and> subseq cs clks \<and>
    group_waves abi cs soxr_process rsmpl (enc_upsampled_waveform_len enc) (enc_sys enc, s) = (ws, enc_sys enc', s') \<and>
    stream_inv abi n enc' (outs @ xs) vs' w' \<and> vs' @ [w'] = vs @ [w] @ ws"
  using assms(1,2)
proof (induction clks arbitrary: enc outs vs w s)
  case Nil
  then show ?case
    by (intro exI [of _ "[] :: real list"] exI [of _ enc] exI [of _ s] exI [of _ "[] :: clock list"]
        exI [of _ "[] :: real list list"] exI [of _ vs] exI [of _ w]) auto
next
  case (Cons clk clks)
  show ?case
  proof (cases "enc_samples_out enc < ug_samples (enc_outbuf enc (enc_curr_outbuf_idx enc))")
    case True
    let ?e = "enc\<lparr>enc_samples_out := enc_samples_out enc + 1\<rparr>"
    obtain x where x: "enc_pull abi clk soxr_process rsmpl grp (enc, s) = Some (x, ?e, s)"
      "stream_inv abi n ?e (outs @ [x]) vs w" 
      using stream_inv_play [OF Cons.prems(1) True, of clk soxr_process rsmpl grp s] by blast
    from Cons.IH [OF x(2), of s] Cons.prems(2) obtain xs enc' s' cs ws vs' w' where
      "enc_pulls abi clks soxr_process rsmpl grp (?e, s) = Some (xs, enc', s')" "length xs = length clks"
      "subseq cs clks"
      "group_waves abi cs soxr_process rsmpl (enc_upsampled_waveform_len enc) (enc_sys enc, s) = (ws, enc_sys enc', s')"
      "stream_inv abi n enc' ((outs @ [x]) @ xs) vs' w'" "vs' @ [w'] = vs @ [w] @ ws" by auto
    with x(1) show ?thesis
      by (intro exI [of _ "x # xs"] exI [of _ enc'] exI [of _ s'] exI [of _ cs] exI [of _ ws]
          exI [of _ vs'] exI [of _ w']) auto
  next
    case False
    obtain w2 sys2 s2 where wave:
      "group_wave abi clk soxr_process rsmpl (enc_upsampled_waveform_len enc) (enc_sys enc, s) = (w2, sys2, s2)"
      by (metis prod_cases3)
    have clk: "clock_ok clk" using Cons.prems by simp
    obtain x e where x: "enc_pull abi clk soxr_process rsmpl grp (enc, s) = Some (x, e, s2)"
      "enc_sys e = sys2" "enc_upsampled_waveform_len e = enc_upsampled_waveform_len enc"
      "stream_inv abi n e (outs @ [x]) (vs @ [w]) w2"
      using stream_inv_switch [OF Cons.prems(1) clk soxr False wave, of grp] by blast
    from Cons.IH [OF x(4), of s2] Cons.prems(2) x obtain xs enc' s' cs ws vs' w' where
      "enc_pulls abi clks soxr_process rsmpl grp (e, s2) = Some (xs, enc', s')" "length xs = length clks"
      "subseq cs clks"
      "group_waves abi cs soxr_process rsmpl (enc_upsampled_waveform_len enc) (sys2, s2) = (ws, enc_sys enc', s')"
      "stream_inv abi n enc' ((outs @ [x]) @ xs) vs' w'" "vs' @ [w'] = (vs @ [w]) @ [w2] @ ws" by auto
    with x(1) wave show ?thesis
      by (intro exI [of _ "x # xs"] exI [of _ enc'] exI [of _ s'] exI [of _ "clk # cs"] exI [of _ "w2 # ws"]
          exI [of _ vs'] exI [of _ w']) auto
  qed
qed

text \<open>The first call, on an encoder that has just been started.\<close>

definition enc_fresh :: "char_abi \<Rightarrow> nat \<Rightarrow> rds_encoder \<Rightarrow> bool" where
  "enc_fresh abi n enc \<longleftrightarrow>
     sys_ok abi (enc_sys enc) \<and> enc_status enc = RDS_ENC_ACTIVE \<and> st_enabled (sys_st (enc_sys enc)) \<noteq> 0 \<and>
     enc_curr_outbuf_idx enc = 0 \<and> enc_samples_out enc = 0 \<and> 0 < n \<and>
     ug_waveform (enc_outbuf_0 enc) = replicate n 0 \<and> ug_samples (enc_outbuf_0 enc) = 0 \<and>
     ug_waveform (enc_outbuf_1 enc) = replicate n 0 \<and> ug_samples (enc_outbuf_1 enc) = 0"

lemma stream_first:
  assumes fresh: "enc_fresh abi n enc" and clk: "clock_ok clk"
    and soxr: "rds_soxr_ok soxr_process rsmpl n"
    and wave: "group_wave abi clk soxr_process rsmpl (enc_upsampled_waveform_len enc) (enc_sys enc, s) = (w, sys', s')"
  shows "\<exists>enc'. enc_pull abi clk soxr_process rsmpl grp (enc, s) = Some (0, enc', s') \<and>
    enc_sys enc' = sys' \<and> enc_upsampled_waveform_len enc' = enc_upsampled_waveform_len enc \<and>
    stream_inv abi n enc' [0] [] w"
proof -
  let ?e = "enc\<lparr>enc_curr_outbuf_idx := 1, enc_samples_out := 1\<rparr>"
  have get: "rds_get_next_sample enc = (0, True, ?e)"
    using fresh by (simp add: enc_fresh_def rds_get_next_sample_def Let_def enc_outbuf_def)
  have e: "sys_ok abi (enc_sys ?e)" "enc_status ?e = RDS_ENC_ACTIVE"
      "0 = (if enc_curr_outbuf_idx ?e = 0 then 1 else 0 :: int)"
      "length (ug_waveform (enc_outbuf ?e 0)) = n"
      "group_wave abi clk soxr_process rsmpl (enc_upsampled_waveform_len ?e) (enc_sys ?e, s) = (w, sys', s')"
      "st_enabled (sys_st (enc_sys ?e)) \<noteq> 0"
    using fresh wave by (simp_all add: enc_fresh_def enc_outbuf_def)
  note main = rds_main_round_wave [OF e(1) clk e(2) soxr e(3-5), of grp]
  obtain e' where e': "rds_main_round abi clk soxr_process rsmpl grp (?e, s) = Some (True, e', s')"
    "e' = enc_set_outbuf 0 ((enc_outbuf ?e 0)\<lparr>ug_waveform := w @ drop (length w) (ug_waveform (enc_outbuf ?e 0)),
        ug_samples := int (length w), ug_result := 0\<rparr>) (?e\<lparr>enc_sys := sys'\<rparr>)"
    "w \<noteq> []" "length w \<le> n" "sys_ok abi sys'" "st_enabled (sys_st sys') \<noteq> 0"
    using main e(6) by simp
  have "stream_inv abi n e' [0] [] w"
    using e' fresh
    by (auto simp: stream_inv_def enc_fresh_def enc_set_outbuf_def enc_outbuf_def other_idx_def holds_wave_def)
  with get e' show ?thesis by (auto simp: enc_pull_def enc_set_outbuf_def)
qed


text \<open>A library that makes two frames of every group.\<close>

definition pair_soxr :: "unit soxr_fun" where
  "pair_soxr h xs n s = ((0, length xs, [1, 1 / 2]), s)"

definition example_enc :: rds_encoder where
  "example_enc = rds_encoder_zero\<lparr>
     enc_sys := rds_sys_init\<lparr>sys_st := rds_state_zero\<lparr>st_enabled := 1\<rparr>\<rparr>,
     enc_outbuf_0 := ug_zero\<lparr>ug_waveform := replicate 2 0\<rparr>,
     enc_outbuf_1 := ug_zero\<lparr>ug_waveform := replicate 2 0\<rparr>,
     enc_upsampled_waveform_len := 8, enc_status := RDS_ENC_ACTIVE\<rparr>"

lemma example_enc_fresh: "enc_fresh Signed_Char 2 example_enc"
proof -
  have "sys_ok Signed_Char (enc_sys example_enc)"
    using rds_state_wf_zero [of Signed_Char]
    by (simp add: sys_ok_def example_enc_def rds_sys_init_def sched_ok_def sched_of_def
        rds_state_wf_def)
  then show ?thesis
    by (simp add: enc_fresh_def example_enc_def ug_zero_def rds_encoder_zero_def)
qed


subsection \<open>The size of the buffers\<close>

lemma f32_ratio: "f32 (24 / 5) = 5033165 / 1048576"
  unfolding f32_def using float_round_eval [of 2 "24 / 5" "- 149" 24 10066330]
  by (simp add: power_int_minus field_simps)

lemma f32_olenf: "f32 (327155725 / 16384) = 19968"
  unfolding f32_def using float_round_eval [of 14 "327155725 / 16384" "- 149" 24 10223616]
  by (simp add: power_int_minus field_simps)

lemma num_resampled_samples_rds: "num_resampled_samples 47500 228000 4160 = 19968"
  using f32_of_int [of 228000] f32_of_int [of 47500] f32_of_int [of 4160] f32_of_int [of 19968] f64_of_int [of 4159]
  by (simp add: num_resampled_samples_def Let_def f32_ratio f32_olenf c_trunc_def)

text \<open>
  With the sample rate of the oscillator a buffer holds 19968 samples, but the room that is passed to
  SoXr is the number of its bytes. A library that keeps to that room can write past the buffer.
\<close>

lemma rds_init_room:
  assumes "rds_encoder_init rsmpl os = Some ((r, enc), os')" "0 \<le> r" "rs_osc_samplerate rsmpl = 228000"
  shows "length (ug_waveform (enc_outbuf_0 enc)) = 19968" "length (ug_waveform (enc_outbuf_1 enc)) = 19968"
    "enc_upsampled_waveform_len enc = 79872"
  using assms
  by (auto simp: rds_encoder_init_def rds_encoder_init_rest_def rds_encoder_fail_def Let_def ug_zero_def
      num_resampled_samples_rds split: prod.splits option.splits if_splits)

lemma rds_main_round_overflow:
  assumes ok: "sys_ok abi (enc_sys enc)" "clock_ok clk" "enc_status enc = RDS_ENC_ACTIVE"
    and wave: "group_wave abi clk soxr_process rsmpl (enc_upsampled_waveform_len enc) (enc_sys enc, s) = (w, gs)"
    and big: "length (ug_waveform (enc_outbuf enc (other_idx enc))) < length w"
  shows "rds_main_round abi clk soxr_process rsmpl grp (enc, s) = None"
proof -
  let ?sys = "enc_sys enc"
  let ?g = "gen_group abi clk (kind_group (cfg_of (sys_st ?sys)) (next_kind ?sys)) ?sys"
  have "rds_get_next_group abi clk ?sys grp = Some (0, next_sys abi clk ?sys, ?g)"
    using ok next_group_eq [of ?sys clk abi grp] by (simp add: sys_ok_def)
  moreover have "take 4160 (samples_buffer ?g) = samples_buffer ?g"
    using length_gen_group [of abi clk _ ?sys] by simp
  moreover obtain e u s' where
    "soxr_process (rs_rds_upsampler rsmpl) (samples_buffer ?g) (enc_upsampled_waveform_len enc) s = ((e, u, w), s')"
    using wave by (auto simp: group_wave_def split: prod.splits)
  ultimately show ?thesis
    using ok(3) big
    by (simp add: rds_main_round_def rds_get_next_upsampled_group_def resampler_upsample_rds_def write_buf_def
        other_idx_def Let_def split: if_splits)
qed

end
