(* ===== verification/Oscilator.thy ===== *)
theory Oscilator
  imports Floats "HOL-Library.Word"
begin

text \<open>
  The oscillator (\<^verbatim>\<open>oscilator.c\<close>): one phase that advances by a fixed step per sample, from which
  the 19, 38 and 57 kHz carriers are taken. All values are \<^verbatim>\<open>double\<close>; a sample is a \<^verbatim>\<open>float\<close>.
\<close>

subsection \<open>The code\<close>

text \<open>\<^verbatim>\<open>M_PI\<close> is the \<^verbatim>\<open>double\<close> nearest to \<open>\<pi>\<close>.\<close>

definition M_PI :: real where "M_PI = 884279719003555 / 2 ^ 48"

definition ONE_PERIOD :: real where "ONE_PERIOD = f64 (2 * M_PI)"

abbreviation (input) MAX_FREQUENCY :: "32 word" where "MAX_FREQUENCY \<equiv> 57000"
abbreviation (input) OSC_SAMPLE_RATE :: "32 word" where "OSC_SAMPLE_RATE \<equiv> 228000"
abbreviation (input) OSC_TYPE_SINE :: int where "OSC_TYPE_SINE \<equiv> 0"
abbreviation (input) OSC_TYPE_COSINE :: int where "OSC_TYPE_COSINE \<equiv> 1"

record osc_state =
  phase_step :: real
  current_phase :: real
  osc_sample_rate :: "32 word"
  osc_type :: int

text \<open>\<^verbatim>\<open>fmod\<close> is exact.\<close>

definition c_fmod :: "real \<Rightarrow> real \<Rightarrow> real" where
  "c_fmod x y = x - y * of_int (c_trunc (x / y))"

definition osc_initialize :: "osc_state option \<Rightarrow> 32 word \<Rightarrow> int \<Rightarrow> int \<times> osc_state option" where
  "osc_initialize osc sample_rate type =
     (case osc of
        None \<Rightarrow> (- 1, None)
      | Some _ \<Rightarrow>
          let osc = \<lparr>phase_step = 0, current_phase = 0, osc_sample_rate = 0, osc_type = type\<rparr> in
          if MAX_FREQUENCY \<ge> sample_rate \<or> odd (MAX_FREQUENCY div sample_rate) then (- 3, Some osc)
          else
            let osc = osc\<lparr>osc_sample_rate := sample_rate\<rparr>
            in (0, Some (osc\<lparr>phase_step := f64 (ONE_PERIOD / of_nat (unat (osc_sample_rate osc)))\<rparr>)))"

definition osc_increase_phase :: "osc_state \<Rightarrow> osc_state" where
  "osc_increase_phase osc =
     osc\<lparr>current_phase := c_fmod (f64 (current_phase osc + phase_step osc)) ONE_PERIOD\<rparr>"

definition osc_get_sample_for_freq :: "osc_state \<Rightarrow> real \<Rightarrow> real" where
  "osc_get_sample_for_freq osc freq =
     (let phase = f64 (current_phase osc * freq) in
      if osc_type osc = OSC_TYPE_SINE then f32 (f64 (sin phase))
      else if osc_type osc = OSC_TYPE_COSINE then f32 (f64 (cos phase))
      else 0)"

definition osc_get_19Khz_sample :: "osc_state \<Rightarrow> real" where
  "osc_get_19Khz_sample osc = osc_get_sample_for_freq osc 19000"

definition osc_get_38Khz_sample :: "osc_state \<Rightarrow> real" where
  "osc_get_38Khz_sample osc = osc_get_sample_for_freq osc 38000"

definition osc_get_57Khz_sample :: "osc_state \<Rightarrow> real" where
  "osc_get_57Khz_sample osc = osc_get_sample_for_freq osc 57000"

subsection \<open>The phase\<close>

lemma ONE_PERIOD_eq: "ONE_PERIOD = 884279719003555 / 2 ^ 47"
proof -
  have "float_round 53 (- 1074) (884279719003555 / 2 ^ 47) = 884279719003555 / 2 ^ 47"
    by (rule float_round_exact [where m = 884279719003555 and k = "- 47"]) (simp_all add: power_int_minus field_simps)
  then show ?thesis by (simp add: ONE_PERIOD_def M_PI_def f64_def)
qed

lemma ONE_PERIOD_pos: "0 < ONE_PERIOD" "ONE_PERIOD < 8"
  by (simp_all add: ONE_PERIOD_eq)

lemma c_fmod_pos:
  assumes "0 \<le> x" "0 < y"
  shows "0 \<le> c_fmod x y" "c_fmod x y < y" "c_fmod x y = x - y * of_int \<lfloor>x / y\<rfloor>"
proof -
  have t: "c_trunc (x / y) = \<lfloor>x / y\<rfloor>" using assms by (simp add: c_trunc_def)
  have "of_int \<lfloor>x / y\<rfloor> \<le> x / y" "x / y < of_int \<lfloor>x / y\<rfloor> + 1" by linarith+
  then have "of_int \<lfloor>x / y\<rfloor> * y \<le> x" "x < (of_int \<lfloor>x / y\<rfloor> + 1) * y"
    using assms by (simp_all only: pos_le_divide_eq pos_divide_less_eq)
  with t show "0 \<le> c_fmod x y" "c_fmod x y < y" "c_fmod x y = x - y * of_int \<lfloor>x / y\<rfloor>"
    by (simp_all add: c_fmod_def algebra_simps)
qed

definition osc_ok :: "osc_state \<Rightarrow> bool" where
  "osc_ok osc \<longleftrightarrow>
     0 \<le> current_phase osc \<and> current_phase osc < ONE_PERIOD \<and> 0 \<le> phase_step osc \<and> phase_step osc \<le> 1 / 2 ^ 10"

lemma osc_increase_phase_ok: "osc_ok osc \<Longrightarrow> osc_ok (osc_increase_phase osc)"
  using c_fmod_pos [OF rnd64.nonneg [of "current_phase osc + phase_step osc"] ONE_PERIOD_pos(1)]
  by (simp add: osc_ok_def osc_increase_phase_def)

lemma osc_increase_keeps [simp]:
  "osc_type (osc_increase_phase osc) = osc_type osc" "phase_step (osc_increase_phase osc) = phase_step osc"
  by (simp_all add: osc_increase_phase_def)

lemma osc_sample_bound: "\<bar>osc_get_sample_for_freq osc freq\<bar> \<le> 1"
  by (simp add: osc_get_sample_for_freq_def Let_def rnd32.unit_bound rnd64.unit_bound)

lemma osc_initialize_ok:
  assumes "osc_initialize osc rate type = (0, Some osc')"
  shows "osc_ok osc' \<and> osc_type osc' = type \<and> current_phase osc' = 0 \<and> 57000 < rate \<and>
    phase_step osc' = f64 (ONE_PERIOD / of_nat (unat rate))"
proof -
  have rate: "57000 < rate"
    using assms by (auto simp: osc_initialize_def Let_def split: option.splits if_splits)
  then have "57000 < unat rate" by (simp add: word_less_nat_alt)
  then have "(57000 :: real) \<le> of_nat (unat rate)" by linarith
  then have "ONE_PERIOD / of_nat (unat rate) \<le> 8 / 57000"
    using ONE_PERIOD_pos by (intro frac_le) (simp_all del: of_nat_unat)
  then have "ONE_PERIOD / of_nat (unat rate) \<le> 1 / 2 ^ 10" by simp
  moreover have "f64 (1 / 2 ^ 10) = 1 / 2 ^ 10"
    unfolding f64_def by (rule float_round_exact [where m = 1 and k = "- 10"]) (simp_all add: power_int_minus field_simps)
  ultimately have "f64 (ONE_PERIOD / of_nat (unat rate)) \<le> 1 / 2 ^ 10"
    using rnd64.mono [of "ONE_PERIOD / of_nat (unat rate)" "1 / 2 ^ 10"] by simp
  moreover have "0 \<le> f64 (ONE_PERIOD / of_nat (unat rate))"
    using ONE_PERIOD_pos by (intro rnd64.nonneg divide_nonneg_nonneg) (simp_all del: of_nat_unat)
  ultimately show ?thesis
    using assms rate ONE_PERIOD_pos
    by (auto simp: osc_initialize_def osc_ok_def Let_def split: option.splits if_splits)
qed

subsection \<open>Drift\<close>

lemma osc_increase_drift:
  assumes "osc_ok osc"
  shows "\<exists>j. \<bar>current_phase (osc_increase_phase osc) -
    (current_phase osc + phase_step osc - of_int j * ONE_PERIOD)\<bar> \<le> 2 powi (- 50)"
proof -
  let ?x = "current_phase osc + phase_step osc"
  have x: "0 \<le> ?x" "?x \<le> 8" using assms by (simp_all add: osc_ok_def ONE_PERIOD_eq)
  have "\<bar>f64 ?x - ?x\<bar> \<le> 2 powi (3 - int 53)"
    unfolding f64_def using x by (intro float_round_error) simp_all
  then have "\<bar>current_phase (osc_increase_phase osc) - (?x - of_int \<lfloor>f64 ?x / ONE_PERIOD\<rfloor> * ONE_PERIOD)\<bar>
      \<le> 2 powi (- 50)"
    using c_fmod_pos(3) [OF rnd64.nonneg [OF x(1)] ONE_PERIOD_pos(1)]
    by (simp add: osc_increase_phase_def algebra_simps)
  then show ?thesis by blast
qed

lemma osc_ok_funpow: "osc_ok osc \<Longrightarrow> osc_ok ((osc_increase_phase ^^ n) osc)"
  by (induction n) (simp_all add: osc_increase_phase_ok)

lemma osc_funpow_keeps [simp]:
  "osc_type ((osc_increase_phase ^^ n) osc) = osc_type osc"
  "phase_step ((osc_increase_phase ^^ n) osc) = phase_step osc"
  by (induction n) simp_all

lemma osc_funpow_drift:
  assumes "osc_ok osc"
  shows "\<exists>j. \<bar>current_phase ((osc_increase_phase ^^ n) osc) -
    (current_phase osc + of_nat n * phase_step osc - of_int j * ONE_PERIOD)\<bar> \<le> of_nat n * 2 powi (- 50)"
proof (induction n)
  case 0
  show ?case by (rule exI [of _ 0]) simp
next
  case (Suc n)
  let ?o = "(osc_increase_phase ^^ n) osc"
  obtain j where j: "\<bar>current_phase ?o - (current_phase osc + of_nat n * phase_step osc - of_int j * ONE_PERIOD)\<bar>
      \<le> of_nat n * 2 powi (- 50)"
    using Suc by blast
  obtain i where i: "\<bar>current_phase (osc_increase_phase ?o) -
      (current_phase ?o + phase_step osc - of_int i * ONE_PERIOD)\<bar> \<le> 2 powi (- 50)"
    using osc_increase_drift [OF osc_ok_funpow [OF assms, of n]] by auto
  have "\<bar>current_phase (osc_increase_phase ?o) -
      (current_phase osc + of_nat (Suc n) * phase_step osc - of_int (j + i) * ONE_PERIOD)\<bar>
      \<le> of_nat (Suc n) * 2 powi (- 50)"
    using i j unfolding abs_le_iff of_nat_Suc of_int_add distrib_right mult_1 by linarith
  then show ?case unfolding funpow.simps comp_apply by (rule exI)
qed

subsection \<open>The carriers share the phase\<close>

text \<open>A phase that is not zero is far above the subnormal numbers, so doubling it is exact.\<close>

definition osc_normal :: "osc_state \<Rightarrow> bool" where
  "osc_normal osc \<longleftrightarrow> osc_ok osc \<and> f64 (phase_step osc) = phase_step osc \<and> 2 powi (- 50) \<le> phase_step osc \<and>
     (current_phase osc = 0 \<or> 2 powi (- 50) \<le> current_phase osc)"

lemma f64_grid_4_8:
  assumes "4 \<le> x" "x < 8"
  shows "\<exists>k. f64 x = of_int k * 2 powi (- 50)"
proof -
  have "float_exp 53 (- 1074) x = 2 - int 53 + 1"
    using assms by (intro float_exp_eq) simp_all
  then show ?thesis
    using assms by (auto simp: f64_def float_round_pos_eq)
qed

lemma osc_increase_normal:
  assumes "osc_normal osc"
  shows "osc_normal (osc_increase_phase osc)"
proof -
  let ?x = "current_phase osc + phase_step osc"
  let ?p = "current_phase (osc_increase_phase osc)"
  have ok: "osc_ok osc" and step: "f64 (phase_step osc) = phase_step osc" "2 powi (- 50) \<le> phase_step osc"
    using assms by (simp_all add: osc_normal_def)
  have x: "0 \<le> ?x" "phase_step osc \<le> ?x" "?x < 8" "?x \<le> ONE_PERIOD + 1 / 2 ^ 10"
    using ok by (simp_all add: osc_ok_def ONE_PERIOD_eq)
  have fx: "phase_step osc \<le> f64 ?x" using rnd64.mono [OF x(2)] step by simp
  have p: "?p = f64 ?x - ONE_PERIOD * of_int \<lfloor>f64 ?x / ONE_PERIOD\<rfloor>"
    using c_fmod_pos(3) [OF rnd64.nonneg [OF x(1)] ONE_PERIOD_pos(1)] by (simp add: osc_increase_phase_def)
  have "?p = 0 \<or> 2 powi (- 50) \<le> ?p"
  proof (cases "f64 ?x < ONE_PERIOD")
    case True
    then have "\<lfloor>f64 ?x / ONE_PERIOD\<rfloor> = 0"
      using rnd64.nonneg [OF x(1)] ONE_PERIOD_pos by (simp add: floor_eq_iff)
    then show ?thesis using p fx step by simp
  next
    case False
    have "4 \<le> ?x"
    proof (rule ccontr)
      assume "\<not> 4 \<le> ?x"
      then have "f64 ?x \<le> f64 4" by (intro rnd64.mono) simp
      moreover have "f64 4 = 4" using f64_of_int [of 4] by simp
      ultimately show False using False by (simp add: ONE_PERIOD_eq)
    qed
    then obtain k where k: "f64 ?x = of_int k * 2 powi (- 50)" using f64_grid_4_8 x by blast
    have "?p = of_int (k - 7074237752028440 * \<lfloor>f64 ?x / ONE_PERIOD\<rfloor>) * 2 powi (- 50)"
      unfolding p k by (simp add: ONE_PERIOD_eq algebra_simps power_int_minus)
    moreover have "0 \<le> ?p"
      using osc_increase_phase_ok [OF ok] by (simp add: osc_ok_def)
    ultimately obtain m :: int where m: "?p = of_int m * 2 powi (- 50)" "0 \<le> ?p" by blast
    then have "0 \<le> m" by (simp add: zero_le_mult_iff)
    then show ?thesis using m by (cases "m = 0") (simp_all add: mult_le_cancel_right1)
  qed
  then show ?thesis
    using osc_increase_phase_ok [OF ok] step by (simp add: osc_normal_def)
qed

lemma osc_normal_funpow: "osc_normal osc \<Longrightarrow> osc_normal ((osc_increase_phase ^^ n) osc)"
  by (induction n) (simp_all add: osc_increase_normal)

lemma float_exp_double:
  assumes "x \<noteq> 0" "emin < float_exp p emin x"
  shows "float_exp p emin (2 * x) = float_exp p emin x + 1"
  using assms by (auto simp: float_exp_def abs_mult log_mult max_def split: if_splits)

lemma f64_double:
  assumes "x = 0 \<or> 2 powi (- 1000) \<le> \<bar>x\<bar>"
  shows "f64 (2 * x) = 2 * f64 x"
proof (cases "x = 0")
  case False
  have "- 1000 \<le> \<lfloor>log 2 \<bar>x\<bar>\<rfloor>"
  proof -
    have "of_int (- 1000) \<le> log 2 \<bar>x\<bar>"
      using assms False powr_real_of_int' [of 2 "- 1000"] by (subst le_log_iff) simp_all
    then show ?thesis by linarith
  qed
  then have "float_exp 53 (- 1074) (2 * x) = float_exp 53 (- 1074) x + 1"
    using False by (intro float_exp_double) (assumption, unfold float_exp_def, linarith)
  then show ?thesis
    using False by (simp add: f64_def float_round_pos_eq power_int_add)
qed simp

lemma osc_init_normal:
  assumes "osc_initialize osc rate type = (0, Some osc')"
  shows "osc_normal osc'"
proof -
  have "(0 :: real) < of_nat (unat rate)" "real_of_nat (unat rate) \<le> 2 ^ 32"
    using osc_initialize_ok [OF assms] unsigned_less [of rate, where 'a = nat]
    by (simp_all add: word_less_nat_alt del: of_nat_unat)
  then have "4 / 2 ^ 32 \<le> ONE_PERIOD / of_nat (unat rate)"
    by (intro frac_le) (simp_all add: ONE_PERIOD_eq del: of_nat_unat)
  moreover have "(2 :: real) powi (- 50) \<le> 4 / 2 ^ 32" by (simp add: power_int_minus)
  ultimately have "2 powi (- 50) \<le> ONE_PERIOD / of_nat (unat rate)" by (rule order_trans [rotated])
  moreover have "f64 (2 powi (- 50)) = 2 powi (- 50)"
    unfolding f64_def by (rule float_round_exact [where m = 1 and k = "- 50"]) simp_all
  ultimately show ?thesis
    using osc_initialize_ok [OF assms] rnd64.mono [of "2 powi (- 50)" "ONE_PERIOD / of_nat (unat rate)"]
    by (simp add: osc_normal_def rnd64.idem)
qed

subsection \<open>Properties\<close>

text \<open>
  C24: After a successful initialisation and any number of steps the phase is in one period, the
  carrier samples are in the range of a sample, and the phase is that of an ideal oscillator which
  has advanced by the step every time, up to whole periods and an error of at most 2^-50 per step.
\<close>

theorem osc_phase_tracks:
  assumes "osc_initialize osc rate type = (0, Some osc0)"
  shows "0 \<le> current_phase ((osc_increase_phase ^^ n) osc0) \<and>
    current_phase ((osc_increase_phase ^^ n) osc0) < ONE_PERIOD \<and>
    \<bar>osc_get_sample_for_freq ((osc_increase_phase ^^ n) osc0) freq\<bar> \<le> 1 \<and>
    (\<exists>j. \<bar>current_phase ((osc_increase_phase ^^ n) osc0) -
       (of_nat n * f64 (ONE_PERIOD / of_nat (unat rate)) - of_int j * ONE_PERIOD)\<bar> \<le> of_nat n * 2 powi (- 50))"
proof -
  have init: "osc_ok osc0" "current_phase osc0 = 0" "phase_step osc0 = f64 (ONE_PERIOD / of_nat (unat rate))"
    using osc_initialize_ok [OF assms] by simp_all
  then show ?thesis
    using osc_funpow_drift [OF init(1), of n] osc_ok_funpow [OF init(1), of n] osc_sample_bound
    by (simp only: osc_ok_def add_0)
qed

theorem osc_phase_tracks_witness:
  "\<exists>osc0. osc_initialize (Some \<lparr>phase_step = 1, current_phase = 2, osc_sample_rate = 3, osc_type = 4\<rparr>)
       228000 OSC_TYPE_COSINE = (0, Some osc0) \<and>
     current_phase ((osc_increase_phase ^^ 228000) osc0) < ONE_PERIOD"
proof -
  obtain osc0 where "osc_initialize (Some \<lparr>phase_step = 1, current_phase = 2, osc_sample_rate = 3, osc_type = 4\<rparr>)
       228000 OSC_TYPE_COSINE = (0, Some osc0)"
    by (simp add: osc_initialize_def Let_def)
  from this osc_phase_tracks [OF this, of 228000] show ?thesis by blast
qed



end
