(* ===== verification/Filters.thy ===== *)
theory Filters
  imports Oscilator Os "HOL-Library.Monad_Syntax"
begin

text \<open>
  The filters (\<^verbatim>\<open>filters.c\<close>): the FFT low-pass filter with its sliding window, the pre-emphasis
  filter and the Hilbert transformer. FFTW is a parameter: \<open>dft n xs\<close> is the transform of \<open>n\<close> real
  values and \<open>ift n cs\<close> the inverse, which also returns what it leaves in its input array (a
  complex-to-real transform destroys it). The code relies on the documented sizes, \<open>n div 2 + 1\<close>
  complex values for \<open>n\<close> real ones, and on the inverse reading no other value. The precision of
  \<^verbatim>\<open>long double\<close> depends on the platform: \<open>ld\<close> is the rounding to it.

  A buffer is the handle of the allocation with the list of its values; an access outside of it
  or through \<^verbatim>\<open>NULL\<close> is \<open>None\<close>.
\<close>

type_synonym fcomplex = "real \<times> real"

type_synonym dft_fun = "nat \<Rightarrow> real list \<Rightarrow> fcomplex list"

type_synonym ift_fun = "nat \<Rightarrow> fcomplex list \<Rightarrow> real list \<times> fcomplex list"

type_synonym 'a buffer = "(nat \<times> 'a list) option"

definition mem_read :: "nat \<Rightarrow> nat \<Rightarrow> 'a list \<Rightarrow> 'a list option" where
  "mem_read off n buf = (if off + n \<le> length buf then Some (take n (drop off buf)) else None)"

definition mem_write :: "nat \<Rightarrow> 'a list \<Rightarrow> 'a list \<Rightarrow> 'a list option" where
  "mem_write off xs buf =
     (if off + length xs \<le> length buf then Some (take off buf @ xs @ drop (off + length xs) buf) else None)"

lemma mem_read_Some: "off + n \<le> length buf \<Longrightarrow> mem_read off n buf = Some (take n (drop off buf))"
  by (simp add: mem_read_def)

lemma mem_write_Some:
  "off + length xs \<le> length buf \<Longrightarrow>
   mem_write off xs buf = Some (take off buf @ xs @ drop (off + length xs) buf)"
  by (simp add: mem_write_def)

subsection \<open>The impulse response\<close>

text \<open>A division by zero, which gives a not-a-number, is \<open>None\<close>.\<close>

definition sinc :: "real \<Rightarrow> real option" where
  "sinc phase =
     (if f64 (M_PI * phase) = 0 then None
      else Some (f64 (f64 (sin (f64 (M_PI * phase))) / f64 (M_PI * phase))))"

definition nutall_window :: "(real \<Rightarrow> real) \<Rightarrow> 16 word \<Rightarrow> 16 word \<Rightarrow> real" where
  "nutall_window ld bin num_bins =
     (let width = f64 (ld (of_nat (unat num_bins) - 1));
          a0 = f64 (ld 0.355768);
          a1 = f64 (ld 0.487396);
          a2 = f64 (ld 0.144232);
          a3 = f64 (ld 0.012604);
          c = (\<lambda>k. f64 (cos (f64 (ld (ld (ld (k * M_PI) * of_nat (unat bin)) / width)))))
      in f64 (f64 (f64 (a0 - f64 (a1 * c 2)) + f64 (a2 * c 4)) - f64 (a3 * c 6)))"

definition lpf_impulse_sample ::
  "(real \<Rightarrow> real) \<Rightarrow> 16 word \<Rightarrow> real \<Rightarrow> real \<Rightarrow> nat \<Rightarrow> real option" where
  "lpf_impulse_sample ld num_bins cutoff_freq sample_rate i =
     (let fc_pre_warped = f64 (ld (2 * f64 (cutoff_freq / sample_rate)));
          middle_bin = f64 (ld (ld (of_nat (unat num_bins) - 1) / 2));
          phase = f64 (f64 (of_nat i - middle_bin) * fc_pre_warped)
      in map_option
           (\<lambda>s. f32 (ld (ld (ld 0.2 * s) * nutall_window ld (of_nat i) num_bins))) (sinc phase))"

definition generate_lpf_impulse ::
  "(real \<Rightarrow> real) \<Rightarrow> 16 word \<Rightarrow> real \<Rightarrow> real \<Rightarrow> real list option" where
  "generate_lpf_impulse ld num_bins cutoff_freq sample_rate =
     those (map (lpf_impulse_sample ld num_bins cutoff_freq sample_rate) [0 ..< unat num_bins])"

subsection \<open>The pre-emphasis filter\<close>

abbreviation (input) LPF_PREEMPH_50US :: int where "LPF_PREEMPH_50US \<equiv> 0"
abbreviation (input) LPF_PREEMPH_75US :: int where "LPF_PREEMPH_75US \<equiv> 1"
abbreviation (input) LPF_PREEMPH_NONE :: int where "LPF_PREEMPH_NONE \<equiv> 2"
abbreviation (input) AFLT_CUTOFF_FREQ :: "32 word" where "AFLT_CUTOFF_FREQ \<equiv> 16750"
abbreviation (input) AFLT_LPF_OVERLAP_FACTOR :: "8 word" where "AFLT_LPF_OVERLAP_FACTOR \<equiv> 3"
abbreviation (input) SSB_LPF_OVERLAP_FACTOR :: "8 word" where "SSB_LPF_OVERLAP_FACTOR \<equiv> 3"

record fmpreemph_filter_data =
  last_in :: real
  last_out :: "real \<times> real"
  ataps_50 :: "real \<times> real"
  btaps_50 :: "real \<times> real"
  ataps_75 :: "real \<times> real"
  btaps_75 :: "real \<times> real"

definition fmpreemph_zero :: fmpreemph_filter_data where
  "fmpreemph_zero = \<lparr>last_in = 0, last_out = (0, 0), ataps_50 = (0, 0), btaps_50 = (0, 0),
     ataps_75 = (0, 0), btaps_75 = (0, 0)\<rparr>"

definition fmpreemph_filter_init_mode ::
  "(real \<Rightarrow> real) \<Rightarrow> fmpreemph_filter_data \<Rightarrow> real \<Rightarrow> real \<Rightarrow> 8 word \<Rightarrow> int \<times> fmpreemph_filter_data" where
  "fmpreemph_filter_init_mode ld fmprf sample_rate high_corner_freq preemph_tau_usecs =
     (let tau = f64 (f64 (1 / 10 ^ 6) * of_nat (unat preemph_tau_usecs));
          cutoff_w_low = f64 (ld (1 / tau));
          cutoff_w_high = f64 (ld (ld (2 * M_PI) * high_corner_freq));
          pre_warped_wc = f64 (tan (f64 (ld (cutoff_w_low / ld (2 * sample_rate)))));
          V0 = f64 (log 10 (f64 (cutoff_w_high / cutoff_w_low)));
          H0 = f64 (V0 - 1);
          B = f64 (V0 * pre_warped_wc);
          ataps_0 = f64 (ld 1);
          ataps_1 = f64 (f64 (B - 1) / f64 (B + 1));
          btaps_0 = f64 (ld (1 + ld (ld (ld (1 - ataps_1) * H0) / 2)));
          btaps_1 = f64 (ld (ataps_1 + ld (ld (ld (ataps_1 - 1) * H0) / 2)))
      in if preemph_tau_usecs = 50 then
           (0, fmprf\<lparr>ataps_50 := (f32 ataps_0, f32 ataps_1), btaps_50 := (f32 btaps_0, f32 btaps_1)\<rparr>)
         else if preemph_tau_usecs = 75 then
           (0, fmprf\<lparr>ataps_75 := (f32 ataps_0, f32 ataps_1), btaps_75 := (f32 btaps_0, f32 btaps_1)\<rparr>)
         else (- 1, fmprf))"

definition fmpreemph_filter_init ::
  "(real \<Rightarrow> real) \<Rightarrow> fmpreemph_filter_data \<Rightarrow> real \<Rightarrow> int \<times> fmpreemph_filter_data" where
  "fmpreemph_filter_init ld fmprf sample_rate =
     (let (ret, fmprf) = fmpreemph_filter_init_mode ld fmprf sample_rate (f32 (of_nat (unat AFLT_CUTOFF_FREQ))) 50
      in if ret < 0 then (ret, fmprf)
         else fmpreemph_filter_init_mode ld fmprf sample_rate (f32 (of_nat (unat AFLT_CUTOFF_FREQ))) 75)"

text \<open>
  The function keeps the mode of its previous call in a static variable, which the filters of the
  two channels share: it is an argument and a result.
\<close>

definition fmpreemph_filter_apply ::
  "int \<Rightarrow> fmpreemph_filter_data \<Rightarrow> real \<Rightarrow> int \<Rightarrow> real \<times> fmpreemph_filter_data \<times> int" where
  "fmpreemph_filter_apply prev_tau_mode fmprf sample tau_mode =
     (if tau_mode = LPF_PREEMPH_NONE then (sample, fmprf, prev_tau_mode)
      else
        let (ataps, btaps) =
              (if tau_mode = LPF_PREEMPH_75US then (ataps_75 fmprf, btaps_75 fmprf)
               else (ataps_50 fmprf, btaps_50 fmprf));
            out = f32 (0 + f32 (fst ataps * sample))
        in if prev_tau_mode \<noteq> tau_mode then
             (out, fmprf\<lparr>last_in := sample, last_out := (out, snd (last_out fmprf))\<rparr>, tau_mode)
           else
             let out = f32 (out + f32 (snd ataps * last_in fmprf));
                 fmprf = fmprf\<lparr>last_in := sample\<rparr>;
                 out = f32 (out + f32 (fst btaps * fst (last_out fmprf)));
                 out = f32 (out + f32 (snd btaps * snd (last_out fmprf)));
                 fmprf = fmprf\<lparr>last_out := (out, fst (last_out fmprf))\<rparr>
             in (f32 (f64 (out * 8)), fmprf, prev_tau_mode))"

subsection \<open>The low-pass filter\<close>

record lpf_filter_data =
  lpf_period_size :: "16 word"
  lpf_num_bins :: "16 word"
  lpf_middle_bin :: "16 word"
  lpf_cutoff_bin :: "16 word"
  lpf_sample_rate :: "32 word"
  lpf_bin_bw :: real
  lpf_filter_resp :: "fcomplex buffer"
  lpf_complex_buff :: "fcomplex buffer"
  lpf_real_in :: "real buffer"
  lpf_real_out :: "real buffer"
  lpf_overlap_len :: "16 word"
  lpf_dft_plan :: "nat option"
  lpf_ift_plan :: "nat option"

definition lpf_zero :: lpf_filter_data where
  "lpf_zero = \<lparr>lpf_period_size = 0, lpf_num_bins = 0, lpf_middle_bin = 0, lpf_cutoff_bin = 0,
     lpf_sample_rate = 0, lpf_bin_bw = 0, lpf_filter_resp = None, lpf_complex_buff = None,
     lpf_real_in = None, lpf_real_out = None, lpf_overlap_len = 0, lpf_dft_plan = None, lpf_ift_plan = None\<rparr>"

definition lpf_handles :: "lpf_filter_data \<Rightarrow> (res_kind \<times> nat option) list" where
  "lpf_handles lpf =
     [(Fftw_Buffer, map_option fst (lpf_filter_resp lpf)), (Fftw_Buffer, map_option fst (lpf_real_in lpf)),
      (Fftw_Buffer, map_option fst (lpf_real_out lpf)), (Fftw_Buffer, map_option fst (lpf_complex_buff lpf)),
      (Fftw_Plan, lpf_dft_plan lpf), (Fftw_Plan, lpf_ift_plan lpf)]"

definition lpf_filter_destroy :: "lpf_filter_data \<Rightarrow> os \<Rightarrow> os" where
  "lpf_filter_destroy lpf os = release_all (lpf_handles lpf) os"

text \<open>\<^verbatim>\<open>fftwf_alloc_*\<close> followed by \<^verbatim>\<open>memset\<close>: a buffer of zeros.\<close>

definition fftwf_alloc :: "'a \<Rightarrow> nat \<Rightarrow> os \<Rightarrow> 'a buffer \<times> os" where
  "fftwf_alloc z n os = (case acquire Fftw_Buffer os of (h, os) \<Rightarrow> (map_option (\<lambda>h. (h, replicate n z)) h, os))"

definition lpf_cleanup :: "int \<Rightarrow> lpf_filter_data \<Rightarrow> os \<Rightarrow> ((int \<times> lpf_filter_data) \<times> os) option" where
  "lpf_cleanup ret lpf os = Some ((ret, lpf), if ret < 0 then lpf_filter_destroy lpf os else os)"

text \<open>
  From the creation of the plans on: the response of the filter is computed even when the second
  plan could not be created, and the impulse stays in \<open>lpf_real_in\<close>.
\<close>

definition lpf_filter_init_plans ::
  "(real \<Rightarrow> real) \<Rightarrow> dft_fun \<Rightarrow> lpf_filter_data \<Rightarrow> 32 word \<Rightarrow> 32 word \<Rightarrow> os \<Rightarrow>
   ((int \<times> lpf_filter_data) \<times> os) option" where
  "lpf_filter_init_plans ld dft lpf cutoff_freq sample_rate os =
     (case acquire Fftw_Plan os of (h, os) \<Rightarrow>
        let lpf = lpf\<lparr>lpf_dft_plan := h\<rparr> in
        if h = None then lpf_cleanup (- 5) lpf os
        else case acquire Fftw_Plan os of (h, os) \<Rightarrow>
          let lpf = lpf\<lparr>lpf_ift_plan := h\<rparr>;
              ret = (if h = None then - 6 else 0)
          in do {
               impulse \<leftarrow> generate_lpf_impulse ld (lpf_num_bins lpf) (f32 (of_nat (unat cutoff_freq)))
                            (f32 (of_nat (unat sample_rate)));
               (hin, rin) \<leftarrow> lpf_real_in lpf;
               rin \<leftarrow> mem_write 0 impulse rin;
               (hcb, cb) \<leftarrow> lpf_complex_buff lpf;
               cb \<leftarrow> mem_write 0 (dft (unat (lpf_num_bins lpf)) rin) cb;
               (hfr, fr) \<leftarrow> lpf_filter_resp lpf;
               resp \<leftarrow> mem_read 0 (unat (lpf_middle_bin lpf)) cb;
               fr \<leftarrow> mem_write 0 resp fr;
               cb \<leftarrow> mem_write 0 (replicate (unat (lpf_middle_bin lpf)) (0, 0)) cb;
               lpf_cleanup ret
                 (lpf\<lparr>lpf_real_in := Some (hin, rin), lpf_filter_resp := Some (hfr, fr),
                      lpf_complex_buff := Some (hcb, cb)\<rparr>) os
             })"

text \<open>The parameters, which are set before the first allocation; all of them are 16-bit numbers.\<close>

definition lpf_params :: "lpf_filter_data \<Rightarrow> 32 word \<Rightarrow> 16 word \<Rightarrow> 8 word \<Rightarrow> lpf_filter_data" where
  "lpf_params lpf sample_rate max_frames overlap_factor =
     (let lpf = lpf\<lparr>lpf_period_size := max_frames\<rparr>;
          lpf = lpf\<lparr>lpf_num_bins := (ucast overlap_factor + 1) * lpf_period_size lpf\<rparr>;
          lpf = lpf\<lparr>lpf_sample_rate := sample_rate\<rparr>;
          lpf = lpf\<lparr>lpf_middle_bin := lpf_num_bins lpf div 2 + 1\<rparr>;
          nyquist_freq = f32 (f64 (f32 (of_nat (unat (lpf_sample_rate lpf))) / 2));
          lpf = lpf\<lparr>lpf_bin_bw := f32 (nyquist_freq / f32 (of_nat (unat (lpf_num_bins lpf))))\<rparr>
      in lpf\<lparr>lpf_overlap_len := ucast overlap_factor * lpf_period_size lpf\<rparr>)"

definition lpf_filter_init ::
  "(real \<Rightarrow> real) \<Rightarrow> dft_fun \<Rightarrow> lpf_filter_data \<Rightarrow> 32 word \<Rightarrow> 32 word \<Rightarrow> 16 word \<Rightarrow> 8 word \<Rightarrow> os \<Rightarrow>
   ((int \<times> lpf_filter_data) \<times> os) option" where
  "lpf_filter_init ld dft lpf cutoff_freq sample_rate max_frames overlap_factor os =
     (let lpf = lpf_params lpf sample_rate max_frames overlap_factor in
      case fftwf_alloc 0 (unat (lpf_num_bins lpf)) os of (b, os) \<Rightarrow>
        let lpf = lpf\<lparr>lpf_real_in := b\<rparr> in
        if b = None then lpf_cleanup (- 2) lpf os
        else case fftwf_alloc 0 (unat (lpf_num_bins lpf)) os of (b, os) \<Rightarrow>
          let lpf = lpf\<lparr>lpf_real_out := b\<rparr> in
          if b = None then lpf_cleanup (- 3) lpf os
          else case fftwf_alloc (0, 0) (unat (lpf_middle_bin lpf)) os of (c, os) \<Rightarrow>
            let lpf = lpf\<lparr>lpf_complex_buff := c\<rparr> in
            if c = None then lpf_cleanup (- 4) lpf os
            else case fftwf_alloc (0, 0) (unat (lpf_middle_bin lpf)) os of (c, os) \<Rightarrow>
              let lpf = lpf\<lparr>lpf_filter_resp := c\<rparr> in
              if c = None then lpf_cleanup (- 4) lpf os
              else lpf_filter_init_plans ld dft lpf cutoff_freq sample_rate os)"

text \<open>The product of a bin of the signal with a bin of the filter, in \<^verbatim>\<open>float\<close>.\<close>

definition bin_mult :: "fcomplex \<Rightarrow> fcomplex \<Rightarrow> fcomplex" where
  "bin_mult r c =
     (f32 (f32 (fst r * fst c) - f32 (snd r * snd c)), f32 (f32 (fst r * snd c) + f32 (snd r * fst c)))"

definition lpf_filter_apply ::
  "dft_fun \<Rightarrow> ift_fun \<Rightarrow> lpf_filter_data \<Rightarrow> real list \<Rightarrow> real list \<Rightarrow> 16 word \<Rightarrow> real \<Rightarrow>
   (real list \<times> lpf_filter_data) option" where
  "lpf_filter_apply dft ift lpf inp out num_samples gain =
     do {
       (hin, rin) \<leftarrow> lpf_real_in lpf;
       moved \<leftarrow> mem_read (unat (lpf_period_size lpf)) (unat (lpf_overlap_len lpf)) rin;
       rin \<leftarrow> mem_write 0 moved rin;
       samples \<leftarrow> mem_read 0 (unat num_samples) inp;
       rin \<leftarrow> mem_write (unat (lpf_overlap_len lpf)) samples rin;
       (hcb, cb) \<leftarrow> lpf_complex_buff lpf;
       cb \<leftarrow> mem_write 0 (dft (unat (lpf_num_bins lpf)) rin) cb;
       (hfr, fr) \<leftarrow> lpf_filter_resp lpf;
       resp \<leftarrow> mem_read 0 (unat (lpf_middle_bin lpf)) fr;
       sig \<leftarrow> mem_read 0 (unat (lpf_middle_bin lpf)) cb;
       cb \<leftarrow> mem_write 0 (map2 bin_mult resp sig) cb;
       (hro, ro) \<leftarrow> lpf_real_out lpf;
       let (time, cb) = ift (unat (lpf_num_bins lpf)) cb;
       ro \<leftarrow> mem_write 0 time ro;
       let ratio = f32 (gain / f32 (of_nat (unat (lpf_num_bins lpf))));
       res \<leftarrow> mem_read 0 (unat num_samples) ro;
       out \<leftarrow> mem_write 0 (map (\<lambda>x. f32 (x * ratio)) res) out;
       Some (out, lpf\<lparr>lpf_real_in := Some (hin, rin), lpf_complex_buff := Some (hcb, cb),
                      lpf_real_out := Some (hro, ro)\<rparr>)
     }"

subsection \<open>The Hilbert transformer\<close>

record hilbert_transformer_data =
  ht_num_bins :: "16 word"
  ht_complex_buff :: "fcomplex buffer"
  ht_real_buff :: "real buffer"
  ht_dft_plan :: "nat option"
  ht_ift_plan :: "nat option"

definition hilbert_zero :: hilbert_transformer_data where
  "hilbert_zero = \<lparr>ht_num_bins = 0, ht_complex_buff = None, ht_real_buff = None, ht_dft_plan = None,
     ht_ift_plan = None\<rparr>"

definition hilbert_handles :: "hilbert_transformer_data \<Rightarrow> (res_kind \<times> nat option) list" where
  "hilbert_handles ht =
     [(Fftw_Buffer, map_option fst (ht_real_buff ht)), (Fftw_Buffer, map_option fst (ht_complex_buff ht)),
      (Fftw_Plan, ht_dft_plan ht), (Fftw_Plan, ht_ift_plan ht)]"

definition hilbert_transformer_destroy :: "hilbert_transformer_data \<Rightarrow> os \<Rightarrow> os" where
  "hilbert_transformer_destroy ht os = release_all (hilbert_handles ht) os"

definition hilbert_cleanup ::
  "int \<Rightarrow> hilbert_transformer_data \<Rightarrow> os \<Rightarrow> (int \<times> hilbert_transformer_data) \<times> os" where
  "hilbert_cleanup ret ht os = ((ret, ht), if ret < 0 then hilbert_transformer_destroy ht os else os)"

definition hilbert_transformer_init ::
  "hilbert_transformer_data \<Rightarrow> 16 word \<Rightarrow> os \<Rightarrow> (int \<times> hilbert_transformer_data) \<times> os" where
  "hilbert_transformer_init ht num_bins os =
     (let ht = ht\<lparr>ht_num_bins := num_bins\<rparr> in
      case fftwf_alloc 0 (unat num_bins) os of (b, os) \<Rightarrow>
        let ht = ht\<lparr>ht_real_buff := b\<rparr> in
        if b = None then hilbert_cleanup (- 1) ht os
        else case fftwf_alloc (0, 0) (unat num_bins) os of (c, os) \<Rightarrow>
          let ht = ht\<lparr>ht_complex_buff := c\<rparr> in
          if c = None then hilbert_cleanup (- 2) ht os
          else case acquire Fftw_Plan os of (h, os) \<Rightarrow>
            let ht = ht\<lparr>ht_dft_plan := h\<rparr> in
            if h = None then hilbert_cleanup (- 3) ht os
            else case acquire Fftw_Plan os of (h, os) \<Rightarrow>
              let ht = ht\<lparr>ht_ift_plan := h\<rparr> in
              hilbert_cleanup (if h = None then - 4 else 0) ht os)"

text \<open>The two rotations of a bin, as the loops do them: a change of sign and a swap.\<close>

definition mul_i :: "fcomplex \<Rightarrow> fcomplex" where "mul_i c = (- snd c, fst c)"

definition mul_minus_i :: "fcomplex \<Rightarrow> fcomplex" where "mul_minus_i c = (snd c, - fst c)"

definition hilbert_transformer_apply ::
  "dft_fun \<Rightarrow> ift_fun \<Rightarrow> hilbert_transformer_data \<Rightarrow> real list \<Rightarrow> 16 word \<Rightarrow>
   hilbert_transformer_data option" where
  "hilbert_transformer_apply dft ift ht inp num_samples =
     do {
       let n = unat (ht_num_bins ht);
       (hrb, rb) \<leftarrow> ht_real_buff ht;
       rb \<leftarrow> mem_write 0 (replicate n 0) rb;
       samples \<leftarrow> mem_read 0 (unat num_samples) inp;
       rb \<leftarrow> mem_write 0 samples rb;
       (hcb, cb) \<leftarrow> ht_complex_buff ht;
       cb \<leftarrow> mem_write 0 (dft n rb) cb;
       let middle_point = (n + 1) div 2;
       pos \<leftarrow> mem_read 0 middle_point cb;
       cb \<leftarrow> mem_write 0 (map mul_i pos) cb;
       cb \<leftarrow> mem_write middle_point [(0, 0)] cb;
       neg \<leftarrow> mem_read (middle_point + 1) (n - (middle_point + 1)) cb;
       cb \<leftarrow> mem_write (middle_point + 1) (map mul_minus_i neg) cb;
       let (time, cb) = ift n cb;
       rb \<leftarrow> mem_write 0 time rb;
       let ratio = f32 (f64 (1 / f32 (of_nat n)));
       res \<leftarrow> mem_read 0 (unat num_samples) rb;
       rb \<leftarrow> mem_write 0 (map (\<lambda>x. f32 (x * ratio)) res) rb;
       Some (ht\<lparr>ht_real_buff := Some (hrb, rb), ht_complex_buff := Some (hcb, cb)\<rparr>)
     }"

subsection \<open>What the code relies on\<close>

definition fftw_ok :: "dft_fun \<Rightarrow> ift_fun \<Rightarrow> bool" where
  "fftw_ok dft ift \<longleftrightarrow>
     (\<forall>n xs. length (dft n xs) = n div 2 + 1) \<and>
     (\<forall>n cs. length (fst (ift n cs)) = n \<and> length (snd (ift n cs)) = length cs \<and>
             fst (ift n (take (n div 2 + 1) cs)) = fst (ift n cs))"

lemma fftw_okD:
  assumes "fftw_ok dft ift"
  shows "length (dft n xs) = n div 2 + 1" "length (fst (ift n cs)) = n" "length (snd (ift n cs)) = length cs"
    "fst (ift n (take (n div 2 + 1) cs)) = fst (ift n cs)"
  using assms by (auto simp: fftw_ok_def)

text \<open>\<^verbatim>\<open>long double\<close> holds at least every \<^verbatim>\<open>double\<close>.\<close>

definition long_double :: "(real \<Rightarrow> real) \<Rightarrow> bool" where
  "long_double ld \<longleftrightarrow> rounding ld \<and> (\<forall>x. ld (f64 x) = f64 x)"

lemma long_double_f64: "long_double f64"
  by (simp add: long_double_def rnd64.rounding_axioms rnd64.idem)

lemma f64_two_powi: "- 1074 \<le> k \<Longrightarrow> f64 (2 powi k) = 2 powi k"
  unfolding f64_def by (rule float_round_exact [where m = 1 and k = k]) simp_all

lemma f64_half: "\<bar>k\<bar> \<le> 2 ^ 52 \<Longrightarrow> f64 (of_int k / 2) = of_int k / 2"
  unfolding f64_def using of_int_abs_le [of k "2 ^ 52"]
  by (intro float_round_exact [where m = k and k = "- 1"]) (simp_all add: power_int_minus)

lemma long_double_exact: "long_double ld \<Longrightarrow> f64 x = x \<Longrightarrow> ld x = x"
  by (metis long_double_def)

lemma rounding_ge:
  assumes "rounding rnd" "rnd b = b" "b \<le> \<bar>x\<bar>"
  shows "b \<le> \<bar>rnd x\<bar>"
  using rounding.mono [OF assms(1), of b x] rounding.mono [OF assms(1), of x "- b"]
    rounding.minus [OF assms(1), of b] assms(2,3)
  by (auto simp: abs_if split: if_splits)

lemma f64_ge: "- 1074 \<le> k \<Longrightarrow> 2 powi k \<le> \<bar>x\<bar> \<Longrightarrow> 2 powi k \<le> \<bar>f64 x\<bar>"
  by (rule rounding_ge [OF rnd64.rounding_axioms f64_two_powi])

lemma ld_ge: "long_double ld \<Longrightarrow> - 1074 \<le> k \<Longrightarrow> 2 powi k \<le> \<bar>x\<bar> \<Longrightarrow> 2 powi k \<le> \<bar>ld x\<bar>"
  by (rule rounding_ge [OF conjunct1 [OF long_double_def [THEN iffD1]] long_double_exact [OF _ f64_two_powi]])

lemma sinc_Some:
  assumes "2 powi (- 100) \<le> \<bar>phase\<bar>"
  shows "sinc phase \<noteq> None"
proof -
  have "1 * \<bar>phase\<bar> \<le> M_PI * \<bar>phase\<bar>" by (rule mult_right_mono) (simp_all add: M_PI_def)
  then have "2 powi (- 100) \<le> \<bar>M_PI * phase\<bar>" using assms by (simp add: abs_mult M_PI_def)
  then have "2 powi (- 100) \<le> \<bar>f64 (M_PI * phase)\<bar>" by (intro f64_ge) simp_all
  then have "f64 (M_PI * phase) \<noteq> 0"
    using zero_less_power_int [of "2 :: real" "- 100"] by (simp only: abs_zero not_le [symmetric]) auto
  then show ?thesis by (simp add: sinc_def)
qed

lemma odd_half_ge: "odd k \<Longrightarrow> 1 / 2 \<le> \<bar>real_of_int k / 2\<bar>"
proof -
  assume "odd k"
  then have "1 \<le> \<bar>k\<bar>" by presburger
  then have "1 \<le> \<bar>real_of_int k\<bar>" by linarith
  then show ?thesis by simp
qed

lemma lpf_impulse_sample_Some:
  assumes ld: "long_double ld" and n: "even (unat num_bins)" "i < unat num_bins"
    and fc: "2 powi (- 40) \<le> cutoff_freq / sample_rate"
  shows "lpf_impulse_sample ld num_bins cutoff_freq sample_rate i \<noteq> None"
proof -
  let ?n = "int (unat num_bins)"
  have lt: "?n < 2 ^ 16" using unsigned_less [of num_bins, where 'a = nat] by (simp del: of_nat_unat)
  have 1: "ld (of_nat (unat num_bins) - 1) = of_int (?n - 1)"
    using lt n by (subst long_double_exact [OF ld]) (use f64_of_int [of "?n - 1"] in \<open>simp_all del: of_nat_unat\<close>)
  have h: "f64 (of_int (?n - 1) / 2) = of_int (?n - 1) / 2"
    by (rule f64_half) (use lt n in \<open>simp del: of_nat_unat\<close>)
  have mid: "f64 (ld (ld (of_nat (unat num_bins) - 1) / 2)) = of_int (?n - 1) / 2"
    unfolding 1 long_double_exact [OF ld h] by (rule h)
  have off: "f64 (of_nat i - of_int (?n - 1) / 2) = of_int (2 * int i + 1 - ?n) / 2"
    using f64_half [of "2 * int i + 1 - ?n"] lt n by (simp del: of_nat_unat add: field_simps)
  have "odd (2 * int i + 1 - ?n)" using n by (simp del: of_nat_unat)
  then have "1 / 2 \<le> \<bar>of_int (2 * int i + 1 - ?n) / (2 :: real)\<bar>" by (rule odd_half_ge)
  moreover
  define fcw where "fcw = f64 (ld (2 * f64 (cutoff_freq / sample_rate)))"
  have "2 powi (- 40) \<le> \<bar>f64 (cutoff_freq / sample_rate)\<bar>" 
    by (rule f64_ge) (use fc in \<open>simp, linarith\<close>)
  then have "2 powi (- 40) \<le> \<bar>2 * f64 (cutoff_freq / sample_rate)\<bar>" by (simp add: abs_mult)
  then have "2 powi (- 40) \<le> \<bar>fcw\<bar>" unfolding fcw_def by (intro f64_ge ld_ge [OF ld]) simp_all
  ultimately have "1 / 2 * 2 powi (- 40) \<le> \<bar>of_int (2 * int i + 1 - ?n) / (2 :: real)\<bar> * \<bar>fcw\<bar>"
    by (intro mult_mono) simp_all
  moreover have "(2 :: real) powi (- 100) \<le> 1 / 2 * 2 powi (- 40)" by (simp add: power_int_minus)
  ultimately have "2 powi (- 100) \<le> \<bar>of_int (2 * int i + 1 - ?n) / 2 * fcw\<bar>"
    unfolding abs_mult by (rule order_trans [rotated])
  then have "2 powi (- 100) \<le> \<bar>f64 (of_int (2 * int i + 1 - ?n) / 2 * fcw)\<bar>" by (intro f64_ge) simp_all
  then show ?thesis
    using sinc_Some unfolding lpf_impulse_sample_def Let_def mid off fcw_def by simp
qed

lemma those_SomeI: "(\<And>x. x \<in> set xs \<Longrightarrow> f x \<noteq> None) \<Longrightarrow> those (map f xs) = Some (map (the \<circ> f) xs)"
  by (induction xs) (auto split: option.splits)

lemma length_those: "those xs = Some ys \<Longrightarrow> length ys = length xs"
  by (induction xs arbitrary: ys) (auto split: option.splits)

lemma length_generate_lpf_impulse:
  "generate_lpf_impulse ld n c r = Some imp \<Longrightarrow> length imp = unat n"
  by (auto simp: generate_lpf_impulse_def dest: length_those)

lemma generate_lpf_impulse_Some:
  assumes "long_double ld" "even (unat num_bins)" "2 powi (- 40) \<le> cutoff_freq / sample_rate"
  shows "\<exists>imp. generate_lpf_impulse ld num_bins cutoff_freq sample_rate = Some imp"
  unfolding generate_lpf_impulse_def
  by (rule exI, rule those_SomeI) (rule lpf_impulse_sample_Some [OF assms(1,2) _ assms(3)], simp)

subsection \<open>The contract of the initialisations\<close>

definition lpf_held :: "lpf_filter_data \<Rightarrow> resource multiset" where
  "lpf_held lpf = held_all (lpf_handles lpf)"

definition hilbert_held :: "hilbert_transformer_data \<Rightarrow> resource multiset" where
  "hilbert_held ht = held_all (hilbert_handles ht)"

lemma lpf_destroy_held:
  "lpf_held lpf \<subseteq># os_live os \<Longrightarrow> lpf_filter_destroy lpf os = os\<lparr>os_live := os_live os - lpf_held lpf\<rparr>"
  by (simp only: lpf_filter_destroy_def lpf_held_def release_all_held)

lemma hilbert_destroy_held:
  "hilbert_held ht \<subseteq># os_live os \<Longrightarrow>
   hilbert_transformer_destroy ht os = os\<lparr>os_live := os_live os - hilbert_held ht\<rparr>"
  by (simp only: hilbert_transformer_destroy_def hilbert_held_def release_all_held)

lemma lpf_cleanup_held:
  assumes "lpf_cleanup ret lpf os = Some ((r, c), os')" "os_live os = L + lpf_held lpf"
  shows "os_fault os' = os_fault os \<and> (r < 0 \<longrightarrow> os_live os' = L) \<and> (0 \<le> r \<longrightarrow> os_live os' = L + lpf_held c)"
  using assms lpf_destroy_held [of lpf os] by (auto simp: lpf_cleanup_def split: if_splits)

lemma fftwf_alloc_cases:
  assumes "fftwf_alloc z n os = (b, os')"
  obtains "b = None" "os_live os' = os_live os" "os_fault os' = os_fault os"
  | h where "b = Some (h, replicate n z)" "os_live os' = add_mset (Fftw_Buffer, h) (os_live os)"
      "os_fault os' = os_fault os"
  using assms by (auto simp: fftwf_alloc_def acquire_def split: if_splits)

lemma acquire_cases:
  assumes "acquire k os = (b, os')"
  obtains "b = None" "os_live os' = os_live os" "os_fault os' = os_fault os"
  | h where "b = Some h" "os_live os' = add_mset (k, h) (os_live os)" "os_fault os' = os_fault os"
  using assms by (auto simp: acquire_def split: if_splits)

lemma lpf_held_eq:
  "lpf_held lpf = held_opt Fftw_Buffer (map_option fst (lpf_filter_resp lpf)) +
     held_opt Fftw_Buffer (map_option fst (lpf_real_in lpf)) +
     held_opt Fftw_Buffer (map_option fst (lpf_real_out lpf)) +
     held_opt Fftw_Buffer (map_option fst (lpf_complex_buff lpf)) +
     held_opt Fftw_Plan (lpf_dft_plan lpf) + held_opt Fftw_Plan (lpf_ift_plan lpf)"
  by (simp add: lpf_held_def lpf_handles_def ac_simps)

lemma lpf_init_plans_held:
  assumes run: "lpf_filter_init_plans ld dft lpf cutoff rate os = Some ((r, c), os')"
    and lpf: "lpf_dft_plan lpf = None" "lpf_ift_plan lpf = None" "os_live os = L + lpf_held lpf"
  shows "os_fault os' = os_fault os \<and> (r < 0 \<longrightarrow> os_live os' = L) \<and> (0 \<le> r \<longrightarrow> os_live os' = L + lpf_held c)"
proof -
  obtain h1 os1 where a1: "acquire Fftw_Plan os = (h1, os1)" by fastforce
  obtain h2 os2 where a2: "acquire Fftw_Plan os1 = (h2, os2)" by fastforce
  from a1 show ?thesis
  proof (cases rule: acquire_cases)
    case 1
    have "os_live os1 = L + lpf_held (lpf\<lparr>lpf_dft_plan := None\<rparr>)" using 1 lpf by (simp add: lpf_held_eq)
    with 1 run a1 show ?thesis
      using lpf_cleanup_held [of "- 5" "lpf\<lparr>lpf_dft_plan := None\<rparr>" os1 r c os' L]
      by (simp add: lpf_filter_init_plans_def)
  next
    case (2 d)
    have f2: "os_fault os2 = os_fault os" using a2 2 by (cases rule: acquire_cases) simp_all
    have l2: "os_live os2 = L + lpf_held (lpf\<lparr>lpf_dft_plan := Some d, lpf_ift_plan := h2\<rparr>)"
      using a2 2 lpf by (cases rule: acquire_cases) (simp_all add: lpf_held_eq add_mset_commute)
    from run a1 a2 2 obtain hin rin rin' hcb cb cb' hfr fr fr' where
      b: "lpf_real_in lpf = Some (hin, rin)" "lpf_complex_buff lpf = Some (hcb, cb)"
         "lpf_filter_resp lpf = Some (hfr, fr)"
      and cl: "lpf_cleanup (if h2 = None then - 6 else 0)
          (lpf\<lparr>lpf_dft_plan := Some d, lpf_ift_plan := h2, lpf_real_in := Some (hin, rin'),
               lpf_filter_resp := Some (hfr, fr'), lpf_complex_buff := Some (hcb, cb')\<rparr>) os2 = Some ((r, c), os')"
      by (auto simp: lpf_filter_init_plans_def Let_def bind_eq_Some_conv split: prod.splits)
    have "os_live os2 = L + lpf_held (lpf\<lparr>lpf_dft_plan := Some d, lpf_ift_plan := h2, lpf_real_in := Some (hin, rin'),
        lpf_filter_resp := Some (hfr, fr'), lpf_complex_buff := Some (hcb, cb')\<rparr>)"
      using l2 b by (simp add: lpf_held_eq)
    then show ?thesis using lpf_cleanup_held [OF cl] f2 by simp
  qed
qed

definition lpf_no_handles :: "lpf_filter_data \<Rightarrow> bool" where
  "lpf_no_handles lpf \<longleftrightarrow> lpf_filter_resp lpf = None \<and> lpf_real_in lpf = None \<and> lpf_real_out lpf = None \<and>
     lpf_complex_buff lpf = None \<and> lpf_dft_plan lpf = None \<and> lpf_ift_plan lpf = None"

lemma lpf_params_handles: "lpf_no_handles (lpf_params lpf_zero rate frames ov)"
  by (simp add: lpf_no_handles_def lpf_params_def lpf_zero_def Let_def)

text \<open>
  The outcomes of the initialisation: the allocation that failed, or the creation of the plans on
  the four buffers.
\<close>

lemma lpf_filter_init_cases:
  assumes "lpf_no_handles (lpf_params lpf rate frames ov)"
  obtains ret c os' where "lpf_filter_init ld dft lpf cutoff rate frames ov os = lpf_cleanup ret c os'" "ret < 0"
      "os_live os' = os_live os + lpf_held c" "os_fault os' = os_fault os"
  | ha hb hc hd c os' where
      "lpf_filter_init ld dft lpf cutoff rate frames ov os = lpf_filter_init_plans ld dft c cutoff rate os'"
      "c = (lpf_params lpf rate frames ov)\<lparr>
         lpf_real_in := Some (ha, replicate (unat ((ucast ov + 1) * frames)) 0),
         lpf_real_out := Some (hb, replicate (unat ((ucast ov + 1) * frames)) 0),
         lpf_complex_buff := Some (hc, replicate (unat ((ucast ov + 1) * frames div 2 + 1)) (0, 0)),
         lpf_filter_resp := Some (hd, replicate (unat ((ucast ov + 1) * frames div 2 + 1)) (0, 0))\<rparr>"
      "os_live os' = os_live os + lpf_held c" "os_fault os' = os_fault os"
proof -
  let ?p = "lpf_params lpf rate frames ov"
  have bins: "lpf_num_bins ?p = (ucast ov + 1) * frames" "lpf_middle_bin ?p = (ucast ov + 1) * frames div 2 + 1"
    by (simp_all add: lpf_params_def Let_def)
  note none = assms [unfolded lpf_no_handles_def]
  obtain b1 os1 where a1: "fftwf_alloc (0 :: real) (unat (lpf_num_bins ?p)) os = (b1, os1)" by fastforce
  obtain b2 os2 where a2: "fftwf_alloc (0 :: real) (unat (lpf_num_bins ?p)) os1 = (b2, os2)" by fastforce
  obtain b3 os3 where a3: "fftwf_alloc (0 :: real, 0 :: real) (unat (lpf_middle_bin ?p)) os2 = (b3, os3)" by fastforce
  obtain b4 os4 where a4: "fftwf_alloc (0 :: real, 0 :: real) (unat (lpf_middle_bin ?p)) os3 = (b4, os4)" by fastforce
  note init = lpf_filter_init_def Let_def
  from a1 show ?thesis
  proof (cases rule: fftwf_alloc_cases)
    case 1
    then show ?thesis using a1 none that(1) [of "- 2" "?p\<lparr>lpf_real_in := None\<rparr>" os1]
      by (simp add: init lpf_held_eq)
  next
    case r1: (2 h1)
    from a2 show ?thesis
    proof (cases rule: fftwf_alloc_cases)
      case 1
      then show ?thesis using a1 a2 r1 none that(1) [of "- 3" "?p\<lparr>lpf_real_in := b1, lpf_real_out := None\<rparr>" os2]
        by (simp add: init lpf_held_eq)
    next
      case r2: (2 h2)
      from a3 show ?thesis
      proof (cases rule: fftwf_alloc_cases)
        case 1
        then show ?thesis using a1 a2 a3 r1 r2 none
            that(1) [of "- 4" "?p\<lparr>lpf_real_in := b1, lpf_real_out := b2, lpf_complex_buff := None\<rparr>" os3]
          by (simp add: init lpf_held_eq add_mset_commute)
      next
        case r3: (2 h3)
        from a4 show ?thesis
        proof (cases rule: fftwf_alloc_cases)
          case 1
          then show ?thesis using a1 a2 a3 a4 r1 r2 r3 none
              that(1) [of "- 4" "?p\<lparr>lpf_real_in := b1, lpf_real_out := b2, lpf_complex_buff := b3,
                lpf_filter_resp := None\<rparr>" os4]
            by (simp add: init lpf_held_eq add_mset_commute)
        next
          case r4: (2 h4)
          show ?thesis
            by (rule that(2) [OF _ refl, where ha = h1 and hb = h2 and hc = h3 and hd = h4 and os' = os4])
              (use a1 a2 a3 a4 r1 r2 r3 r4 none in \<open>simp_all add: init bins lpf_held_eq add_mset_commute\<close>)
        qed
      qed
    qed
  qed
qed

lemma lpf_filter_init_held:
  assumes "lpf_filter_init ld dft lpf_zero cutoff rate frames ov os = Some ((r, c), os')"
  shows "os_fault os' = os_fault os \<and> (r < 0 \<longrightarrow> os_live os' = os_live os) \<and>
    (0 \<le> r \<longrightarrow> os_live os' = os_live os + lpf_held c)"
  using lpf_params_handles [of rate frames ov]
proof (cases rule: lpf_filter_init_cases [of lpf_zero rate frames ov ld dft cutoff os])
  case (1 ret c' os1)
  then show ?thesis using lpf_cleanup_held [of ret c' os1 r c os'] assms by simp
next
  case (2 h1 h2 h3 h4 c' os1)
  have "lpf_dft_plan c' = None" "lpf_ift_plan c' = None"
    unfolding 2(2) using lpf_params_handles [of rate frames ov] by (simp_all add: lpf_no_handles_def)
  with 2 show ?thesis
    using lpf_init_plans_held [of ld dft c' cutoff rate os1 r c os' "os_live os"] assms by simp
qed

lemma unat_middle: "unat ((w :: 16 word) div 2 + 1) = unat w div 2 + 1"
proof -
  have "unat w div 2 + 1 < 2 ^ 16" using unsigned_less [of w, where 'a = nat] by simp
  then show ?thesis by (simp add: unat_word_ariths unat_div)
qed

lemma mem_write_all: "length xs = length buf \<Longrightarrow> mem_write 0 xs buf = Some xs"
  by (simp add: mem_write_def)

lemma mem_read_all: "n = length buf \<Longrightarrow> mem_read 0 n buf = Some buf"
  by (simp add: mem_read_def)

text \<open>With the documented sizes the plans are run within the buffers.\<close>

lemma lpf_init_plans_run:
  assumes dft: "length (dft (unat (lpf_num_bins c)) imp) = unat (lpf_num_bins c) div 2 + 1"
    and imp: "generate_lpf_impulse ld (lpf_num_bins c) (f32 (of_nat (unat cutoff))) (f32 (of_nat (unat rate))) = Some imp"
    and c: "lpf_middle_bin c = lpf_num_bins c div 2 + 1" "lpf_real_in c = Some (h1, x1)"
      "lpf_complex_buff c = Some (h3, x3)" "lpf_filter_resp c = Some (h4, x4)"
      "length x1 = unat (lpf_num_bins c)" "length x3 = unat (lpf_middle_bin c)" "length x4 = unat (lpf_middle_bin c)"
  obtains ret c' os' where "lpf_filter_init_plans ld dft c cutoff rate os = lpf_cleanup ret c' os'" "ret < 0"
  | d i os' where "lpf_filter_init_plans ld dft c cutoff rate os =
      Some ((0, c\<lparr>lpf_dft_plan := Some d, lpf_ift_plan := Some i, lpf_real_in := Some (h1, imp),
        lpf_filter_resp := Some (h4, dft (unat (lpf_num_bins c)) imp),
        lpf_complex_buff := Some (h3, replicate (unat (lpf_middle_bin c)) (0, 0))\<rparr>), os')"
proof -
  have w: "mem_write 0 imp x1 = Some imp"
    using length_generate_lpf_impulse [OF imp] c by (simp add: mem_write_all)
  have d: "mem_write 0 (dft (unat (lpf_num_bins c)) imp) x3 = Some (dft (unat (lpf_num_bins c)) imp)"
    "mem_read 0 (unat (lpf_middle_bin c)) (dft (unat (lpf_num_bins c)) imp) = Some (dft (unat (lpf_num_bins c)) imp)"
    "mem_write 0 (dft (unat (lpf_num_bins c)) imp) x4 = Some (dft (unat (lpf_num_bins c)) imp)"
    "mem_write 0 (replicate (unat (lpf_middle_bin c)) (0, 0)) (dft (unat (lpf_num_bins c)) imp) =
       Some (replicate (unat (lpf_middle_bin c)) (0, 0))"
    using dft c by (simp_all add: mem_write_all mem_read_all unat_middle)
  obtain a1 os1 where a1: "acquire Fftw_Plan os = (a1, os1)" by fastforce
  obtain a2 os2 where a2: "acquire Fftw_Plan os1 = (a2, os2)" by fastforce
  note init = lpf_filter_init_plans_def Let_def imp [unfolded of_nat_unat] w d [unfolded c(1)] c
  consider "a1 = None" | p where "a1 = Some p" "a2 = None" | p q where "a1 = Some p" "a2 = Some q" by blast
  then show ?thesis
  proof cases
    case 1
    with a1 show ?thesis using that(1) [of "- 5" "c\<lparr>lpf_dft_plan := None\<rparr>" os1] by (simp add: init)
  next
    case (2 p)
    with a1 a2 show ?thesis
      using that(1) [of "- 6" "c\<lparr>lpf_dft_plan := Some p, lpf_ift_plan := None, lpf_real_in := Some (h1, imp),
        lpf_filter_resp := Some (h4, dft (unat (lpf_num_bins c)) imp),
        lpf_complex_buff := Some (h3, replicate (unat (lpf_middle_bin c)) (0, 0))\<rparr>" os2] by (simp add: init)
  next
    case (3 p q)
    with a1 a2 show ?thesis using that(2) [of q p os2] by (simp add: init lpf_cleanup_def)
  qed
qed

lemma even_num_bins:
  assumes "odd (unat (ov :: 8 word))"
  shows "even (unat ((ucast ov + 1) * (frames :: 16 word)))"
proof -
  have "unat ov mod 65536 = unat ov" using unsigned_less [of ov, where 'a = nat] by simp
  then have "unat ((ucast ov + 1) * frames) = ((unat ov + 1) * unat frames) mod 2 ^ 16"
    by (simp add: unat_word_ariths unsigned_ucast_eq take_bit_eq_mod mod_mult_left_eq)
  moreover have "even ((unat ov + 1) * unat frames)" using assms by simp
  ultimately show ?thesis by (simp add: dvd_mod)
qed

text \<open>The conditions under which the initialisation does not fault.\<close>

definition lpf_env :: "(real \<Rightarrow> real) \<Rightarrow> dft_fun \<Rightarrow> 32 word \<Rightarrow> 32 word \<Rightarrow> 8 word \<Rightarrow> bool" where
  "lpf_env ld dft cutoff rate ov \<longleftrightarrow>
     long_double ld \<and> (\<forall>n xs. length (dft n xs) = n div 2 + 1) \<and> odd (unat ov) \<and>
     2 powi (- 40) \<le> f32 (of_nat (unat cutoff)) / f32 (of_nat (unat rate))"

text \<open>A filter whose window holds \<open>w\<close> and whose response is \<open>resp\<close>.\<close>

definition lpf_ready :: "16 word \<Rightarrow> 8 word \<Rightarrow> fcomplex list \<Rightarrow> real list \<Rightarrow> lpf_filter_data \<Rightarrow> bool" where
  "lpf_ready p ov resp w c \<longleftrightarrow>
     lpf_period_size c = p \<and> lpf_num_bins c = (ucast ov + 1) * p \<and>
     lpf_middle_bin c = (ucast ov + 1) * p div 2 + 1 \<and> lpf_overlap_len c = ucast ov * p \<and>
     map_option snd (lpf_real_in c) = Some w \<and> length w = unat ((ucast ov + 1) * p) \<and>
     map_option snd (lpf_filter_resp c) = Some resp \<and> length resp = unat ((ucast ov + 1) * p) div 2 + 1 \<and>
     map_option (length \<circ> snd) (lpf_complex_buff c) = Some (unat ((ucast ov + 1) * p) div 2 + 1) \<and>
     map_option (length \<circ> snd) (lpf_real_out c) = Some (unat ((ucast ov + 1) * p))"

lemma lpf_init_outcome:
  assumes dft: "\<And>n xs. length (dft n xs) = n div 2 + 1"
    and imp: "generate_lpf_impulse ld ((ucast ov + 1) * p) (f32 (of_nat (unat cutoff))) (f32 (of_nat (unat rate))) = Some imp"
  obtains r c os' where "lpf_filter_init ld dft lpf_zero cutoff rate p ov os = Some ((r, c), os')" "r < 0"
  | c os' where "lpf_filter_init ld dft lpf_zero cutoff rate p ov os = Some ((0, c), os')"
      "lpf_ready p ov (dft (unat ((ucast ov + 1) * p)) imp) imp c"
  using lpf_params_handles [of rate p ov]
proof (cases rule: lpf_filter_init_cases [of lpf_zero rate p ov ld dft cutoff os])
  case (1 ret c os1)
  then show ?thesis using that(1) by (simp add: lpf_cleanup_def)
next
  case (2 h1 h2 h3 h4 c os1)
  let ?n = "(ucast ov + 1) * p"
  have c: "lpf_num_bins c = ?n" "lpf_middle_bin c = ?n div 2 + 1" "lpf_period_size c = p" "lpf_overlap_len c = ucast ov * p"
    "lpf_real_in c = Some (h1, replicate (unat ?n) 0)" "lpf_real_out c = Some (h2, replicate (unat ?n) 0)"
    "lpf_complex_buff c = Some (h3, replicate (unat (?n div 2 + 1)) (0, 0))"
    "lpf_filter_resp c = Some (h4, replicate (unat (?n div 2 + 1)) (0, 0))"
    unfolding 2(2) by (simp_all add: lpf_params_def Let_def)
  show ?thesis
  proof (rule lpf_init_plans_run [of dft c imp ld cutoff rate h1 "replicate (unat ?n) 0" h3
        "replicate (unat (?n div 2 + 1)) (0, 0)" h4 "replicate (unat (?n div 2 + 1)) (0, 0)" os1])
    show "generate_lpf_impulse ld (lpf_num_bins c) (f32 (of_nat (unat cutoff))) (f32 (of_nat (unat rate))) = Some imp"
      unfolding c by (rule imp)
  next
    fix ret c' os' assume "lpf_filter_init_plans ld dft c cutoff rate os1 = lpf_cleanup ret c' os'" "ret < 0"
    then show thesis using that(1) 2(1) by (simp add: lpf_cleanup_def)
  next
    fix d i os' assume run: "lpf_filter_init_plans ld dft c cutoff rate os1 =
      Some ((0, c\<lparr>lpf_dft_plan := Some d, lpf_ift_plan := Some i, lpf_real_in := Some (h1, imp),
        lpf_filter_resp := Some (h4, dft (unat (lpf_num_bins c)) imp),
        lpf_complex_buff := Some (h3, replicate (unat (lpf_middle_bin c)) (0, 0))\<rparr>), os')"
    show thesis
      by (rule that(2) [OF trans [OF 2(1) run]])
        (use c dft length_generate_lpf_impulse [OF imp] in \<open>simp add: lpf_ready_def unat_middle\<close>)
  qed (use c dft in simp_all)
qed

lemma lpf_env_impulse:
  assumes "lpf_env ld dft cutoff rate ov"
  shows "\<exists>imp. generate_lpf_impulse ld ((ucast ov + 1) * p) (f32 (of_nat (unat cutoff))) (f32 (of_nat (unat rate))) = Some imp"
  using assms even_num_bins [of ov p] unfolding lpf_env_def by (intro generate_lpf_impulse_Some) blast+

lemma lpf_init_ready:
  assumes "lpf_filter_init ld dft lpf_zero cutoff rate p ov os = Some ((0, c), os')" "lpf_env ld dft cutoff rate ov"
  shows "\<exists>imp. generate_lpf_impulse ld ((ucast ov + 1) * p) (f32 (of_nat (unat cutoff))) (f32 (of_nat (unat rate))) = Some imp \<and>
    lpf_ready p ov (dft (unat ((ucast ov + 1) * p)) imp) imp c"
proof -
  obtain imp where imp: "generate_lpf_impulse ld ((ucast ov + 1) * p) (f32 (of_nat (unat cutoff))) (f32 (of_nat (unat rate))) = Some imp"
    using lpf_env_impulse [OF assms(2)] by blast
  have "\<And>n xs. length (dft n xs) = n div 2 + 1" using assms(2) by (simp add: lpf_env_def)
  from this imp show ?thesis
    by (cases rule: lpf_init_outcome [of dft ld ov p cutoff rate imp os]) (use assms(1) imp in auto)
qed

interpretation lpf: lifecycle "\<lambda>_. lpf_env ld dft cutoff rate ov"
  "lpf_filter_init ld dft lpf_zero cutoff rate frames ov" lpf_filter_destroy lpf_held
proof
  fix os
  assume env: "lpf_env ld dft cutoff rate ov"
  then obtain imp where imp: "generate_lpf_impulse ld ((ucast ov + 1) * frames) (f32 (of_nat (unat cutoff))) (f32 (of_nat (unat rate))) = Some imp"
    using lpf_env_impulse by blast
  have "\<And>n xs. length (dft n xs) = n div 2 + 1" using env by (simp add: lpf_env_def)
  from this imp show "lpf_filter_init ld dft lpf_zero cutoff rate frames ov os \<noteq> None"
    by (cases rule: lpf_init_outcome [of dft ld ov frames cutoff rate imp os]) simp_all
qed (auto dest: lpf_filter_init_held simp: lpf_destroy_held)

lemma hilbert_held_eq:
  "hilbert_held ht = held_opt Fftw_Buffer (map_option fst (ht_real_buff ht)) +
     held_opt Fftw_Buffer (map_option fst (ht_complex_buff ht)) +
     held_opt Fftw_Plan (ht_dft_plan ht) + held_opt Fftw_Plan (ht_ift_plan ht)"
  by (simp add: hilbert_held_def hilbert_handles_def ac_simps)

lemma hilbert_cleanup_held:
  assumes "hilbert_cleanup ret ht os = ((r, c), os')" "os_live os = L + hilbert_held ht"
  shows "os_fault os' = os_fault os \<and> (r < 0 \<longrightarrow> os_live os' = L) \<and> (0 \<le> r \<longrightarrow> os_live os' = L + hilbert_held c)"
  using assms hilbert_destroy_held [of ht os] by (auto simp: hilbert_cleanup_def split: if_splits)

lemma hilbert_init_outcome:
  obtains ret c os1 where "hilbert_transformer_init hilbert_zero n os = hilbert_cleanup ret c os1"
    "os_live os1 = os_live os + hilbert_held c" "os_fault os1 = os_fault os"
    "0 \<le> ret \<Longrightarrow> ht_num_bins c = n \<and> map_option snd (ht_real_buff c) = Some (replicate (unat n) 0) \<and>
        map_option snd (ht_complex_buff c) = Some (replicate (unat n) (0, 0))"
proof -
  let ?p = "hilbert_zero\<lparr>ht_num_bins := n\<rparr>"
  obtain b1 os1 where a1: "fftwf_alloc (0 :: real) (unat n) os = (b1, os1)" by fastforce
  obtain b2 os2 where a2: "fftwf_alloc (0 :: real, 0 :: real) (unat n) os1 = (b2, os2)" by fastforce
  obtain b3 os3 where a3: "acquire Fftw_Plan os2 = (b3, os3)" by fastforce
  obtain b4 os4 where a4: "acquire Fftw_Plan os3 = (b4, os4)" by fastforce
  note init = hilbert_transformer_init_def hilbert_zero_def Let_def hilbert_held_eq
  from a1 show ?thesis
  proof (cases rule: fftwf_alloc_cases)
    case 1
    then show ?thesis using a1 that [of "- 1" "?p\<lparr>ht_real_buff := None\<rparr>" os1] by (simp add: init)
  next
    case r1: (2 h1)
    from a2 show ?thesis
    proof (cases rule: fftwf_alloc_cases)
      case 1
      then show ?thesis using a1 a2 r1 that [of "- 2" "?p\<lparr>ht_real_buff := b1, ht_complex_buff := None\<rparr>" os2]
        by (simp add: init)
    next
      case r2: (2 h2)
      from a3 show ?thesis
      proof (cases rule: acquire_cases)
        case 1
        then show ?thesis using a1 a2 a3 r1 r2
            that [of "- 3" "?p\<lparr>ht_real_buff := b1, ht_complex_buff := b2, ht_dft_plan := None\<rparr>" os3]
          by (simp add: init add_mset_commute)
      next
        case r3: (2 h3)
        have "os_live os4 = os_live os + hilbert_held (?p\<lparr>ht_real_buff := b1, ht_complex_buff := b2,
            ht_dft_plan := b3, ht_ift_plan := b4\<rparr>)" "os_fault os4 = os_fault os"
          using a4 r1 r2 r3 by (cases rule: acquire_cases; simp add: hilbert_held_eq hilbert_zero_def add_mset_commute)+
        then show ?thesis using a1 a2 a3 a4 r1 r2 r3
            that [of "if b4 = None then - 4 else 0" "?p\<lparr>ht_real_buff := b1, ht_complex_buff := b2,
              ht_dft_plan := b3, ht_ift_plan := b4\<rparr>" os4]
          by (simp add: hilbert_transformer_init_def Let_def)
      qed
    qed
  qed
qed

lemma hilbert_init_held:
  assumes "hilbert_transformer_init hilbert_zero n os = ((r, c), os')"
  shows "os_fault os' = os_fault os \<and> (r < 0 \<longrightarrow> os_live os' = os_live os) \<and>
      (0 \<le> r \<longrightarrow> os_live os' = os_live os + hilbert_held c)"
proof (rule hilbert_init_outcome [of n os])
  fix ret c1 os1
  assume o: "hilbert_transformer_init hilbert_zero n os = hilbert_cleanup ret c1 os1"
    "os_live os1 = os_live os + hilbert_held c1" "os_fault os1 = os_fault os"
  from o(1) assms have "hilbert_cleanup ret c1 os1 = ((r, c), os')" by simp
  from hilbert_cleanup_held [OF this o(2)] o(3) show ?thesis by simp
qed

interpretation hilbert: lifecycle "\<lambda>_. True" "\<lambda>os. Some (hilbert_transformer_init hilbert_zero n os)"
  hilbert_transformer_destroy hilbert_held
  by unfold_locales (auto dest: hilbert_init_held simp: hilbert_destroy_held)

subsection \<open>The sliding window\<close>

lemma unat_num_bins: "unat ((ucast ov + 1) * p) = (unat (ucast (ov :: 8 word) * p) + unat (p :: 16 word)) mod 2 ^ 16"
  by (simp add: distrib_right unat_word_ariths)

text \<open>What the filter computes from the last \<open>n\<close> samples of its input.\<close>

definition lpf_output :: "dft_fun \<Rightarrow> ift_fun \<Rightarrow> fcomplex list \<Rightarrow> real \<Rightarrow> nat \<Rightarrow> real list \<Rightarrow> real list" where
  "lpf_output dft ift resp gain p w =
     (let n = length w in
      map (\<lambda>x. f32 (x * f32 (gain / f32 (of_nat n)))) (take p (fst (ift n (map2 bin_mult resp (dft n w))))))"

lemma lpf_apply_ready:
  assumes ready: "lpf_ready p ov resp w c" and fftw: "fftw_ok dft ift"
    and bins: "unat (ucast ov * p) + unat p < 2 ^ 16" and xs: "length xs = unat p"
  shows "\<exists>c'. lpf_filter_apply dft ift c xs xs p gain =
      Some (lpf_output dft ift resp gain (unat p) (drop (unat p) w @ xs), c') \<and>
    lpf_ready p ov resp (drop (unat p) w @ xs) c'"
proof -
  let ?n = "unat (ucast ov * p) + unat p" and ?l = "unat (ucast ov * p)" and ?p = "unat p"
  let ?w = "drop ?p w @ xs" and ?m = "?n div 2 + 1"
  have n: "unat ((ucast ov + 1) * p) = ?n" using bins by (simp add: unat_num_bins)
  from ready n obtain h1 h3 x3 h4 h2 x2 where
    c: "lpf_period_size c = p" "lpf_num_bins c = (ucast ov + 1) * p" "lpf_overlap_len c = ucast ov * p"
      "lpf_middle_bin c = (ucast ov + 1) * p div 2 + 1"
      "lpf_real_in c = Some (h1, w)" "lpf_complex_buff c = Some (h3, x3)" "lpf_filter_resp c = Some (h4, resp)"
      "lpf_real_out c = Some (h2, x2)"
    and len: "length w = ?n" "length x3 = ?m" "length resp = ?m" "length x2 = ?n"
    by (auto simp: lpf_ready_def)
  have lw: "length ?w = ?n" using len xs by simp
  have mid: "unat (lpf_middle_bin c) = ?m" using c n unat_middle by metis
  have s1: "mem_read ?p ?l w = Some (drop ?p w)" using len by (simp add: mem_read_def)
  have s2: "mem_write 0 (drop ?p w) w = Some (drop ?p w @ drop ?l w)" using len by (simp add: mem_write_def)
  have s3: "mem_read 0 ?p xs = Some xs" using xs by (simp add: mem_read_def)
  have s4: "mem_write ?l xs (drop ?p w @ drop ?l w) = Some ?w" using len xs by (simp add: mem_write_def)
  have d: "length (dft ?n ?w) = ?m" by (simp only: fftw_okD(1) [OF fftw])
  have s5: "mem_write 0 (dft ?n ?w) x3 = Some (dft ?n ?w)" by (rule mem_write_all) (simp only: d len)
  have s6: "mem_read 0 ?m resp = Some resp" "mem_read 0 ?m (dft ?n ?w) = Some (dft ?n ?w)"
    by (rule mem_read_all, simp only: d len)+
  let ?cb = "map2 bin_mult resp (dft ?n ?w)"
  have lc: "length ?cb = ?m" by (simp only: length_map length_zip d len min.idem)
  have s7: "mem_write 0 ?cb (dft ?n ?w) = Some ?cb" by (rule mem_write_all) (simp only: d lc)
  let ?t = "fst (ift ?n ?cb)"
  have lt: "length ?t = ?n" "length (snd (ift ?n ?cb)) = ?m" by (simp_all only: fftw_okD(2,3) [OF fftw] lc)
  have s8: "mem_write 0 ?t x2 = Some ?t" by (rule mem_write_all) (simp only: lt len)
  have s9: "mem_read 0 ?p ?t = Some (take ?p ?t)" using lt by (simp add: mem_read_def)
  have s10: "mem_write 0 (map f (take ?p ?t)) xs = Some (map f (take ?p ?t))" for f :: "real \<Rightarrow> real"
    by (rule mem_write_all) (use lt xs in simp)
  let ?c = "c\<lparr>lpf_real_in := Some (h1, ?w), lpf_complex_buff := Some (h3, snd (ift ?n ?cb)),
      lpf_real_out := Some (h2, ?t)\<rparr>"
  have "lpf_filter_apply dft ift c xs xs p gain = Some (lpf_output dft ift resp gain ?p ?w, ?c)"
    unfolding lpf_filter_apply_def lpf_output_def Let_def c mid [unfolded c] n lw
    by (simp only: s1 s2 s3 s4 s5 s6 s7 s8 s9 s10 mid [unfolded c] Option.bind.bind_lunit case_prod_beta fst_conv snd_conv n)
  moreover have "lpf_ready p ov resp ?w ?c" using c n lw lt len by (simp add: lpf_ready_def)
  ultimately show ?thesis by blast
qed

lemma lpf_apply_overflow:
  assumes "lpf_ready p ov resp w c" "2 ^ 16 \<le> unat (ucast ov * p) + unat p"
  shows "lpf_filter_apply dft ift c inp out num gain = None"
proof -
  obtain h where c: "lpf_real_in c = Some (h, w)" "lpf_period_size c = p" "lpf_overlap_len c = ucast ov * p"
    and w: "length w = unat ((ucast ov + 1) * p)"
    using assms(1) by (auto simp: lpf_ready_def)
  have "unat ((ucast ov + 1) * p) < 2 ^ 16" by (simp add: unat_num_bins)
  then have "unat ((ucast ov + 1) * p) < unat p + unat (ucast ov * p)" using assms(2) by linarith
  then have "mem_read (unat p) (unat (ucast ov * p)) w = None" by (simp add: mem_read_def w)
  then show ?thesis by (simp add: lpf_filter_apply_def c)
qed

text \<open>The filter over a sequence of periods, in place as the modulator calls it, and its reference.\<close>

primrec lpf_run ::
  "dft_fun \<Rightarrow> ift_fun \<Rightarrow> real \<Rightarrow> lpf_filter_data \<Rightarrow> real list list \<Rightarrow> real list list option" where
  "lpf_run dft ift gain c [] = Some []"
| "lpf_run dft ift gain c (xs # xss) =
     do {
       (out, c) \<leftarrow> lpf_filter_apply dft ift c xs xs (of_nat (length xs)) gain;
       outs \<leftarrow> lpf_run dft ift gain c xss;
       Some (out # outs)
     }"

definition last_n :: "nat \<Rightarrow> 'a list \<Rightarrow> 'a list" where
  "last_n n xs = drop (length xs - n) xs"

primrec lpf_spec :: "dft_fun \<Rightarrow> ift_fun \<Rightarrow> fcomplex list \<Rightarrow> real \<Rightarrow> nat \<Rightarrow> real list \<Rightarrow> real list list \<Rightarrow> real list list" where
  "lpf_spec dft ift resp gain n hist [] = []"
| "lpf_spec dft ift resp gain n hist (xs # xss) =
     lpf_output dft ift resp gain (length xs) (last_n n (hist @ xs)) # lpf_spec dft ift resp gain n (hist @ xs) xss"

lemma last_n_append: "n \<le> length hist \<Longrightarrow> length xs \<le> n \<Longrightarrow> last_n n (hist @ xs) = drop (length xs) (last_n n hist) @ xs"
  by (simp add: last_n_def add.commute)

lemma lpf_run_spec:
  assumes "fftw_ok dft ift" "unat (ucast ov * p) + unat p < 2 ^ 16"
    and "lpf_ready p ov resp (last_n (unat ((ucast ov + 1) * p)) hist) c" "unat ((ucast ov + 1) * p) \<le> length hist"
    and "\<And>xs. xs \<in> set xss \<Longrightarrow> length xs = unat p"
  shows "lpf_run dft ift gain c xss = Some (lpf_spec dft ift resp gain (unat ((ucast ov + 1) * p)) hist xss)"
  using assms(3-5)
proof (induction xss arbitrary: c hist)
  case (Cons xs xss)
  let ?n = "unat ((ucast ov + 1) * p)"
  have xs: "length xs = unat p" using Cons.prems by simp
  have le: "unat p \<le> ?n" using assms(2) by (simp add: unat_num_bins)
  obtain c' where c': "lpf_filter_apply dft ift c xs xs p gain =
      Some (lpf_output dft ift resp gain (unat p) (drop (unat p) (last_n ?n hist) @ xs), c')"
    "lpf_ready p ov resp (drop (unat p) (last_n ?n hist) @ xs) c'"
    using lpf_apply_ready [OF Cons.prems(1) assms(1,2) xs] by blast
  have l: "drop (unat p) (last_n ?n hist) @ xs = last_n ?n (hist @ xs)"
    using last_n_append [of ?n hist xs] Cons.prems(2) xs le by simp
  have "lpf_run dft ift gain c' xss = Some (lpf_spec dft ift resp gain ?n (hist @ xs) xss)"
    using Cons.IH [of "hist @ xs" c'] c'(2) Cons.prems unfolding l by simp
  then show ?case using c'(1) xs unfolding l by simp
qed simp

subsection \<open>Properties of the low-pass filter\<close>

text \<open>
  C12: After a successful initialisation the filter computes, for each period, the transform of the
  last \<open>num_bins\<close> samples of the whole input so far, multiplied bin by bin with the response of the
  filter: the shifts of the window lose and repeat nothing. The input starts with the impulse of
  the filter itself, which the initialisation leaves in the window.
\<close>

theorem lpf_stream_refines:
  assumes "lpf_filter_init ld dft lpf_zero cutoff rate p ov os = Some ((0, c), os')"
    and "lpf_env ld dft cutoff rate ov" "fftw_ok dft ift" "unat (ucast ov * p) + unat p < 2 ^ 16"
    and "\<forall>xs \<in> set xss. length xs = unat p"
  shows "\<exists>imp. generate_lpf_impulse ld ((ucast ov + 1) * p) (f32 (of_nat (unat cutoff))) (f32 (of_nat (unat rate))) = Some imp \<and>
    lpf_run dft ift gain c xss =
      Some (lpf_spec dft ift (dft (unat ((ucast ov + 1) * p)) imp) gain (unat ((ucast ov + 1) * p)) imp xss)"
proof -
  obtain imp where imp: "generate_lpf_impulse ld ((ucast ov + 1) * p) (f32 (of_nat (unat cutoff))) (f32 (of_nat (unat rate))) = Some imp"
    "lpf_ready p ov (dft (unat ((ucast ov + 1) * p)) imp) imp c"
    using lpf_init_ready [OF assms(1,2)] by blast
  have len: "length imp = unat ((ucast ov + 1) * p)" using length_generate_lpf_impulse [OF imp(1)] .
  then have "last_n (unat ((ucast ov + 1) * p)) imp = imp" by (simp add: last_n_def)
  then show ?thesis
    using lpf_run_spec [OF assms(3,4), of "dft (unat ((ucast ov + 1) * p)) imp" imp c xss gain] imp len assms(5)
    by (intro exI [of _ imp]) simp
qed

text \<open>A library with the documented sizes.\<close>

definition zero_dft :: dft_fun where "zero_dft n xs = replicate (n div 2 + 1) (0, 0)"

definition zero_ift :: ift_fun where "zero_ift n cs = (replicate n 0, cs)"

lemma zero_fftw_ok: "fftw_ok zero_dft zero_ift"
  by (simp add: fftw_ok_def zero_dft_def zero_ift_def)

lemma lpf_env_ssb: "lpf_env f64 zero_dft 38000 228000 3"
proof -
  have "f32 38000 = 38000" "f32 228000 = 228000" using f32_of_int [of 38000] f32_of_int [of 228000] by simp_all
  then show ?thesis by (simp add: lpf_env_def long_double_f64 zero_dft_def power_int_minus)
qed

lemma lpf_init_no_fail:
  assumes "no_fail os" "lpf_env ld dft cutoff rate ov"
  shows "\<exists>c os'. lpf_filter_init ld dft lpf_zero cutoff rate p ov os = Some ((0, c), os') \<and> no_fail os' \<and> os_shm os' = os_shm os"
proof -
  let ?n = "(ucast ov + 1) * p"
  obtain imp where imp: "generate_lpf_impulse ld ?n (f32 (of_nat (unat cutoff))) (f32 (of_nat (unat rate))) = Some imp"
    using lpf_env_impulse [OF assms(2)] by blast
  have len: "length imp = unat ?n" using length_generate_lpf_impulse [OF imp] .
  have dft: "length (dft (unat ?n) imp) = unat ?n div 2 + 1" using assms(2) by (simp add: lpf_env_def)
  have nf: "\<not> os_fail os n" for n using assms(1) by (simp add: no_fail_def)
  show ?thesis
    by (simp add: lpf_filter_init_def lpf_params_def fftwf_alloc_def acquire_def Let_def nf no_fail_def
        lpf_filter_init_plans_def imp [unfolded of_nat_unat] len mem_write_all mem_read_all dft unat_middle lpf_cleanup_def)
qed

lemma lpf_init_no_failure:
  "\<exists>c os'. lpf_filter_init f64 zero_dft lpf_zero 38000 228000 p 3 (os_start (\<lambda>_. False)) = Some ((0, c), os')"
  using lpf_init_no_fail [OF no_fail_start lpf_env_ssb] by blast

theorem lpf_stream_refines_witness:
  "\<exists>c os' imp. lpf_filter_init f64 zero_dft lpf_zero 38000 228000 2 3 (os_start (\<lambda>_. False)) = Some ((0, c), os') \<and>
     lpf_run zero_dft zero_ift 1 c [[1, 2], [3, 4]] = Some (lpf_spec zero_dft zero_ift (zero_dft 8 imp) 1 8 imp [[1, 2], [3, 4]])"
proof -
  obtain c os' where init: "lpf_filter_init f64 zero_dft lpf_zero 38000 228000 2 3 (os_start (\<lambda>_. False)) = Some ((0, c), os')"
    using lpf_init_no_failure [of 2] by blast
  from lpf_stream_refines [OF init lpf_env_ssb zero_fftw_ok, of "[[1, 2], [3, 4]]" 1] init show ?thesis by auto
qed

text \<open>
  C37: An initialised filter stays within its buffers exactly when the overlap and the period
  together, each truncated to 16 bits, fit into 16 bits. A JACK period of 4096 frames at 48 kHz
  gives an upsampled period of 19456 samples, and the filter of the single side band modulator
  with its overlap factor 3 then writes outside of them.
\<close>

theorem lpf_apply_safe_iff:
  assumes "lpf_filter_init ld dft lpf_zero cutoff rate p ov os = Some ((0, c), os')"
    and "lpf_env ld dft cutoff rate ov" "fftw_ok dft ift" "length xs = unat p"
  shows "(lpf_filter_apply dft ift c xs xs p gain \<noteq> None) = (unat (ucast ov * p) + unat p < 2 ^ 16)"
proof -
  obtain imp where imp: "lpf_ready p ov (dft (unat ((ucast ov + 1) * p)) imp) imp c"
    using lpf_init_ready [OF assms(1,2)] by blast
  then show ?thesis
    using lpf_apply_ready [OF imp assms(3) _ assms(4), of gain] lpf_apply_overflow [OF imp]
    by (cases "unat (ucast ov * p) + unat p < 2 ^ 16") auto
qed

theorem lpf_apply_safe_iff_witness:
  "\<exists>c os'. lpf_filter_init f64 zero_dft lpf_zero 38000 228000 19456 3 (os_start (\<lambda>_. False)) = Some ((0, c), os') \<and>
     lpf_filter_apply zero_dft zero_ift c (replicate 19456 0) (replicate 19456 0) 19456 1 = None"
proof -
  obtain c os' where init: "lpf_filter_init f64 zero_dft lpf_zero 38000 228000 19456 3 (os_start (\<lambda>_. False)) = Some ((0, c), os')"
    using lpf_init_no_failure [of 19456] by blast
  from lpf_apply_safe_iff [OF init lpf_env_ssb zero_fftw_ok, of "replicate 19456 0" 1] init show ?thesis
    by (simp del: not_None_eq split_paired_All)
qed

subsection \<open>Properties of the Hilbert transformer\<close>

definition hilbert_ready :: "16 word \<Rightarrow> hilbert_transformer_data \<Rightarrow> bool" where
  "hilbert_ready n ht \<longleftrightarrow> ht_num_bins ht = n \<and> map_option (length \<circ> snd) (ht_real_buff ht) = Some (unat n) \<and>
     map_option (length \<circ> snd) (ht_complex_buff ht) = Some (unat n)"

lemma hilbert_init_ready:
  assumes "hilbert_transformer_init hilbert_zero n os = ((0, ht), os')"
  shows "hilbert_ready n ht"
proof (rule hilbert_init_outcome [of n os])
  fix ret c os1
  assume o: "hilbert_transformer_init hilbert_zero n os = hilbert_cleanup ret c os1"
    and c: "0 \<le> ret \<Longrightarrow> ht_num_bins c = n \<and> map_option snd (ht_real_buff c) = Some (replicate (unat n) 0) \<and>
        map_option snd (ht_complex_buff c) = Some (replicate (unat n) (0, 0))"
  from o assms have "ret = 0" "c = ht" by (auto simp: hilbert_cleanup_def split: if_splits)
  with c show ?thesis by (auto simp: hilbert_ready_def)
qed

text \<open>
  The spectrum of the Hilbert transform: every bin is multiplied by the imaginary unit, and the bin
  of the Nyquist frequency, which exists when \<open>n\<close> is even, is zero.
\<close>

definition hilbert_spectrum :: "nat \<Rightarrow> fcomplex list \<Rightarrow> fcomplex list" where
  "hilbert_spectrum n cs =
     map (\<lambda>k. if 2 * k = n then (0, 0) else (- snd (cs ! k), fst (cs ! k))) [0 ..< n div 2 + 1]"

lemma hilbert_bins:
  assumes "length X = n div 2 + 1"
  shows "take (n div 2 + 1) (map mul_i (take ((n + 1) div 2) (X @ old)) @
      (0, 0) # rest) = hilbert_spectrum n X"
proof (cases "even n")
  case True
  then obtain m where m: "n = 2 * m" by blast
  have "map mul_i (take m X) = map (\<lambda>k. (- snd (X ! k), fst (X ! k))) [0 ..< m]"
    by (rule nth_equalityI) (use assms m in \<open>auto simp: mul_i_def\<close>)
  then show ?thesis using assms m by (simp add: hilbert_spectrum_def)
next
  case False
  then obtain m where m: "n = 2 * m + 1" using oddE by blast
  have ne: "2 * k \<noteq> n" for k unfolding m by presburger
  have "map mul_i X = map (\<lambda>k. (- snd (X ! k), fst (X ! k))) [0 ..< m + 1]"
    by (rule nth_equalityI) (use assms m in \<open>auto simp: mul_i_def simp del: upt_Suc\<close>)
  then show ?thesis using assms m ne by (simp add: hilbert_spectrum_def del: upt_Suc)
qed

lemma mem_write_append:
  "length as = off \<Longrightarrow> length xs \<le> length bs \<Longrightarrow> mem_write off xs (as @ bs) = Some (as @ xs @ drop (length xs) bs)"
  by (simp add: mem_write_def)

lemma mem_read_append:
  "length as = off \<Longrightarrow> length bs = n \<Longrightarrow> mem_read off n (as @ bs) = Some bs"
  by (simp add: mem_read_def)

text \<open>The three passes over the complex buffer.\<close>

lemma hilbert_passes:
  fixes Y :: "fcomplex list"
  assumes "length Y = n" "2 \<le> n"
  defines "pos \<equiv> map mul_i (take ((n + 1) div 2) Y)"
    and "neg \<equiv> map mul_minus_i (drop ((n + 1) div 2 + 1) Y)"
  shows "mem_read 0 ((n + 1) div 2) Y = Some (take ((n + 1) div 2) Y)"
    "mem_write 0 pos Y = Some (pos @ drop ((n + 1) div 2) Y)"
    "mem_write ((n + 1) div 2) [(0, 0)] (pos @ drop ((n + 1) div 2) Y) =
       Some ((pos @ [(0, 0)]) @ drop ((n + 1) div 2 + 1) Y)"
    "mem_read ((n + 1) div 2 + 1) (n - ((n + 1) div 2 + 1)) ((pos @ [(0, 0)]) @ drop ((n + 1) div 2 + 1) Y) =
       Some (drop ((n + 1) div 2 + 1) Y)"
    "mem_write ((n + 1) div 2 + 1) neg ((pos @ [(0, 0)]) @ drop ((n + 1) div 2 + 1) Y) =
       Some (pos @ (0, 0) # neg)"
    "length (pos @ (0, 0) # neg) = n"
proof -
  let ?m = "(n + 1) div 2"
  have m: "?m + 1 \<le> n" using assms(2) by presburger
  have pos: "length pos = ?m" and neg: "length neg = n - (?m + 1)" using assms(1) m by (simp_all add: pos_def neg_def)
  show "mem_read 0 ?m Y = Some (take ?m Y)" using assms(1) m by (simp add: mem_read_def)
  show "mem_write 0 pos Y = Some (pos @ drop ?m Y)" using assms(1) m pos by (simp add: mem_write_def)
  show "mem_write ?m [(0, 0)] (pos @ drop ?m Y) = Some ((pos @ [(0, 0)]) @ drop (?m + 1) Y)"
    using assms(1) m pos by (subst mem_write_append) (simp_all add: add.commute)
  show "mem_read (?m + 1) (n - (?m + 1)) ((pos @ [(0, 0)]) @ drop (?m + 1) Y) = Some (drop (?m + 1) Y)"
    by (rule mem_read_append) (use assms(1) pos in simp_all)
  show "mem_write (?m + 1) neg ((pos @ [(0, 0)]) @ drop (?m + 1) Y) = Some (pos @ (0, 0) # neg)"
    using assms(1) pos neg by (subst mem_write_append) simp_all
  show "length (pos @ (0, 0) # neg) = n" using pos neg m by simp
qed

text \<open>
  C38: For at least two bins the transformer stays within its buffers, and its output is the inverse
  transform of the rotated spectrum of the zero-padded input, scaled. The bins above the Nyquist
  frequency, which hold the values of earlier calls, do not matter.
\<close>

theorem hilbert_apply_rotates:
  assumes "hilbert_ready n ht" "fftw_ok dft ift" "2 \<le> unat n" "length xs \<le> unat n"
  shows "\<exists>ht'. hilbert_transformer_apply dft ift ht xs (of_nat (length xs)) = Some ht' \<and> hilbert_ready n ht' \<and>
    map_option (take (length xs) \<circ> snd) (ht_real_buff ht') =
      Some (map (\<lambda>x. f32 (x * f32 (f64 (1 / f32 (of_nat (unat n))))))
        (take (length xs) (fst (ift (unat n)
          (hilbert_spectrum (unat n) (dft (unat n) (xs @ replicate (unat n - length xs) 0)))))))"
proof -
  let ?n = "unat n" and ?k = "length xs" and ?mid = "(unat n + 1) div 2"
  let ?x = "xs @ replicate (?n - ?k) 0"
  let ?X = "dft ?n ?x"
  obtain h1 rb h2 cb where ht: "ht_num_bins ht = n" "ht_real_buff ht = Some (h1, rb)" "ht_complex_buff ht = Some (h2, cb)"
    and len: "length rb = ?n" "length cb = ?n"
    using assms(1) by (auto simp: hilbert_ready_def)
  have k: "unat (of_nat ?k :: 16 word) = ?k"
    using assms(4) unsigned_less [of n, where 'a = nat] by (simp add: unat_of_nat)
  have lX: "length ?X = ?n div 2 + 1" by (rule fftw_okD(1) [OF assms(2)])
  define old where "old = drop (?n div 2 + 1) cb"
  have lXo: "length (?X @ old) = ?n" using lX len assms(3) by (simp add: old_def)
  have s1: "mem_write 0 (replicate ?n 0) rb = Some (replicate ?n 0)" by (rule mem_write_all) (simp add: len)
  have s2: "mem_read 0 ?k xs = Some xs" by (simp add: mem_read_all)
  have s3: "mem_write 0 xs (replicate ?n 0) = Some ?x" using assms(4) by (simp add: mem_write_def)
  have s4: "mem_write 0 ?X cb = Some (?X @ old)" using lX len assms(3) by (simp add: mem_write_def old_def)
  let ?pos = "map mul_i (take ?mid (?X @ old))"
  let ?neg = "map mul_minus_i (drop (?mid + 1) (?X @ old))"
  note passes = hilbert_passes [OF lXo assms(3)]
  define cb' where "cb' = ?pos @ (0, 0) # ?neg"
  define t where "t = fst (ift ?n cb')"
  have "take (?n div 2 + 1) cb' = hilbert_spectrum ?n ?X" unfolding cb'_def by (rule hilbert_bins [OF lX])
  from fftw_okD(4) [OF assms(2), of ?n cb', unfolded this]
  have t: "fst (ift ?n (hilbert_spectrum ?n ?X)) = t" by (simp only: t_def)
  have "length cb' = ?n" unfolding cb'_def by (rule passes(6))
  then have lt: "length t = ?n" "length (snd (ift ?n cb')) = ?n"
    unfolding t_def by (simp_all only: fftw_okD(2,3) [OF assms(2)])
  have s10: "mem_write 0 t ?x = Some t" by (rule mem_write_all) (simp only: lt length_append length_replicate le_add_diff_inverse [OF assms(4)])
  have s11: "mem_read 0 ?k t = Some (take ?k t)" by (simp only: mem_read_def lt drop_0 add_0 assms(4) if_True)
  define out where "out = map (\<lambda>x. f32 (x * f32 (f64 (1 / f32 (of_nat ?n))))) (take ?k t)"
  have lo: "length out = ?k" using lt assms(4) by (simp add: out_def)
  have s12: "mem_write 0 out t = Some (out @ drop ?k t)"
    by (simp only: mem_write_def lt lo take_0 add_0 assms(4) if_True append_Nil)
  define ht' where "ht' = ht\<lparr>ht_real_buff := Some (h1, out @ drop ?k t), ht_complex_buff := Some (h2, snd (ift ?n cb'))\<rparr>"
  have "hilbert_transformer_apply dft ift ht xs (of_nat ?k) = Some ht'"
    unfolding hilbert_transformer_apply_def Let_def ht k
    by (simp only: s1 s2 s3 s4 passes(1-5) cb'_def [symmetric] t_def [symmetric] s10 s11 out_def [symmetric] s12
        Option.bind.bind_lunit case_prod_beta fst_conv snd_conv ht'_def)
  moreover have "hilbert_ready n ht'"
    unfolding hilbert_ready_def ht'_def using lt lo ht(1) assms(4) by simp
  moreover have "map_option (take ?k \<circ> snd) (ht_real_buff ht') = Some out" using lo by (simp add: ht'_def)
  ultimately show ?thesis unfolding t out_def by blast
qed

theorem hilbert_apply_rotates_witness:
  "\<exists>ht os' ht'. hilbert_transformer_init hilbert_zero 4 (os_start (\<lambda>_. False)) = ((0, ht), os') \<and>
     hilbert_transformer_apply zero_dft zero_ift ht [1, 2, 3] 3 = Some ht' \<and> hilbert_ready 4 ht'"
proof -
  obtain ht os' where init: "hilbert_transformer_init hilbert_zero 4 (os_start (\<lambda>_. False)) = ((0, ht), os')"
    by (simp add: hilbert_transformer_init_def fftwf_alloc_def acquire_def os_start_def Let_def hilbert_cleanup_def)
  from init hilbert_apply_rotates [OF hilbert_init_ready [OF init] zero_fftw_ok, of "[1, 2, 3]"] show ?thesis by auto
qed

subsection \<open>A property of the pre-emphasis filter\<close>

definition taps :: "fmpreemph_filter_data \<Rightarrow> int \<Rightarrow> (real \<times> real) \<times> (real \<times> real)" where
  "taps fmprf mode = (if mode = LPF_PREEMPH_75US then (ataps_75 fmprf, btaps_75 fmprf) else (ataps_50 fmprf, btaps_50 fmprf))"

text \<open>The recurrence of the filter on its history, in \<^verbatim>\<open>float\<close>.\<close>

definition preemph_recurrence :: "(real \<times> real) \<times> (real \<times> real) \<Rightarrow> real \<Rightarrow> real \<Rightarrow> real \<times> real \<Rightarrow> real" where
  "preemph_recurrence t x x1 y =
     f32 (f32 (f32 (f32 (f32 (fst (fst t) * x)) + f32 (snd (fst t) * x1)) + f32 (fst (snd t) * fst y)) +
       f32 (snd (snd t) * snd y))"

text \<open>
  The modulator runs the filter of the left and then that of the right channel on every
  frame. After a change of the mode only the first call restarts: the left channel's output has no
  history, while the right channel's is the whole recurrence over the samples of the old mode.
\<close>

theorem fmpreemph_switch_one_channel:
  assumes "tau \<noteq> LPF_PREEMPH_NONE" "prev \<noteq> tau"
  shows "let (yl, l', prev1) = fmpreemph_filter_apply prev l xl tau;
             (yr, r', prev2) = fmpreemph_filter_apply prev1 r xr tau;
             y = preemph_recurrence (taps r tau) xr (last_in r) (last_out r)
         in yl = f32 (f32 (fst (fst (taps l tau)) * xl)) \<and> last_out l' = (yl, snd (last_out l)) \<and>
            yr = f32 (f64 (y * 8)) \<and> last_out r' = (y, fst (last_out r)) \<and> prev2 = tau"
  using assms
  by (simp add: fmpreemph_filter_apply_def taps_def preemph_recurrence_def Let_def)

theorem fmpreemph_switch_one_channel_witness:
  "let f = fmpreemph_zero\<lparr>ataps_50 := (1, 0), btaps_50 := (1, 0), last_out := (1, 0)\<rparr>;
       (yl, f1, prev1) = fmpreemph_filter_apply LPF_PREEMPH_NONE f 1 LPF_PREEMPH_50US;
       (yr, f2, prev2) = fmpreemph_filter_apply prev1 f 1 LPF_PREEMPH_50US
   in yl = 1 \<and> yr = 16"
proof -
  have f: "f32 1 = 1" "f32 2 = 2" "f32 16 = 16" "f64 16 = 16"
    using f32_of_int [of 1] f32_of_int [of 2] f32_of_int [of 16] f64_of_int [of 16] by simp_all
  let ?f = "fmpreemph_zero\<lparr>ataps_50 := (1, 0), btaps_50 := (1, 0), last_out := (1, 0)\<rparr>"
  from fmpreemph_switch_one_channel [of LPF_PREEMPH_50US LPF_PREEMPH_NONE ?f 1 ?f 1] show ?thesis
    by (simp add: Let_def taps_def preemph_recurrence_def fmpreemph_zero_def case_prod_beta f)
qed

end
