(* ===== verification/Rtp_Receivers.thy ===== *)
theory Rtp_Receivers
  imports Utils "HOL-Library.Word" "HOL-Library.Sublist" "HOL-Library.Monad_Syntax"
begin

text \<open>
  The receivers of the RTP server (\<^verbatim>\<open>rtp_server.c\<close>): adding and removing an address, and the
  statistics that publish the list. GStreamer's \<^verbatim>\<open>multiudpsink\<close> is a parameter, a record of its two
  action signals and two properties; the functions of the C library on strings and addresses are
  modelled. An \<^verbatim>\<open>in_addr_t\<close> is its four bytes in memory. A null pointer that is dereferenced and
  a division by zero are \<open>None\<close>.
\<close>

subsection \<open>The C library\<close>

type_synonym ipv4 = "8 word \<times> 8 word \<times> 8 word \<times> 8 word"

definition digit_char :: "nat \<Rightarrow> char" where "digit_char d = char_of (48 + d)"

fun show_nat :: "nat \<Rightarrow> string" where
  "show_nat n = (if n < 10 then [digit_char n] else show_nat (n div 10) @ [digit_char (n mod 10)])"

declare show_nat.simps [simp del]

definition show_int :: "int \<Rightarrow> string" where
  "show_int k = (if k < 0 then CHR ''-'' # show_nat (nat (- k)) else show_nat (nat k))"

fun inet_ntoa :: "ipv4 \<Rightarrow> string" where
  "inet_ntoa (a, b, c, d) =
     show_nat (unat a) @ ''.'' @ show_nat (unat b) @ ''.'' @ show_nat (unat c) @ ''.'' @ show_nat (unat d)"

definition digit_value :: "char \<Rightarrow> nat option" where
  "digit_value c =
     (let n = of_char c :: nat in
      if 48 \<le> n \<and> n \<le> 57 then Some (n - 48)
      else if 65 \<le> n \<and> n \<le> 70 then Some (n - 55)
      else if 97 \<le> n \<and> n \<le> 102 then Some (n - 87) else None)"

text \<open>\<^verbatim>\<open>strtoul\<close> with base 0. A value beyond the range fails in \<^verbatim>\<open>inet_aton\<close> in any case.\<close>

fun scan_digits :: "nat \<Rightarrow> nat \<Rightarrow> string \<Rightarrow> nat \<times> string" where
  "scan_digits base acc [] = (acc, [])"
| "scan_digits base acc (c # cs) =
     (case digit_value c of
        Some d \<Rightarrow> if d < base then scan_digits base (acc * base + d) cs else (acc, c # cs)
      | None \<Rightarrow> (acc, c # cs))"

definition is_hex :: "char \<Rightarrow> bool" where "is_hex c = (digit_value c \<noteq> None)"

fun strtoul :: "string \<Rightarrow> nat \<times> string" where
  "strtoul (z # x # h # cs) =
     (if z = CHR ''0'' then
        if x \<in> {CHR ''x'', CHR ''X''} \<and> is_hex h then scan_digits 16 0 (h # cs) else scan_digits 8 0 (z # x # h # cs)
      else scan_digits 10 0 (z # x # h # cs))"
| "strtoul cs = (if take 1 cs = ''0'' then scan_digits 8 0 cs else scan_digits 10 0 cs)"

definition is_digit :: "char \<Rightarrow> bool" where
  "is_digit c = (48 \<le> (of_char c :: nat) \<and> (of_char c :: nat) \<le> 57)"

definition is_space :: "char \<Rightarrow> bool" where
  "is_space c = (c = CHR '' '' \<or> 9 \<le> (of_char c :: nat) \<and> (of_char c :: nat) \<le> 13)"

text \<open>
  \<^verbatim>\<open>inet_aton\<close>: up to four numbers separated by dots, the last of which fills the bytes that are
  left; \<open>parts\<close> are the bytes read so far. White space may follow.
\<close>

definition fill_bytes :: "8 word list \<Rightarrow> nat \<Rightarrow> ipv4 option" where
  "fill_bytes parts v =
     (let k = 4 - length parts in
      if v < 256 ^ k then
        (case parts @ map (\<lambda>i. of_nat (v div 256 ^ i)) (rev [0 ..< k]) of
           [a, b, c, d] \<Rightarrow> Some (a, b, c, d)
         | _ \<Rightarrow> None)
      else None)"

fun inet_aton_parts :: "nat \<Rightarrow> 8 word list \<Rightarrow> string \<Rightarrow> ipv4 option" where
  "inet_aton_parts n parts cs =
     (if cs = [] \<or> \<not> is_digit (hd cs) then None
      else
        let (v, rest) = strtoul cs in
        case rest of
          [] \<Rightarrow> fill_bytes parts v
        | c # rest' \<Rightarrow>
            if c = CHR ''.'' then
              if n = 0 \<or> 255 < v then None else inet_aton_parts (n - 1) (parts @ [of_nat v]) rest'
            else if is_space c then fill_bytes parts v else None)"

declare inet_aton_parts.simps [simp del]

definition inet_aton :: "string \<Rightarrow> ipv4 option" where
  "inet_aton cs = inet_aton_parts 3 [] cs"

fun strstr :: "string \<Rightarrow> string \<Rightarrow> bool" where
  "strstr [] needle = (needle = [])"
| "strstr (c # cs) needle = (take (length needle) (c # cs) = needle \<or> strstr cs needle)"

text \<open>The tokens that repeated calls of \<^verbatim>\<open>strtok_r\<close> return.\<close>

fun strtok :: "char \<Rightarrow> string \<Rightarrow> string \<Rightarrow> string list" where
  "strtok delim tok [] = (if tok = [] then [] else [tok])"
| "strtok delim tok (c # cs) =
     (if c = delim then (if tok = [] then strtok delim [] cs else tok # strtok delim [] cs)
      else strtok delim (tok @ [c]) cs)"

subsection \<open>State\<close>

record 'k multiudpsink =
  mu_new :: 'k
  mu_add :: "string \<Rightarrow> int \<Rightarrow> 'k \<Rightarrow> 'k"
  mu_remove :: "string \<Rightarrow> int \<Rightarrow> 'k \<Rightarrow> 'k"
  mu_clients :: "'k \<Rightarrow> string"
  mu_bytes_served :: "'k \<Rightarrow> 64 word"

datatype rtp_server_state =
  RTP_SERVER_INACTIVE | RTP_SERVER_ACTIVE | RTP_SERVER_QUEUE_FULL | RTP_SERVER_TERMINATED | RTP_SERVER_FAILED

abbreviation (input) RTP_SRV_MAX_RECEIVERS :: nat where "RTP_SRV_MAX_RECEIVERS \<equiv> 64"

text \<open>\<^verbatim>\<open>ctl->rtpsrv\<close> is \<^verbatim>\<open>NULL\<close> or the server.\<close>

record rtp_server_control =
  ctl_pid :: int
  ctl_rtpsrv :: bool
  rtp_tx_kbytesps :: "64 word"
  rtcp_tx_kbytesps :: "64 word"
  num_receivers :: nat
  receivers :: "ipv4 list"

text \<open>
  The part of the server that these functions use, with the static variables of
  \<^verbatim>\<open>rtp_server_update_stats\<close>.
\<close>

record 'k rtp_net =
  net_state :: rtp_server_state
  net_rtpsink :: 'k
  net_rtcpsink :: 'k
  net_baseport :: int
  net_ctl :: rtp_server_control
  last_timestamp :: "64 word"
  last_rtp_bytes_served :: "64 word"
  last_rtcp_bytes_served :: "64 word"

subsection \<open>The code\<close>

text \<open>The loop over the tokens of the list of clients.\<close>

fun parse_receivers :: "string list \<Rightarrow> nat \<Rightarrow> ipv4 list \<Rightarrow> (nat \<times> ipv4 list) option" where
  "parse_receivers [] i rs = Some (i, rs)"
| "parse_receivers (token # tokens) i rs =
     (if i < RTP_SRV_MAX_RECEIVERS then
        if CHR '':'' \<notin> set token then None
        else
          case inet_aton (takeWhile (\<lambda>c. c \<noteq> CHR '':'') token) of
            Some addr \<Rightarrow> parse_receivers tokens (i + 1) (rs[i := addr])
          | None \<Rightarrow> parse_receivers tokens i rs
      else Some (i, rs))"

definition kbytesps :: "64 word \<Rightarrow> 64 word \<Rightarrow> 64 word option" where
  "kbytesps bytediff timediff =
     (if timediff * 1024 = 0 then None else Some ((bytediff * 1000000) div (timediff * 1024)))"

definition rtp_server_update_stats ::
  "'k multiudpsink \<Rightarrow> 64 word \<Rightarrow> 'k rtp_net \<Rightarrow> 'k rtp_net option" where
  "rtp_server_update_stats sink cur_timestamp srv =
     do {
       let timediff = cur_timestamp - last_timestamp srv;
       let srv = srv\<lparr>last_timestamp := cur_timestamp\<rparr>;
       let cur = mu_bytes_served sink (net_rtpsink srv);
       let bytediff = cur - last_rtp_bytes_served srv;
       let srv = srv\<lparr>last_rtp_bytes_served := cur\<rparr>;
       rate \<leftarrow> kbytesps bytediff timediff;
       let srv = srv\<lparr>net_ctl := (net_ctl srv)\<lparr>rtp_tx_kbytesps := rate\<rparr>\<rparr>;
       let cur = mu_bytes_served sink (net_rtcpsink srv);
       let bytediff = cur - last_rtcp_bytes_served srv;
       let srv = srv\<lparr>last_rtcp_bytes_served := cur\<rparr>;
       rate \<leftarrow> kbytesps bytediff timediff;
       let srv = srv\<lparr>net_ctl := (net_ctl srv)\<lparr>rtcp_tx_kbytesps := rate\<rparr>\<rparr>;
       let clients = mu_clients sink (net_rtpsink srv);
       (i, rs) \<leftarrow> parse_receivers (strtok (CHR '','') [] clients) 0 (receivers (net_ctl srv));
       Some (srv\<lparr>net_ctl := (net_ctl srv)\<lparr>receivers := rs, num_receivers := i\<rparr>\<rparr>)
     }"

abbreviation (input) sizeof_rtp_server_control :: int where "sizeof_rtp_server_control \<equiv> 296"

definition rtp_server_remove_receiver ::
  "'k multiudpsink \<Rightarrow> 64 word \<Rightarrow> ipv4 \<Rightarrow> 'k rtp_net \<Rightarrow> os \<Rightarrow> (int \<times> 'k rtp_net \<times> os) option" where
  "rtp_server_remove_receiver sink now addr srv os =
     (case utils_shm_attach RTP_SRV_SHM_NAME sizeof_rtp_server_control os of
        (None, os) \<Rightarrow> Some (- 1, srv, os)
      | (Some shmem, os) \<Rightarrow>
          if \<not> ctl_rtpsrv (net_ctl srv) then Some (- 2, srv, os)
          else if net_state srv \<noteq> RTP_SERVER_ACTIVE then Some (- 3, srv, os)
          else
            let ipv4string = inet_ntoa addr;
                srv = srv\<lparr>net_rtpsink := mu_remove sink ipv4string (net_baseport srv) (net_rtpsink srv)\<rparr>;
                rtpsinkok = (\<not> strstr (mu_clients sink (net_rtpsink srv)) ipv4string);
                srv = srv\<lparr>net_rtcpsink := mu_remove sink ipv4string (net_baseport srv + 1) (net_rtcpsink srv)\<rparr>;
                rtcpsinkok = (\<not> strstr (mu_clients sink (net_rtcpsink srv)) ipv4string)
            in if \<not> rtpsinkok \<or> \<not> rtcpsinkok then Some (- 1, srv, utils_shm_destroy (Some shmem) False os)
               else map_option (\<lambda>srv. (0, srv, utils_shm_destroy (Some shmem) False os))
                      (rtp_server_update_stats sink now srv))"

definition rtp_server_add_receiver ::
  "'k multiudpsink \<Rightarrow> 64 word \<Rightarrow> ipv4 \<Rightarrow> 'k rtp_net \<Rightarrow> os \<Rightarrow> (int \<times> 'k rtp_net \<times> os) option" where
  "rtp_server_add_receiver sink now addr srv os =
     (case utils_shm_attach RTP_SRV_SHM_NAME sizeof_rtp_server_control os of
        (None, os) \<Rightarrow> Some (- 1, srv, os)
      | (Some shmem, os) \<Rightarrow>
          if \<not> ctl_rtpsrv (net_ctl srv) then Some (- 2, srv, os)
          else if net_state srv \<noteq> RTP_SERVER_ACTIVE then Some (- 3, srv, os)
          else
            let ipv4string = inet_ntoa addr;
                srv = (if \<not> strstr (mu_clients sink (net_rtpsink srv)) ipv4string
                       then srv\<lparr>net_rtpsink := mu_add sink ipv4string (net_baseport srv) (net_rtpsink srv)\<rparr>
                       else srv);
                rtpsinkok = strstr (mu_clients sink (net_rtpsink srv)) ipv4string;
                srv = (if \<not> strstr (mu_clients sink (net_rtcpsink srv)) ipv4string
                       then srv\<lparr>net_rtcpsink := mu_add sink ipv4string (net_baseport srv + 1) (net_rtcpsink srv)\<rparr>
                       else srv);
                rtcpsinkok = strstr (mu_clients sink (net_rtcpsink srv)) ipv4string
            in if \<not> rtpsinkok \<or> \<not> rtcpsinkok then
                 map_option (\<lambda>(r, srv, os). (- 1, srv, utils_shm_destroy (Some shmem) False os))
                   (rtp_server_remove_receiver sink now addr srv os)
               else map_option (\<lambda>srv. (0, srv, utils_shm_destroy (Some shmem) False os))
                      (rtp_server_update_stats sink now srv))"

subsection \<open>Addresses as text\<close>

lemma of_char_digit: "d < 10 \<Longrightarrow> (of_char (digit_char d) :: nat) = 48 + d"
  by (simp add: digit_char_def)

lemma digit_value_digit: "d < 10 \<Longrightarrow> digit_value (digit_char d) = Some d"
  by (simp add: digit_value_def of_char_digit)

lemma is_digit_digit: "d < 10 \<Longrightarrow> is_digit (digit_char d)"
  by (simp add: is_digit_def of_char_digit)

lemma show_nat_digits: "\<forall>c \<in> set (show_nat n). is_digit c"
proof (induction n rule: show_nat.induct)
  case (1 n)
  then show ?case by (subst show_nat.simps) (auto simp: is_digit_digit)
qed

lemma show_nat_not_Nil: "show_nat n \<noteq> []"
  by (subst show_nat.simps) simp

lemma show_nat_hd: "0 < n \<Longrightarrow> hd (show_nat n) \<noteq> CHR ''0''"
proof (induction n rule: show_nat.induct)
  case (1 n)
  show ?case
  proof (cases "n < 10")
    case True
    then have "(of_char (digit_char n) :: nat) \<noteq> of_char (CHR ''0'')" using 1 by (simp add: of_char_digit)
    then have "digit_char n \<noteq> CHR ''0''" by metis
    with True show ?thesis by (subst show_nat.simps) simp
  next
    case False
    then have "hd (show_nat (n div 10)) \<noteq> CHR ''0''" using 1 by simp
    with False show ?thesis by (subst show_nat.simps) (simp add: show_nat_not_Nil)
  qed
qed

lemma scan_digits_show:
  "scan_digits 10 acc (show_nat n @ rest) = scan_digits 10 (acc * 10 ^ length (show_nat n) + n) rest"
proof (induction n arbitrary: acc rest rule: show_nat.induct)
  case (1 n)
  show ?case
  proof (cases "n < 10")
    case True
    then show ?thesis by (subst (1 2) show_nat.simps) (simp add: digit_value_digit)
  next
    case False
    have "scan_digits 10 acc (show_nat n @ rest) =
        scan_digits 10 acc (show_nat (n div 10) @ (digit_char (n mod 10) # rest))"
      using False by (subst show_nat.simps) simp
    also have "\<dots> = scan_digits 10 (acc * 10 ^ length (show_nat (n div 10)) + n div 10) (digit_char (n mod 10) # rest)"
      using 1 False by simp
    also have "\<dots> = scan_digits 10 ((acc * 10 ^ length (show_nat (n div 10)) + n div 10) * 10 + n mod 10) rest"
      by (simp add: digit_value_digit)
    also have "(acc * 10 ^ length (show_nat (n div 10)) + n div 10) * 10 + n mod 10 =
        acc * 10 ^ length (show_nat n) + n"
      using False by (subst (2) show_nat.simps) (simp add: algebra_simps)
    finally show ?thesis .
  qed
qed

lemma scan_digits_stop: "rest = [] \<or> digit_value (hd rest) = None \<Longrightarrow> scan_digits b acc rest = (acc, rest)"
  by (cases rest) auto

lemma strtoul_dec: "cs \<noteq> [] \<Longrightarrow> hd cs \<noteq> CHR ''0'' \<Longrightarrow> strtoul cs = scan_digits 10 0 cs"
  by (cases cs rule: strtoul.cases) auto

lemma strtoul_show:
  assumes "rest = [] \<or> hd rest = CHR ''.''"
  shows "strtoul (show_nat n @ rest) = (n, rest)"
proof (cases "n = 0")
  case True
  have z: "show_nat 0 = ''0''" 
    using char_of_char [of "CHR ''0''", where 'a = nat] by (subst show_nat.simps) (simp add: digit_char_def)
  have d: "digit_value (CHR ''0'') = Some 0" "digit_value (CHR ''.'') = None" by (simp_all add: digit_value_def)
  from assms show ?thesis
    unfolding True z by (cases rest; cases "tl rest") (auto simp: d)
next
  case False
  have "strtoul (show_nat n @ rest) = scan_digits 10 0 (show_nat n @ rest)"
    using False show_nat_hd [of n] show_nat_not_Nil [of n] by (intro strtoul_dec) simp_all
  also have "\<dots> = scan_digits 10 n rest" by (simp add: scan_digits_show)
  also have "\<dots> = (n, rest)"
    using assms by (intro scan_digits_stop) (auto simp: digit_value_def)
  finally show ?thesis .
qed

lemma inet_aton_step:
  assumes "v < 256" "0 < n"
  shows "inet_aton_parts n parts (show_nat v @ CHR ''.'' # rest) = inet_aton_parts (n - 1) (parts @ [of_nat v]) rest"
proof -
  have "is_digit (hd (show_nat v))" using show_nat_digits [of v] show_nat_not_Nil [of v] by simp
  then show ?thesis
    using assms strtoul_show [of "CHR ''.'' # rest" v]
    by (subst inet_aton_parts.simps) (simp add: show_nat_not_Nil)
qed

lemma inet_aton_last: "inet_aton_parts n parts (show_nat v) = fill_bytes parts v"
proof -
  have "is_digit (hd (show_nat v))" using show_nat_digits [of v] show_nat_not_Nil [of v] by simp
  then show ?thesis
    using strtoul_show [of "[]" v] by (subst inet_aton_parts.simps) (simp add: show_nat_not_Nil)
qed

lemma unat8_less: "unat (w :: 8 word) < 256"
  using unsigned_less [of w, where 'a = nat] by simp

text \<open>\<^verbatim>\<open>inet_aton\<close> reads back what \<^verbatim>\<open>inet_ntoa\<close> writes.\<close>

lemma inet_aton_ntoa: "inet_aton (inet_ntoa addr) = Some addr"
proof (cases addr)
  case (fields a b c d)
  note step = inet_aton_step [OF unat8_less]
  let ?d = "show_nat (unat d)"
  let ?c = "show_nat (unat c) @ CHR ''.'' # ?d"
  let ?b = "show_nat (unat b) @ CHR ''.'' # ?c"
  have "inet_aton (inet_ntoa addr) = inet_aton_parts 3 [] (show_nat (unat a) @ CHR ''.'' # ?b)"
    by (simp only: fields inet_aton_def inet_ntoa.simps append_Cons append_Nil)
  also have "\<dots> = inet_aton_parts 2 [a] ?b" using step [of 3 "[]" a ?b] by simp
  also have "\<dots> = inet_aton_parts 1 [a, b] ?c" using step [of 2 "[a]" b ?c] by simp
  also have "\<dots> = inet_aton_parts 0 [a, b, c] ?d" using step [of 1 "[a, b]" c ?d] by simp
  also have "\<dots> = fill_bytes [a, b, c] (unat d)" by (rule inet_aton_last)
  also have "\<dots> = Some addr" using unat8_less [of d] by (simp add: fill_bytes_def fields)
  finally show ?thesis .
qed

lemma inet_ntoa_inject: "inet_ntoa a = inet_ntoa b \<longleftrightarrow> a = b"
  by (metis inet_aton_ntoa option.inject)

lemma digit_not: "is_digit c \<Longrightarrow> c \<notin> {CHR ''.'', CHR '','', CHR '':'', CHR ''-''}"
  by (auto simp: is_digit_def)

lemma show_nat_chars: "CHR '','' \<notin> set (show_nat n)" "CHR '':'' \<notin> set (show_nat n)" "CHR ''.'' \<notin> set (show_nat n)"
  using show_nat_digits [of n] digit_not by fastforce+

lemma inet_ntoa_chars:
  "CHR '','' \<notin> set (inet_ntoa a)" "CHR '':'' \<notin> set (inet_ntoa a)" "CHR ''.'' \<in> set (inet_ntoa a)"
  by (cases a; simp add: inet_ntoa.simps show_nat_chars)+

declare inet_ntoa.simps [simp del]

lemma show_int_chars: "CHR '','' \<notin> set (show_int p)" "CHR '':'' \<notin> set (show_int p)" "CHR ''.'' \<notin> set (show_int p)"
  by (simp_all add: show_int_def show_nat_chars)

subsection \<open>The list of clients as text\<close>

fun client_text :: "string \<times> int \<Rightarrow> string" where
  "client_text (host, port) = host @ '':'' @ show_int port"

fun join :: "string list \<Rightarrow> string" where
  "join [] = []"
| "join [t] = t"
| "join (t # u # ts) = t @ '','' @ join (u # ts)"

text \<open>
  The documented behaviour of \<^verbatim>\<open>multiudpsink\<close>: its clients are pairs of host and port, which the
  property \<^verbatim>\<open>clients\<close> prints; adding a client that is there does nothing. \<open>cl\<close> gives the clients of
  a state of the sink.
\<close>

definition multiudpsink_ok :: "'k multiudpsink \<Rightarrow> ('k \<Rightarrow> (string \<times> int) list) \<Rightarrow> bool" where
  "multiudpsink_ok sink cl \<longleftrightarrow>
     cl (mu_new sink) = [] \<and>
     (\<forall>k. mu_clients sink k = join (map client_text (cl k))) \<and>
     (\<forall>h p k. cl (mu_add sink h p k) = (if (h, p) \<in> set (cl k) then cl k else cl k @ [(h, p)])) \<and>
     (\<forall>h p k. cl (mu_remove sink h p k) = removeAll (h, p) (cl k))"

lemma multiudpsink_okD:
  assumes "multiudpsink_ok sink cl"
  shows "mu_clients sink k = join (map client_text (cl k))"
    "cl (mu_add sink h p k) = (if (h, p) \<in> set (cl k) then cl k else cl k @ [(h, p)])"
    "cl (mu_remove sink h p k) = removeAll (h, p) (cl k)"
  using assms unfolding multiudpsink_ok_def by blast+

lemma strtok_token: "delim \<notin> set t \<Longrightarrow> strtok delim tok (t @ rest) = strtok delim (tok @ t) rest"
  by (induction t arbitrary: tok) auto

lemma strtok_join:
  "(\<And>t. t \<in> set ts \<Longrightarrow> t \<noteq> [] \<and> CHR '','' \<notin> set t) \<Longrightarrow> strtok (CHR '','') [] (join ts) = ts"
proof (induction ts rule: join.induct)
  case (2 t)
  then have "CHR '','' \<notin> set t" "t \<noteq> []" by auto
  then show ?case using strtok_token [of "CHR '',''" t "[]" "[]"] by simp
next
  case (3 t u ts)
  then have "CHR '','' \<notin> set t" "t \<noteq> []" by auto
  then show ?case using 3 strtok_token [of "CHR '',''" t "[]" "'','' @ join (u # ts)"] by simp
qed simp

lemma take_eq_prefix: "take (length n) xs = n \<longleftrightarrow> prefix n xs"
  by (metis append_eq_conv_conj prefix_def take_is_prefix)

lemma strstr_sublist: "strstr hay needle = sublist needle hay"
  by (induction hay) (simp_all add: sublist_Cons_right take_eq_prefix [of needle "_ # _", simplified])

text \<open>A text without the separator occurs in one of the parts.\<close>

lemma prefix_sep: "c \<notin> set n \<Longrightarrow> prefix n (x @ c # y) = prefix n x"
proof -
  assume c: "c \<notin> set n"
  have "us = []" if "n = x @ us" "prefix us (c # y)" for us
    using that c by (cases us) auto
  then show ?thesis by (auto simp: prefix_append)
qed

lemma sublist_sep: "c \<notin> set n \<Longrightarrow> sublist n (x @ c # y) \<longleftrightarrow> sublist n x \<or> sublist n y"
proof (induction x)
  case Nil
  then show ?case using prefix_sep [of c n "[]" y] by (auto simp: sublist_Cons_right)
next
  case (Cons a x)
  then show ?case using prefix_sep [of c n "a # x" y] by (auto simp: sublist_Cons_right)
qed

lemma sublist_set: "sublist n x \<Longrightarrow> set n \<subseteq> set x"
  by (auto simp: sublist_def)

lemma strstr_client: "strstr (client_text (h, p)) (inet_ntoa a) \<longleftrightarrow> strstr h (inet_ntoa a)"
  using sublist_sep [of "CHR '':''" "inet_ntoa a" h "show_int p"] inet_ntoa_chars [of a] show_int_chars [of p]
    sublist_set [of "inet_ntoa a" "show_int p"]
  by (auto simp: strstr_sublist)

lemma strstr_join: "strstr (join (map client_text cs)) (inet_ntoa a) \<longleftrightarrow> (\<exists>c \<in> set cs. strstr (fst c) (inet_ntoa a))"
proof (induction cs rule: induct_list012)
  case 1
  then show ?case using inet_ntoa_chars [of a] by auto
next
  case (2 c)
  then show ?case by (cases c) (simp add: strstr_client del: client_text.simps)
next
  case (3 c d cs)
  have "strstr (join (map client_text (c # d # cs))) (inet_ntoa a) \<longleftrightarrow>
      strstr (client_text c) (inet_ntoa a) \<or> strstr (join (map client_text (d # cs))) (inet_ntoa a)"
    using sublist_sep [of "CHR '',''" "inet_ntoa a" "client_text c" "join (map client_text (d # cs))"]
      inet_ntoa_chars [of a] by (simp add: strstr_sublist)
  then show ?case using 3 by (cases c) (simp add: strstr_client del: client_text.simps)
qed

subsection \<open>The statistics\<close>

definition texts :: "int \<Rightarrow> ipv4 list \<Rightarrow> (string \<times> int) list" where
  "texts port as = map (\<lambda>a. (inet_ntoa a, port)) as"

lemma client_text_token:
  "CHR '':'' \<in> set (client_text (inet_ntoa a, p))"
  "takeWhile (\<lambda>c. c \<noteq> CHR '':'') (client_text (inet_ntoa a, p)) = inet_ntoa a"
  "client_text (inet_ntoa a, p) \<noteq> [] \<and> CHR '','' \<notin> set (client_text (inet_ntoa a, p))"
proof -
  have "takeWhile (\<lambda>c. c \<noteq> CHR '':'') (inet_ntoa a @ CHR '':'' # show_int p) = inet_ntoa a"
    using inet_ntoa_chars(2) [of a] by (subst takeWhile_append2) auto
  then show "takeWhile (\<lambda>c. c \<noteq> CHR '':'') (client_text (inet_ntoa a, p)) = inet_ntoa a" by simp
qed (simp_all add: inet_ntoa_chars show_int_chars)

lemma parse_receivers_texts:
  assumes "i \<le> 64" "length rs = 64"
  shows "parse_receivers (map client_text (texts p as)) i rs =
    Some (min 64 (i + length as), take i rs @ take (64 - i) as @ drop (min 64 (i + length as)) rs)"
  using assms
proof (induction as arbitrary: i rs)
  case (Cons a as)
  show ?case
  proof (cases "i < 64")
    case True
    have "parse_receivers (map client_text (texts p (a # as))) i rs =
        parse_receivers (map client_text (texts p as)) (i + 1) (rs[i := a])"
      using True client_text_token [of a p] by (simp add: texts_def inet_aton_ntoa del: client_text.simps)
    also have "\<dots> = Some (min 64 (i + 1 + length as),
        take (i + 1) (rs[i := a]) @ take (64 - (i + 1)) as @ drop (min 64 (i + 1 + length as)) (rs[i := a]))"
      using Cons.IH [of "i + 1" "rs[i := a]"] True Cons.prems by simp
    also have "take (i + 1) (rs[i := a]) = take i rs @ [a]"
      using True Cons.prems by (simp add: take_Suc_conv_app_nth)
    also have "drop (min 64 (i + 1 + length as)) (rs[i := a]) = drop (min 64 (i + 1 + length as)) rs"
      using True by simp
    finally show ?thesis using True by (simp add: take_Cons' Suc_diff_Suc)
  next
    case False
    with Cons.prems show ?thesis by (simp add: texts_def)
  qed
qed (simp add: texts_def)

text \<open>The server runs and both of its sinks send to the addresses \<open>as\<close>.\<close>

definition net_ok :: "('k \<Rightarrow> (string \<times> int) list) \<Rightarrow> ipv4 list \<Rightarrow> 'k rtp_net \<Rightarrow> bool" where
  "net_ok cl as srv \<longleftrightarrow>
     net_state srv = RTP_SERVER_ACTIVE \<and> ctl_rtpsrv (net_ctl srv) \<and> length (receivers (net_ctl srv)) = 64 \<and>
     cl (net_rtpsink srv) = texts (net_baseport srv) as \<and> cl (net_rtcpsink srv) = texts (net_baseport srv + 1) as"

text \<open>The published list is that of the addresses.\<close>

definition published :: "ipv4 list \<Rightarrow> 'k rtp_net \<Rightarrow> bool" where
  "published as srv \<longleftrightarrow>
     num_receivers (net_ctl srv) = min 64 (length as) \<and>
     take (num_receivers (net_ctl srv)) (receivers (net_ctl srv)) = take 64 as"

lemma update_stats_published:
  assumes sink: "multiudpsink_ok sink cl" and srv: "net_ok cl as srv"
    and time: "(now - last_timestamp srv) * 1024 \<noteq> 0"
  shows "\<exists>srv'. rtp_server_update_stats sink now srv = Some srv' \<and> net_ok cl as srv' \<and> published as srv' \<and>
    last_timestamp srv' = now \<and> net_baseport srv' = net_baseport srv"
proof -
  have "strtok (CHR '','') [] (mu_clients sink (net_rtpsink srv)) = map client_text (texts (net_baseport srv) as)"
    using srv multiudpsink_okD(1) [OF sink, of "net_rtpsink srv"] client_text_token(3)
    by (subst strtok_join [symmetric]) (auto simp: net_ok_def texts_def)
  then have "parse_receivers (strtok (CHR '','') [] (mu_clients sink (net_rtpsink srv))) 0 (receivers (net_ctl srv)) =
      Some (min 64 (length as), take 64 as @ drop (min 64 (length as)) (receivers (net_ctl srv)))"
    using srv parse_receivers_texts [of 0 "receivers (net_ctl srv)"] by (simp add: net_ok_def)
  moreover have "min (length as) 64 + 64 - min 64 (length as) = 64" "take (min 64 (length as)) as = take 64 as"
    by (simp_all add: min_def)
  ultimately show ?thesis
    using time srv by (simp add: rtp_server_update_stats_def kbytesps_def Let_def net_ok_def published_def)
qed

text \<open>Another client's address contains the text of \<open>a\<close>, or is \<open>a\<close>.\<close>

definition overlaps :: "ipv4 \<Rightarrow> ipv4 list \<Rightarrow> bool" where
  "overlaps a as \<longleftrightarrow> (\<exists>b \<in> set as. strstr (inet_ntoa b) (inet_ntoa a))"

lemma strstr_self: "strstr xs xs"
  by (simp add: strstr_sublist)

lemma strstr_clients:
  assumes "multiudpsink_ok sink cl" "cl k = texts p as"
  shows "strstr (mu_clients sink k) (inet_ntoa a) = overlaps a as"
  using multiudpsink_okD(1) [OF assms(1), of k] assms(2)
  by (simp only: strstr_join) (auto simp: overlaps_def texts_def)

lemma removeAll_texts: "removeAll (inet_ntoa a, p) (texts p as) = texts p (removeAll a as)"
  by (induction as) (auto simp: texts_def inet_ntoa_inject)

lemma add_receiver_sink:
  assumes "multiudpsink_ok sink cl" "cl k = texts p as" "\<not> overlaps a as"
  shows "cl (mu_add sink (inet_ntoa a) p k) = texts p (as @ [a])"
proof -
  have "a \<notin> set as" using assms(3) strstr_self by (auto simp: overlaps_def)
  then have "(inet_ntoa a, p) \<notin> set (cl k)" using assms(2) by (auto simp: texts_def inet_ntoa_inject)
  then show ?thesis using multiudpsink_okD(2) [OF assms(1)] assms(2) by (simp add: texts_def)
qed

lemma overlaps_self: "overlaps a (as @ [a])"
  using strstr_self by (auto simp: overlaps_def)

lemma add_receiver_run:
  assumes sink: "multiudpsink_ok sink cl" and srv: "net_ok cl as srv"
    and shm: "utils_shm_attach RTP_SRV_SHM_NAME sizeof_rtp_server_control os = (Some m, os1)"
    and time: "(now - last_timestamp srv) * 1024 \<noteq> 0"
  shows "\<exists>srv'. rtp_server_add_receiver sink now a srv os = Some (0, srv', utils_shm_destroy (Some m) False os1) \<and>
    net_ok cl (if overlaps a as then as else as @ [a]) srv' \<and>
    published (if overlaps a as then as else as @ [a]) srv' \<and> last_timestamp srv' = now"
proof -
  have c: "cl (net_rtpsink srv) = texts (net_baseport srv) as" "cl (net_rtcpsink srv) = texts (net_baseport srv + 1) as"
    "net_state srv = RTP_SERVER_ACTIVE" "ctl_rtpsrv (net_ctl srv)"
    using srv by (simp_all add: net_ok_def)
  note s = strstr_clients [OF sink c(1)] strstr_clients [OF sink c(2)]
  show ?thesis
  proof (cases "overlaps a as")
    case True
    then show ?thesis
      using update_stats_published [OF sink srv time] shm c s by (auto simp: rtp_server_add_receiver_def Let_def)
  next
    case False
    let ?srv = "srv\<lparr>net_rtpsink := mu_add sink (inet_ntoa a) (net_baseport srv) (net_rtpsink srv),
      net_rtcpsink := mu_add sink (inet_ntoa a) (net_baseport srv + 1) (net_rtcpsink srv)\<rparr>"
    have c': "cl (net_rtpsink ?srv) = texts (net_baseport srv) (as @ [a])"
      "cl (net_rtcpsink ?srv) = texts (net_baseport srv + 1) (as @ [a])"
      using add_receiver_sink [OF sink _ False] c by simp_all
    have "net_ok cl (as @ [a]) ?srv" using srv c' by (simp add: net_ok_def)
    moreover have "(now - last_timestamp ?srv) * 1024 \<noteq> 0" using time by simp
    ultimately obtain srv' where "rtp_server_update_stats sink now ?srv = Some srv'" "net_ok cl (as @ [a]) srv'"
      "published (as @ [a]) srv'" "last_timestamp srv' = now"
      using update_stats_published [OF sink] by blast
    then show ?thesis
      using False shm c s strstr_clients [OF sink c'(1), of a] strstr_clients [OF sink c'(2), of a] overlaps_self
      by (simp add: rtp_server_add_receiver_def Let_def)
  qed
qed

lemma remove_receiver_run:
  assumes sink: "multiudpsink_ok sink cl" and srv: "net_ok cl as srv"
    and shm: "utils_shm_attach RTP_SRV_SHM_NAME sizeof_rtp_server_control os = (Some m, os1)"
    and time: "(now - last_timestamp srv) * 1024 \<noteq> 0"
  shows "\<exists>srv'. rtp_server_remove_receiver sink now a srv os =
      Some (if overlaps a (removeAll a as) then - 1 else 0, srv', utils_shm_destroy (Some m) False os1) \<and>
    net_ok cl (removeAll a as) srv' \<and> (overlaps a (removeAll a as) \<or> published (removeAll a as) srv')"
proof -
  have c: "cl (net_rtpsink srv) = texts (net_baseport srv) as" "cl (net_rtcpsink srv) = texts (net_baseport srv + 1) as"
    "net_state srv = RTP_SERVER_ACTIVE" "ctl_rtpsrv (net_ctl srv)"
    using srv by (simp_all add: net_ok_def)
  let ?srv = "srv\<lparr>net_rtpsink := mu_remove sink (inet_ntoa a) (net_baseport srv) (net_rtpsink srv),
    net_rtcpsink := mu_remove sink (inet_ntoa a) (net_baseport srv + 1) (net_rtcpsink srv)\<rparr>"
  have c': "cl (net_rtpsink ?srv) = texts (net_baseport srv) (removeAll a as)"
    "cl (net_rtcpsink ?srv) = texts (net_baseport srv + 1) (removeAll a as)"
    using c by (simp_all add: multiudpsink_okD(3) [OF sink] removeAll_texts)
  note s = strstr_clients [OF sink c'(1), of a] strstr_clients [OF sink c'(2), of a]
  have ok: "net_ok cl (removeAll a as) ?srv" using srv c' by (simp add: net_ok_def)
  moreover have "(now - last_timestamp ?srv) * 1024 \<noteq> 0" using time by simp
  ultimately obtain srv' where "rtp_server_update_stats sink now ?srv = Some srv'" "net_ok cl (removeAll a as) srv'"
    "published (removeAll a as) srv'"
    using update_stats_published [OF sink] by blast
  with ok shm c s show ?thesis
    by (cases "overlaps a (removeAll a as)") (simp_all add: rtp_server_remove_receiver_def Let_def)
qed


text \<open>A sink that keeps the list of its clients.\<close>

definition list_sink :: "(string \<times> int) list multiudpsink" where
  "list_sink = \<lparr>mu_new = [], mu_add = (\<lambda>h p k. if (h, p) \<in> set k then k else k @ [(h, p)]),
     mu_remove = (\<lambda>h p k. removeAll (h, p) k), mu_clients = (\<lambda>k. join (map client_text k)),
     mu_bytes_served = (\<lambda>_. 0)\<rparr>"

lemma list_sink_ok: "multiudpsink_ok list_sink (\<lambda>k. k)"
  by (simp add: multiudpsink_ok_def list_sink_def)

definition net_example :: "(string \<times> int) list rtp_net" where
  "net_example = \<lparr>net_state = RTP_SERVER_ACTIVE, net_rtpsink = texts 5000 [(10, 0, 0, 10)],
     net_rtcpsink = texts 5001 [(10, 0, 0, 10)], net_baseport = 5000,
     net_ctl = \<lparr>ctl_pid = 1, ctl_rtpsrv = True, rtp_tx_kbytesps = 0, rtcp_tx_kbytesps = 0, num_receivers = 0,
       receivers = replicate 64 (0, 0, 0, 0)\<rparr>,
     last_timestamp = 0, last_rtp_bytes_served = 0, last_rtcp_bytes_served = 0\<rparr>"

lemma net_example_ok: "net_ok (\<lambda>k. k) [(10, 0, 0, 10)] net_example"
  by (simp add: net_ok_def net_example_def)

lemma attach_example:
  "\<exists>m os1 m2 os2. utils_shm_attach RTP_SRV_SHM_NAME 296 ((os_start (\<lambda>_. False))\<lparr>os_shm := [RTP_SRV_SHM_NAME]\<rparr>) = (Some m, os1) \<and>
     utils_shm_attach RTP_SRV_SHM_NAME 296 (utils_shm_destroy (Some m) False os1) = (Some m2, os2)"
  by (simp add: shm_defs os_start_def)

lemma text_example:
  "overlaps (10, 0, 0, 1) [(10, 0, 0, 10)]" "\<not> overlaps (10, 0, 0, 2) [(10, 0, 0, 10)]"
  by (simp_all add: overlaps_def inet_ntoa.simps show_nat.simps digit_char_def)


end
