(* ===== verification/Rtp_Server.thy ===== *)
theory Rtp_Server
  imports Rtp_Receivers Filters "HOL-Library.Signed_Division"
begin

text \<open>
  The RTP server (\<^verbatim>\<open>rtp_server.c\<close>): the GStreamer pipeline it builds, its start and its
  destruction with every failure, the buffers it sends and its callbacks. GStreamer's calls that
  can fail succeed or fail as the system says; an element is its factory, its name and the
  properties that were set. References to elements and pads are not counted: the elements belong
  to the pipeline.
\<close>

subsection \<open>State\<close>

datatype gvalue = GInt int | GStr string

record gst_element =
  el_factory :: string
  el_name :: string
  el_props :: "(string \<times> gvalue) list"

text \<open>
  \<open>rtp_bin\<close> and \<open>rtp_links\<close> are the contents of the pipeline: the names of its elements and the pairs
  of linked pads (an element alone stands for its only pad); \<open>rtp_others\<close> are the elements that only
  the pipeline knows. \<open>gst_up\<close> is \<^verbatim>\<open>gst_is_initialized()\<close>.
\<close>

record rtp_server =
  rtp_state :: rtp_server_state
  rtp_pool :: "nat option"
  rtp_appsrc :: "gst_element option"
  rtp_pipeline :: "nat option"
  rtp_flac_encoder :: "gst_element option"
  rtp_rtpbin :: "gst_element option"
  rtp_rtpsink :: "gst_element option"
  rtp_rtcpsink :: "gst_element option"
  rtp_msgbus :: "nat option"
  rtp_loop :: "nat option"
  rtp_init_res :: int
  rtp_buf_len :: "32 word"
  rtp_mpx_samplerate :: int
  rtp_baseport :: int
  rtp_ctl_map :: "shm_mapping option"
  rtp_bin :: "string list"
  rtp_links :: "(string \<times> string) list"
  rtp_others :: "gst_element list"
  gst_up :: bool

definition rtp_zero :: rtp_server where
  "rtp_zero = \<lparr>rtp_state = RTP_SERVER_INACTIVE, rtp_pool = None, rtp_appsrc = None, rtp_pipeline = None,
     rtp_flac_encoder = None, rtp_rtpbin = None, rtp_rtpsink = None, rtp_rtcpsink = None, rtp_msgbus = None,
     rtp_loop = None, rtp_init_res = 0, rtp_buf_len = 0, rtp_mpx_samplerate = 0, rtp_baseport = 0,
     rtp_ctl_map = None, rtp_bin = [], rtp_links = [], rtp_others = [], gst_up = False\<rparr>"

definition set_props :: "(string \<times> gvalue) list \<Rightarrow> gst_element \<Rightarrow> gst_element" where
  "set_props ps el = el\<lparr>el_props := rev ps @ el_props el\<rparr>"

definition get_prop :: "string \<Rightarrow> gst_element option \<Rightarrow> gvalue option" where
  "get_prop name el = (case el of None \<Rightarrow> None | Some el \<Rightarrow> map_of (el_props el) name)"

text \<open>\<^verbatim>\<open>gst_element_factory_make\<close>, the link functions, and a constructor that does not fail.\<close>

definition gst_make :: "string \<Rightarrow> string \<Rightarrow> os \<Rightarrow> gst_element option \<times> os" where
  "gst_make factory name os =
     (case attempt os of (ok, os) \<Rightarrow>
        (if ok then Some \<lparr>el_factory = factory, el_name = name, el_props = []\<rparr> else None, os))"

definition gst_link :: "string \<Rightarrow> string \<Rightarrow> rtp_server \<Rightarrow> os \<Rightarrow> (bool \<times> rtp_server) \<times> os" where
  "gst_link src snk srv os =
     (case attempt os of (ok, os) \<Rightarrow>
        ((ok, if ok then srv\<lparr>rtp_links := rtp_links srv @ [(src, snk)]\<rparr> else srv), os))"

definition gst_new :: "res_kind \<Rightarrow> os \<Rightarrow> nat \<times> os" where
  "gst_new k os = (os_next os, os\<lparr>os_next := Suc (os_next os), os_live := add_mset (k, os_next os) (os_live os)\<rparr>)"

subsection \<open>Callbacks and the sending of buffers\<close>

definition rtp_server_queue_ready :: "rtp_server \<Rightarrow> rtp_server" where
  "rtp_server_queue_ready srv = srv\<lparr>rtp_state := RTP_SERVER_ACTIVE\<rparr>"

definition rtp_server_queue_full :: "rtp_server \<Rightarrow> rtp_server" where
  "rtp_server_queue_full srv = srv\<lparr>rtp_state := RTP_SERVER_QUEUE_FULL\<rparr>"

text \<open>The caps of payload type 96 are those of the source, which the server has set.\<close>

definition rtp_server_request_pt_map_cb :: "rtp_server \<Rightarrow> 32 word \<Rightarrow> (string \<times> gvalue) list option" where
  "rtp_server_request_pt_map_cb srv pt =
     (if pt = 96 then map_option el_props (rtp_appsrc srv) else None)"

text \<open>The bin for retransmissions: its element with the map of payload types, and its ghost pads.\<close>

definition rtp_server_request_aux_sender_cb :: "32 word \<Rightarrow> gst_element \<times> string list" where
  "rtp_server_request_aux_sender_cb sessid =
     (set_props [(''payload-type-map.96'', GInt 97)] \<lparr>el_factory = ''rtprtxsend'', el_name = [], el_props = []\<rparr>,
      [''src_'' @ show_nat (unat sessid), ''sink_'' @ show_nat (unat sessid)])"

text \<open>
  \<^verbatim>\<open>rtp_server_send_buffer\<close>: \<open>acquired\<close> is the size of the buffer the pool hands out, or \<open>None\<close> when
  it has none; the result is the queue of \<^verbatim>\<open>appsrc\<close>.
\<close>

definition rtp_server_send_buffer ::
  "rtp_server option \<Rightarrow> real list option \<Rightarrow> int \<Rightarrow> nat option \<Rightarrow> real list list \<Rightarrow> real list list option" where
  "rtp_server_send_buffer srv buff num_samples acquired queue =
     (case (srv, buff) of
        (Some srv, Some buff) \<Rightarrow>
          if num_samples = 0 \<or> rtp_state srv \<noteq> RTP_SERVER_ACTIVE then Some queue
          else
            (case acquired of
               None \<Rightarrow> Some queue
             | Some sz \<Rightarrow>
                 if int sz < (num_samples * 4) mod 2 ^ 64 then Some queue
                 else do { samples \<leftarrow> mem_read 0 (nat num_samples) buff; Some (queue @ [samples]) })
      | _ \<Rightarrow> Some queue)"

subsection \<open>Destruction\<close>

definition rtp_handles :: "rtp_server \<Rightarrow> (res_kind \<times> nat option) list" where
  "rtp_handles srv = [(Gst_Object, rtp_pipeline srv), (Gst_Object, rtp_msgbus srv), (Gst_Object, rtp_pool srv)]"

text \<open>From the label \<^verbatim>\<open>not_running\<close> on.\<close>

definition rtp_server_release :: "bool \<Rightarrow> rtp_server \<Rightarrow> os \<Rightarrow> rtp_server \<times> os" where
  "rtp_server_release error srv os =
     (let srv = srv\<lparr>rtp_state := RTP_SERVER_TERMINATED\<rparr>;
          os = release_all (rtp_handles srv) os;
          os = utils_shm_destroy (rtp_ctl_map srv) True os;
          srv = srv\<lparr>rtp_ctl_map := None, gst_up := False\<rparr>
      in (srv, if error then raise_sigterm os else os))"

text \<open>
  The end-of-stream message does not change the state. The main loop's thread runs the same function
  when the loop has ended.
\<close>

definition rtp_server_destroy :: "rtp_server \<Rightarrow> os \<Rightarrow> rtp_server \<times> os" where
  "rtp_server_destroy srv os =
     (if \<not> gst_up srv then (srv, os)
      else
        case rtp_state srv of
          RTP_SERVER_TERMINATED \<Rightarrow> (srv, os)
        | RTP_SERVER_FAILED \<Rightarrow> rtp_server_release True srv (release_opt Main_Loop (rtp_loop srv) os)
        | RTP_SERVER_INACTIVE \<Rightarrow> rtp_server_release True srv os
        | _ \<Rightarrow> rtp_server_release False srv (release_opt Main_Loop (rtp_loop srv) os))"

definition rtp_server_main_loop :: "rtp_server \<Rightarrow> os \<Rightarrow> rtp_server \<times> os" where
  "rtp_server_main_loop srv os = rtp_server_destroy srv os"

definition rtp_server_error_cb :: "rtp_server \<Rightarrow> os \<Rightarrow> rtp_server \<times> os" where
  "rtp_server_error_cb srv os = rtp_server_destroy (srv\<lparr>rtp_state := RTP_SERVER_FAILED\<rparr>) os"

subsection \<open>The pipeline\<close>

definition rtp_get_flac_blocksize :: "int \<Rightarrow> int" where
  "rtp_get_flac_blocksize samplerate =
     (let target = (samplerate * 105) sdiv 1000 in
      fold (\<lambda>i block_size. let tmp = 256 * 2 ^ i in if tmp \<le> target then tmp else block_size) [0 ..< 16] 0)"

text \<open>
  A path is built step by step; a step that fails returns its code. \<open>gst_make_into\<close> makes an element
  and stores it with \<open>upd\<close>, \<open>gst_link_or\<close> links two pads.
\<close>

type_synonym path = "rtp_server \<Rightarrow> os \<Rightarrow> (int \<times> rtp_server) \<times> os"

definition gst_make_into ::
  "(gst_element option \<Rightarrow> rtp_server \<Rightarrow> rtp_server) \<Rightarrow> int \<Rightarrow> string \<Rightarrow> string \<Rightarrow> path \<Rightarrow> path" where
  "gst_make_into upd ret factory name rest srv os =
     (case gst_make factory name os of (el, os) \<Rightarrow>
        let srv = upd el srv in if el = None then ((ret, srv), os) else rest srv os)"

definition gst_link_or :: "int \<Rightarrow> string \<Rightarrow> string \<Rightarrow> path \<Rightarrow> path" where
  "gst_link_or ret src snk rest srv os =
     (case gst_link src snk srv os of ((ok, srv), os) \<Rightarrow> if \<not> ok then ((ret, srv), os) else rest srv os)"

definition path_done :: path where "path_done srv os = ((0, srv), os)"

definition path_seq :: "path \<Rightarrow> path \<Rightarrow> path" where
  "path_seq P Q srv os = (case P srv os of ((ret, srv), os) \<Rightarrow> if ret < 0 then ((ret, srv), os) else Q srv os)"

text \<open>An element in a local variable of the function.\<close>

definition add_other :: "(rtp_server \<Rightarrow> (string \<times> gvalue) list) \<Rightarrow> gst_element option \<Rightarrow> rtp_server \<Rightarrow> rtp_server" where
  "add_other ps el srv =
     (case el of None \<Rightarrow> srv | Some el \<Rightarrow> srv\<lparr>rtp_others := rtp_others srv @ [set_props (ps srv) el]\<rparr>)"

definition add_bin :: "string list \<Rightarrow> rtp_server \<Rightarrow> rtp_server" where
  "add_bin names srv = srv\<lparr>rtp_bin := rtp_bin srv @ names\<rparr>"

definition rtp_init_audiosrc :: path where
  "rtp_init_audiosrc =
     gst_make_into (\<lambda>el srv. srv\<lparr>rtp_appsrc := el\<rparr>) (- 1) ''appsrc'' ''audio_source''
       (\<lambda>srv. path_done (srv\<lparr>rtp_appsrc := map_option (set_props
             [(''caps'', GStr ''audio/x-raw''), (''rate'', GInt (rtp_mpx_samplerate srv)), (''channels'', GInt 1),
              (''caps-format'', GStr ''F32LE''), (''layout'', GStr ''interleaved''), (''channel-mask'', GInt 1),
              (''blocksize'', GInt (uint (rtp_buf_len srv))), (''stream-type'', GStr ''stream''),
              (''is-live'', GInt 1), (''do-timestamp'', GInt 1), (''size'', GInt (- 1)), (''format'', GStr ''time'')])
             (rtp_appsrc srv)\<rparr>))"

definition rtp_init_audio_path :: path where
  "rtp_init_audio_path =
     path_seq rtp_init_audiosrc
       (gst_make_into (add_other (\<lambda>_. [])) (- 2) ''audioconvert'' ''audio_converter''
         (gst_make_into (\<lambda>el srv. srv\<lparr>rtp_flac_encoder := el\<rparr>) (- 3) ''flacenc'' ''flac_encoder''
           (\<lambda>srv. gst_link_or (- 4) ''audio_source'' ''audio_converter''
             (gst_link_or (- 5) ''audio_converter'' ''flac_encoder'' path_done)
             (add_bin [''audio_source'', ''audio_converter'', ''flac_encoder'']
               (srv\<lparr>rtp_flac_encoder := map_option
                  (set_props [(''blocksize'', GInt (rtp_get_flac_blocksize (rtp_mpx_samplerate srv)))])
                  (rtp_flac_encoder srv)\<rparr>)))))"

text \<open>The part of \<^verbatim>\<open>rtp_init_network_path\<close> for RTCP.\<close>

definition rtp_init_rtcp :: path where
  "rtp_init_rtcp =
     gst_make_into (add_other (\<lambda>srv. [(''port'', GInt (rtp_baseport srv + 2))])) (- 7) ''udpsrc'' ''rtcpsrc''
       (\<lambda>srv. gst_link_or (- 8) ''rtcpsrc'' ''rtpbin.recv_rtcp_sink_0''
         (gst_make_into (\<lambda>el srv. srv\<lparr>rtp_rtcpsink := el\<rparr>) (- 9) ''multiudpsink'' ''rtcpsink''
           (\<lambda>srv.
              let srv = srv\<lparr>rtp_rtcpsink := map_option (set_props [(''async'', GInt 0), (''sync'', GInt 0)]) (rtp_rtcpsink srv)\<rparr>;
                  srv = srv\<lparr>rtp_rtpsink := map_option (set_props [(''bind-port'', GInt (rtp_baseport srv + 1))]) (rtp_rtpsink srv)\<rparr>
              in gst_link_or (- 10) ''rtpbin.send_rtcp_src_0'' ''rtcpsink'' path_done (add_bin [''rtcpsink''] srv)))
         (add_bin [''rtcpsrc''] srv))"

definition rtp_init_network_path :: path where
  "rtp_init_network_path =
     gst_make_into (add_other (\<lambda>_. [(''config-interval'', GInt 3)])) (- 1) ''rtpgstpay'' ''rtp_payloader''
       (\<lambda>srv. gst_link_or (- 2) ''flac_encoder'' ''rtp_payloader''
         (gst_make_into (\<lambda>el srv. srv\<lparr>rtp_rtpbin := el\<rparr>) (- 3) ''rtpbin'' ''rtpbin''
           (\<lambda>srv. gst_link_or (- 4) ''rtp_payloader'' ''rtpbin.send_rtp_sink_0''
             (gst_make_into (\<lambda>el srv. srv\<lparr>rtp_rtpsink := el\<rparr>) (- 5) ''multiudpsink'' ''rtpsink''
               (\<lambda>srv. gst_link_or (- 6) ''rtpbin.send_rtp_src_0'' ''rtpsink'' rtp_init_rtcp
                 (add_bin [''rtpsink'']
                   (srv\<lparr>rtp_rtpsink := map_option (set_props [(''bind-port'', GInt (rtp_baseport srv))]) (rtp_rtpsink srv)\<rparr>))))
             (add_bin [''rtpbin'']
               (srv\<lparr>rtp_rtpbin := map_option (set_props [(''rtp-profile'', GStr ''avpf'')]) (rtp_rtpbin srv)\<rparr>))))
         (add_bin [''rtp_payloader''] srv))"

subsection \<open>Initialisation\<close>

definition rtp_init_fail :: "int \<Rightarrow> rtp_server \<Rightarrow> os \<Rightarrow> ((int \<times> rtp_server) \<times> os) option" where
  "rtp_init_fail ret srv os =
     (case rtp_server_destroy (srv\<lparr>rtp_init_res := ret\<rparr>) os of (srv, os) \<Rightarrow> Some ((ret, srv), os))"

text \<open>
  From the buffer pool on. Configuring and activating the pool are one request: the second is not
  made when the first fails, and both lead to the same code.
\<close>

definition rtp_server_init_run :: "rtp_server \<Rightarrow> os \<Rightarrow> ((int \<times> rtp_server) \<times> os) option" where
  "rtp_server_init_run srv os =
     (case gst_new Gst_Object os of (pool, os) \<Rightarrow>
        let srv = srv\<lparr>rtp_pool := Some pool\<rparr> in
        case attempt os of (ok, os) \<Rightarrow>
          if \<not> ok then rtp_init_fail (- 5) srv os
          else case attempt os of (ok, os) \<Rightarrow>
            if \<not> ok then rtp_init_fail (- 6) srv os
            else
              let srv = srv\<lparr>rtp_state := RTP_SERVER_ACTIVE\<rparr> in
              case gst_new Main_Loop os of (loop, os) \<Rightarrow>
                let srv = srv\<lparr>rtp_loop := Some loop\<rparr> in
                case attempt os of (ok, os) \<Rightarrow>
                  if \<not> ok then rtp_init_fail (- 7) srv os else Some ((0, srv), os))"

text \<open>The thread that runs the main loop ends by itself; nobody joins it and it is not counted.\<close>

definition rtp_server_init :: "rtp_server \<Rightarrow> 32 word \<Rightarrow> int \<Rightarrow> int \<Rightarrow> os \<Rightarrow> ((int \<times> rtp_server) \<times> os) option" where
  "rtp_server_init srv buf_len mpx_samplerate baseport os =
     (let srv = srv\<lparr>rtp_mpx_samplerate := mpx_samplerate, rtp_baseport := baseport, rtp_buf_len := buf_len,
                    rtp_state := RTP_SERVER_INACTIVE\<rparr>
      in case utils_shm_init RTP_SRV_SHM_NAME sizeof_rtp_server_control os of
           (None, os) \<Rightarrow> rtp_init_fail (- 1) (srv\<lparr>rtp_ctl_map := None\<rparr>) os
         | (Some m, os) \<Rightarrow>
             let srv = srv\<lparr>rtp_ctl_map := Some m\<rparr> in
             if shm_mem m = Mem_Null then None
             else
               let srv = srv\<lparr>gst_up := True\<rparr> in
               case acquire Gst_Object os of (h, os) \<Rightarrow>
                 let srv = srv\<lparr>rtp_pipeline := h\<rparr> in
                 if h = None then rtp_init_fail (- 2) srv os
                 else case gst_new Gst_Object os of (bus, os) \<Rightarrow>
                   let srv = srv\<lparr>rtp_msgbus := Some bus\<rparr> in
                   case rtp_init_audio_path srv os of ((ret, srv), os) \<Rightarrow>
                     if ret < 0 then rtp_init_fail (- 3) srv os
                     else case rtp_init_network_path srv os of ((ret, srv), os) \<Rightarrow>
                       if ret < 0 then rtp_init_fail (- 4) srv os else rtp_server_init_run srv os)"

subsection \<open>Resources\<close>

definition rtp_objects :: "rtp_server \<Rightarrow> resource multiset" where
  "rtp_objects srv = held_all (rtp_handles srv)"

definition rtp_held :: "rtp_server \<Rightarrow> resource multiset" where
  "rtp_held srv =
     (if \<not> gst_up srv \<or> rtp_state srv = RTP_SERVER_TERMINATED then {#}
      else rtp_objects srv + map_held (rtp_ctl_map srv) +
        (if rtp_state srv = RTP_SERVER_INACTIVE then {#} else held_opt Main_Loop (rtp_loop srv)))"

lemma raise_sigterm_keeps [simp]: "os_live (raise_sigterm os) = os_live os" "os_fault (raise_sigterm os) = os_fault os"
  by (simp_all add: raise_sigterm_def)

lemma rtp_release_held:
  assumes "rtp_objects srv + map_held (rtp_ctl_map srv) \<subseteq># os_live os"
  shows "os_live (snd (rtp_server_release e srv os)) = os_live os - (rtp_objects srv + map_held (rtp_ctl_map srv)) \<and>
    os_fault (snd (rtp_server_release e srv os)) = os_fault os"
proof -
  have h: "rtp_handles (srv\<lparr>rtp_state := RTP_SERVER_TERMINATED\<rparr>) = rtp_handles srv" by (simp add: rtp_handles_def)
  have sub: "held_all (rtp_handles srv) \<subseteq># os_live os" "map_held (rtp_ctl_map srv) \<subseteq># os_live os - held_all (rtp_handles srv)"
    using subset_add_left [OF assms] by (simp_all only: rtp_objects_def)
  note 1 = release_all_held [OF sub(1)]
  have "map_held (rtp_ctl_map srv) \<subseteq># os_live (release_all (rtp_handles srv) os)" unfolding 1 using sub(2) by simp
  from utils_shm_destroy_map [OF this, of True] show ?thesis
    unfolding rtp_server_release_def Let_def rtp_objects_def h by (simp add: 1)
qed

lemma rtp_destroy_held:
  assumes "rtp_held srv \<subseteq># os_live os"
  shows "os_live (snd (rtp_server_destroy srv os)) = os_live os - rtp_held srv \<and>
    os_fault (snd (rtp_server_destroy srv os)) = os_fault os"
proof (cases "\<not> gst_up srv \<or> rtp_state srv = RTP_SERVER_TERMINATED")
  case True
  then show ?thesis by (auto simp: rtp_server_destroy_def rtp_held_def)
next
  case up: False
  let ?o = "rtp_objects srv + map_held (rtp_ctl_map srv)"
  show ?thesis
  proof (cases "rtp_state srv = RTP_SERVER_INACTIVE")
    case True
    then show ?thesis
      using up assms rtp_release_held [of srv os True] by (simp add: rtp_server_destroy_def rtp_held_def)
  next
    case False
    let ?l = "held_opt Main_Loop (rtp_loop srv)"
    have held: "rtp_held srv = ?l + ?o" using up False by (simp add: rtp_held_def)
    have sub: "?l \<subseteq># os_live os" "?o \<subseteq># os_live os - ?l" using subset_add_left [OF assms [unfolded held]] by simp_all
    have 1: "release_opt Main_Loop (rtp_loop srv) os = os\<lparr>os_live := os_live os - ?l\<rparr>" by (rule release_opt_held [OF sub(1)])
    have "os_live (snd (rtp_server_release e srv (release_opt Main_Loop (rtp_loop srv) os))) = os_live os - rtp_held srv \<and>
        os_fault (snd (rtp_server_release e srv (release_opt Main_Loop (rtp_loop srv) os))) = os_fault os" for e
      using rtp_release_held [of srv "os\<lparr>os_live := os_live os - ?l\<rparr>" e] sub(2) unfolding 1 held by simp
    then show ?thesis
      using up False by (cases "rtp_state srv") (simp_all add: rtp_server_destroy_def)
  qed
qed

lemma rtp_init_fail_held:
  assumes "rtp_init_fail ret srv os = Some ((r, c), os')" "os_live os = L + rtp_held srv"
  shows "r = ret \<and> os_live os' = L \<and> os_fault os' = os_fault os"
proof -
  have "rtp_held (srv\<lparr>rtp_init_res := ret\<rparr>) = rtp_held srv" by (simp add: rtp_held_def rtp_objects_def rtp_handles_def)
  then show ?thesis
    using rtp_destroy_held [of "srv\<lparr>rtp_init_res := ret\<rparr>" os] assms
    by (auto simp: rtp_init_fail_def split: prod.splits)
qed

text \<open>Building the paths touches neither the resources nor the fields that own them.\<close>

definition rtp_core :: "rtp_server \<Rightarrow> (rtp_server_state \<times> bool) \<times> (nat option \<times> nat option \<times> nat option \<times> nat option) \<times> shm_mapping option" where
  "rtp_core srv = ((rtp_state srv, gst_up srv), (rtp_pipeline srv, rtp_msgbus srv, rtp_pool srv, rtp_loop srv), rtp_ctl_map srv)"

lemma rtp_core_held: "rtp_core srv = rtp_core srv' \<Longrightarrow> rtp_held srv = rtp_held srv'"
  by (simp add: rtp_core_def rtp_held_def rtp_objects_def rtp_handles_def)

definition os_same :: "os \<Rightarrow> os \<Rightarrow> bool" where
  "os_same os os' \<longleftrightarrow> os_live os' = os_live os \<and> os_fault os' = os_fault os"

lemma os_same_trans: "os_same a b \<Longrightarrow> os_same b c \<Longrightarrow> os_same a c"
  by (simp add: os_same_def)

lemma attempt_same: "attempt os = (ok, os') \<Longrightarrow> os_same os os'"
  by (auto simp: attempt_def os_same_def)

definition path_same :: "path \<Rightarrow> bool" where
  "path_same P \<longleftrightarrow> (\<forall>srv os r srv' os'. P srv os = ((r, srv'), os') \<longrightarrow> os_same os os' \<and> rtp_core srv' = rtp_core srv)"

lemma path_sameD: "path_same P \<Longrightarrow> P srv os = ((r, srv'), os') \<Longrightarrow> os_same os os' \<and> rtp_core srv' = rtp_core srv"
  by (simp add: path_same_def)

lemma path_same_done: "path_same path_done"
  by (auto simp: path_same_def path_done_def os_same_def)

lemma path_same_make:
  assumes "path_same rest" "\<And>el srv. rtp_core (upd el srv) = rtp_core srv"
  shows "path_same (gst_make_into upd ret factory name rest)"
  using assms
  by (fastforce simp: path_same_def gst_make_into_def gst_make_def attempt_def os_same_def Let_def split: if_splits)

lemma rtp_core_link [simp]: "rtp_core (srv\<lparr>rtp_links := l\<rparr>) = rtp_core srv" by (simp add: rtp_core_def)

lemma path_same_link: "path_same rest \<Longrightarrow> path_same (gst_link_or ret a b rest)"
  by (fastforce simp: path_same_def gst_link_or_def gst_link_def attempt_def os_same_def split: if_splits)

lemma path_same_upd: "path_same P \<Longrightarrow> (\<And>srv. rtp_core (f srv) = rtp_core srv) \<Longrightarrow> path_same (\<lambda>srv. P (f srv))"
  by (simp add: path_same_def)

lemmas path_same_done_upd = path_same_upd [OF path_same_done]

lemma path_same_link_upd:
  "path_same rest \<Longrightarrow> (\<And>srv. rtp_core (f srv) = rtp_core srv) \<Longrightarrow> path_same (\<lambda>srv. gst_link_or ret a b rest (f srv))"
  by (rule path_same_upd [OF path_same_link])

lemmas path_same_intros = path_same_make path_same_link_upd path_same_link path_same_done_upd path_same_done

lemma rtp_core_upd:
  "rtp_core (add_bin ns srv) = rtp_core srv" "rtp_core (add_other ps el srv) = rtp_core srv"
  "rtp_core (srv\<lparr>rtp_appsrc := x\<rparr>) = rtp_core srv" "rtp_core (srv\<lparr>rtp_flac_encoder := x\<rparr>) = rtp_core srv"
  "rtp_core (srv\<lparr>rtp_rtpbin := x\<rparr>) = rtp_core srv" "rtp_core (srv\<lparr>rtp_rtpsink := x\<rparr>) = rtp_core srv"
  "rtp_core (srv\<lparr>rtp_rtcpsink := x\<rparr>) = rtp_core srv"
  by (simp_all add: rtp_core_def add_bin_def add_other_def split: option.split)

lemma rtp_init_audiosrc_same: "path_same rtp_init_audiosrc"
  unfolding rtp_init_audiosrc_def
  by (rule path_same_intros | simp only: rtp_core_upd)+

lemma path_same_seq:
  assumes "path_same P" "path_same Q"
  shows "path_same (path_seq P Q)"
proof -
  have "os_same os os' \<and> rtp_core srv' = rtp_core srv" if run: "path_seq P Q srv os = ((r, srv'), os')" for srv os r srv' os'
  proof -
    obtain r1 srv1 os1 where P: "P srv os = ((r1, srv1), os1)" by (metis surj_pair)
    note 1 = path_sameD [OF assms(1) P]
    show ?thesis
    proof (cases "r1 < 0")
      case True
      with run P 1 show ?thesis by (simp add: path_seq_def)
    next
      case False
      with run P have "Q srv1 os1 = ((r, srv'), os')" by (simp add: path_seq_def)
      from path_sameD [OF assms(2) this] 1 show ?thesis by (simp add: os_same_def)
    qed
  qed
  then show ?thesis unfolding path_same_def by blast
qed

lemma rtp_init_audio_path_same: "path_same rtp_init_audio_path"
  unfolding rtp_init_audio_path_def
  by (rule path_same_seq rtp_init_audiosrc_same path_same_intros | simp only: rtp_core_upd)+

lemma rtp_init_rtcp_same: "path_same rtp_init_rtcp"
  unfolding rtp_init_rtcp_def Let_def
  by (rule path_same_intros | simp only: rtp_core_upd)+

lemma rtp_init_network_path_same: "path_same rtp_init_network_path"
  unfolding rtp_init_network_path_def
  by (rule path_same_intros rtp_init_rtcp_same | simp only: rtp_core_upd)+

text \<open>The start of the server.\<close>

lemma rtp_init_run_held:
  assumes run: "rtp_server_init_run srv os = Some ((r, c), os')"
    and srv: "gst_up srv" "rtp_state srv = RTP_SERVER_INACTIVE" "rtp_pool srv = None" "os_live os = L + rtp_held srv"
  shows "os_fault os' = os_fault os \<and> (r < 0 \<longrightarrow> os_live os' = L) \<and> (0 \<le> r \<longrightarrow> os_live os' = L + rtp_held c)"
proof -
  let ?p = "os_next os" and ?f = "os_fail os"
  let ?srv1 = "srv\<lparr>rtp_pool := Some ?p\<rparr>"
  let ?srv2 = "srv\<lparr>rtp_pool := Some ?p, rtp_state := RTP_SERVER_ACTIVE, rtp_loop := Some (?p + 3)\<rparr>"
  have h1: "rtp_held ?srv1 = add_mset (Gst_Object, ?p) (rtp_held srv)"
    using srv by (simp add: rtp_held_def rtp_objects_def rtp_handles_def)
  have h2: "rtp_held ?srv2 = add_mset (Main_Loop, ?p + 3) (add_mset (Gst_Object, ?p) (rtp_held srv))"
    using srv by (simp add: rtp_held_def rtp_objects_def rtp_handles_def add_mset_commute)
  note defs = rtp_server_init_run_def gst_new_def attempt_def Let_def
  consider "?f (?p + 1)" | "\<not> ?f (?p + 1)" "?f (?p + 2)" | "\<not> ?f (?p + 1)" "\<not> ?f (?p + 2)" "?f (?p + 4)"
    | "\<not> ?f (?p + 1)" "\<not> ?f (?p + 2)" "\<not> ?f (?p + 4)" by blast
  then show ?thesis
  proof cases
    case 1
    let ?os = "os\<lparr>os_live := add_mset (Gst_Object, ?p) (os_live os), os_next := ?p + 2\<rparr>"
    from run 1 have "rtp_init_fail (- 5) ?srv1 ?os = Some ((r, c), os')" by (simp add: defs)
    from rtp_init_fail_held [OF this, of L] show ?thesis using srv(4) h1 by simp
  next
    case 2
    let ?os = "os\<lparr>os_live := add_mset (Gst_Object, ?p) (os_live os), os_next := ?p + 3\<rparr>"
    from run 2 have "rtp_init_fail (- 6) ?srv1 ?os = Some ((r, c), os')" by (simp add: defs numeral_3_eq_3)
    from rtp_init_fail_held [OF this, of L] show ?thesis using srv(4) h1 by simp
  next
    case 3
    let ?os = "os\<lparr>os_live := add_mset (Main_Loop, ?p + 3) (add_mset (Gst_Object, ?p) (os_live os)), os_next := ?p + 5\<rparr>"
    from run 3 have "rtp_init_fail (- 7) ?srv2 ?os = Some ((r, c), os')" by (simp add: defs eval_nat_numeral)
    from rtp_init_fail_held [OF this, of L] show ?thesis using srv(4) h2 by simp
  next
    case 4
    with run show ?thesis using srv(4) h2 by (auto simp: defs eval_nat_numeral)
  qed
qed

lemma rtp_server_init_held:
  assumes init: "rtp_server_init rtp_zero len rate base os = Some ((r, c), os')"
  shows "os_fault os' = os_fault os \<and> (r < 0 \<longrightarrow> shm_env RTP_SRV_SHM_NAME os \<longrightarrow> os_live os' = os_live os) \<and>
    (0 \<le> r \<longrightarrow> os_live os' = os_live os + rtp_held c)"
proof -
  let ?srv = "rtp_zero\<lparr>rtp_mpx_samplerate := rate, rtp_baseport := base, rtp_buf_len := len, rtp_state := RTP_SERVER_INACTIVE\<rparr>"
  obtain m os1 where shm: "utils_shm_init RTP_SRV_SHM_NAME 296 os = (m, os1)" by fastforce
  note f1 = utils_shm_init_cases(1) [OF shm]
  show ?thesis
  proof (cases m)
    case None
    have "rtp_held (?srv\<lparr>rtp_ctl_map := None\<rparr>) = {#}" by (simp add: rtp_held_def rtp_zero_def)
    with init shm None show ?thesis
      using rtp_init_fail_held [of "- 1" "?srv\<lparr>rtp_ctl_map := None\<rparr>" os1 r c os' "os_live os1"] f1
        utils_shm_init_env(2) [OF shm] None
      by (auto simp: rtp_server_init_def Let_def)
  next
    case (Some mp)
    have mem: "shm_mem mp \<noteq> Mem_Null" using init shm Some by (auto simp: rtp_server_init_def Let_def)
    have l1: "os_live os1 = os_live os + map_held (Some mp)"
      using utils_shm_init_map [OF _ mem] shm Some by simp
    let ?s1 = "?srv\<lparr>rtp_ctl_map := Some mp, gst_up := True\<rparr>"
    obtain h os2 where acq: "acquire Gst_Object os1 = (h, os2)" by fastforce
    obtain bus os3 where bus: "gst_new Gst_Object os2 = (bus, os3)" by fastforce
    let ?s2 = "?s1\<lparr>rtp_pipeline := h\<rparr>"
    let ?s3 = "?s2\<lparr>rtp_msgbus := Some bus\<rparr>"
    have l3: "os_live os3 = os_live os + rtp_held ?s3 \<and> os_fault os3 = os_fault os" if "h \<noteq> None"
      using acq that bus l1 f1
      by (cases rule: acquire_cases) (auto simp: gst_new_def rtp_held_def rtp_objects_def rtp_handles_def rtp_zero_def)
    show ?thesis
    proof (cases h)
      case None
      have "os_live os2 = os_live os + rtp_held ?s2" "os_fault os2 = os_fault os"
        using acq None l1 f1
        by (cases rule: acquire_cases; simp add: rtp_held_def rtp_objects_def rtp_handles_def rtp_zero_def)+
      with init shm Some mem acq None show ?thesis
        using rtp_init_fail_held [of "- 2" ?s2 os2 r c os' "os_live os"] by (auto simp: rtp_server_init_def Let_def)
    next
      case pipe: (Some p)
      obtain r4 s4 os4 where audio: "rtp_init_audio_path ?s3 os3 = ((r4, s4), os4)" by (metis surj_pair)
      obtain r5 s5 os5 where net: "rtp_init_network_path s4 os4 = ((r5, s5), os5)" by (metis surj_pair)
      note a = path_sameD [OF rtp_init_audio_path_same audio] and n = path_sameD [OF rtp_init_network_path_same net]
      have l4: "os_live os4 = os_live os + rtp_held s4" "os_fault os4 = os_fault os"
        using l3 pipe a rtp_core_held [of s4 ?s3] by (simp_all add: os_same_def)
      have l5: "os_live os5 = os_live os + rtp_held s5" "os_fault os5 = os_fault os"
        using l4 n rtp_core_held [of s5 s4] by (simp_all add: os_same_def)
      have core: "gst_up s5" "rtp_state s5 = RTP_SERVER_INACTIVE" "rtp_pool s5 = None"
        using a n by (simp_all add: rtp_core_def rtp_zero_def)
      have run: "(if r4 < 0 then rtp_init_fail (- 3) s4 os4
          else if r5 < 0 then rtp_init_fail (- 4) s5 os5 else rtp_server_init_run s5 os5) = Some ((r, c), os')"
        using init shm Some mem acq pipe bus audio net by (simp add: rtp_server_init_def Let_def cong: if_cong)
      consider "r4 < 0" | "0 \<le> r4" "r5 < 0" | "0 \<le> r4" "0 \<le> r5" by linarith
      then show ?thesis
      proof cases
        case 1
        with run show ?thesis using rtp_init_fail_held [of "- 3" s4 os4 r c os' "os_live os"] l4 by simp
      next
        case 2
        with run show ?thesis using rtp_init_fail_held [of "- 4" s5 os5 r c os' "os_live os"] l5 by simp
      next
        case 3
        with run show ?thesis using rtp_init_run_held [of s5 os5 r c os' "os_live os"] l5 core by simp
      qed
    qed
  qed
qed

lemma rtp_server_init_runs:
  assumes "shm_env RTP_SRV_SHM_NAME os"
  shows "rtp_server_init rtp_zero len rate base os \<noteq> None"
proof -
  obtain m os1 where shm: "utils_shm_init RTP_SRV_SHM_NAME 296 os = (m, os1)" by fastforce
  have mem: "m = Some mp \<Longrightarrow> shm_mem mp \<noteq> Mem_Null" for mp using utils_shm_init_env(3) [OF shm assms] by simp
  show ?thesis
    using shm mem
    by (auto simp: rtp_server_init_def rtp_server_init_run_def rtp_init_fail_def Let_def split: option.split prod.split)
qed

interpretation rtp: lifecycle "shm_env RTP_SRV_SHM_NAME" "rtp_server_init rtp_zero len rate base"
  "\<lambda>c os. snd (rtp_server_destroy c os)" rtp_held for len rate base
proof
  show "shm_env RTP_SRV_SHM_NAME os \<Longrightarrow> rtp_server_init rtp_zero len rate base os \<noteq> None" for os
    by (rule rtp_server_init_runs)
qed (auto dest: rtp_server_init_held rtp_destroy_held)

subsection \<open>The pipeline that is built\<close>

lemma gst_make_into_ok:
  assumes "gst_make_into upd ret f n rest srv os = ((r, c), os')" "0 \<le> r" "ret < 0"
  shows "\<exists>os1. rest (upd (Some \<lparr>el_factory = f, el_name = n, el_props = []\<rparr>) srv) os1 = ((r, c), os')"
  using assms by (auto simp: gst_make_into_def gst_make_def Let_def split: prod.splits if_splits)

lemma gst_link_or_ok:
  assumes "gst_link_or ret a b rest srv os = ((r, c), os')" "0 \<le> r" "ret < 0"
  shows "\<exists>os1. rest (srv\<lparr>rtp_links := rtp_links srv @ [(a, b)]\<rparr>) os1 = ((r, c), os')"
  using assms by (auto simp: gst_link_or_def gst_link_def split: prod.splits if_splits)

lemma path_seq_ok:
  assumes "path_seq P Q srv os = ((r, c), os')" "0 \<le> r"
  shows "\<exists>r1 srv1 os1. P srv os = ((r1, srv1), os1) \<and> 0 \<le> r1 \<and> Q srv1 os1 = ((r, c), os')"
  using assms by (auto simp: path_seq_def split: prod.splits if_splits)

lemma rtp_init_rtcp_built:
  assumes "rtp_init_rtcp srv os = ((r, c), os')" "0 \<le> r"
  shows "rtp_links c = rtp_links srv @ [(''rtcpsrc'', ''rtpbin.recv_rtcp_sink_0''), (''rtpbin.send_rtcp_src_0'', ''rtcpsink'')]"
    "rtp_rtpsink c = map_option (set_props [(''bind-port'', GInt (rtp_baseport srv + 1))]) (rtp_rtpsink srv)"
    "get_prop ''bind-port'' (rtp_rtcpsink c) = None"
proof -
  have "c = (let srv = add_other (\<lambda>srv. [(''port'', GInt (rtp_baseport srv + 2))])
          (Some \<lparr>el_factory = ''udpsrc'', el_name = ''rtcpsrc'', el_props = []\<rparr>) srv;
        srv = add_bin [''rtcpsrc''] srv;
        srv = srv\<lparr>rtp_links := rtp_links srv @ [(''rtcpsrc'', ''rtpbin.recv_rtcp_sink_0'')]\<rparr>;
        srv = srv\<lparr>rtp_rtcpsink := Some \<lparr>el_factory = ''multiudpsink'', el_name = ''rtcpsink'', el_props = []\<rparr>\<rparr>;
        srv = srv\<lparr>rtp_rtcpsink := map_option (set_props [(''async'', GInt 0), (''sync'', GInt 0)]) (rtp_rtcpsink srv)\<rparr>;
        srv = srv\<lparr>rtp_rtpsink := map_option (set_props [(''bind-port'', GInt (rtp_baseport srv + 1))]) (rtp_rtpsink srv)\<rparr>;
        srv = add_bin [''rtcpsink''] srv
      in srv\<lparr>rtp_links := rtp_links srv @ [(''rtpbin.send_rtcp_src_0'', ''rtcpsink'')]\<rparr>)"
    using assms(1) [unfolded rtp_init_rtcp_def Let_def, THEN gst_make_into_ok, OF assms(2)] assms(2)
    by (auto simp: path_done_def Let_def dest!: gst_link_or_ok gst_make_into_ok)
  then show "rtp_links c = rtp_links srv @ [(''rtcpsrc'', ''rtpbin.recv_rtcp_sink_0''), (''rtpbin.send_rtcp_src_0'', ''rtcpsink'')]"
    "rtp_rtpsink c = map_option (set_props [(''bind-port'', GInt (rtp_baseport srv + 1))]) (rtp_rtpsink srv)"
    "get_prop ''bind-port'' (rtp_rtcpsink c) = None"
    by (simp_all add: Let_def add_other_def add_bin_def get_prop_def set_props_def)
qed

lemma rtp_init_network_path_built:
  assumes "rtp_init_network_path srv os = ((r, c), os')" "0 \<le> r"
  shows "rtp_links c = rtp_links srv @ [(''flac_encoder'', ''rtp_payloader''), (''rtp_payloader'', ''rtpbin.send_rtp_sink_0''),
      (''rtpbin.send_rtp_src_0'', ''rtpsink''), (''rtcpsrc'', ''rtpbin.recv_rtcp_sink_0''), (''rtpbin.send_rtcp_src_0'', ''rtcpsink'')]"
    "get_prop ''bind-port'' (rtp_rtpsink c) = Some (GInt (rtp_baseport srv + 1))"
    "get_prop ''bind-port'' (rtp_rtcpsink c) = None"
proof -
  define s1 where "s1 = (let srv = add_other (\<lambda>_. [(''config-interval'', GInt 3)])
          (Some \<lparr>el_factory = ''rtpgstpay'', el_name = ''rtp_payloader'', el_props = []\<rparr>) srv;
        srv = add_bin [''rtp_payloader''] srv;
        srv = srv\<lparr>rtp_links := rtp_links srv @ [(''flac_encoder'', ''rtp_payloader'')]\<rparr>;
        srv = srv\<lparr>rtp_rtpbin := Some \<lparr>el_factory = ''rtpbin'', el_name = ''rtpbin'', el_props = []\<rparr>\<rparr>;
        srv = add_bin [''rtpbin''] (srv\<lparr>rtp_rtpbin := map_option (set_props [(''rtp-profile'', GStr ''avpf'')]) (rtp_rtpbin srv)\<rparr>);
        srv = srv\<lparr>rtp_links := rtp_links srv @ [(''rtp_payloader'', ''rtpbin.send_rtp_sink_0'')]\<rparr>;
        srv = srv\<lparr>rtp_rtpsink := Some \<lparr>el_factory = ''multiudpsink'', el_name = ''rtpsink'', el_props = []\<rparr>\<rparr>;
        srv = add_bin [''rtpsink''] (srv\<lparr>rtp_rtpsink := map_option (set_props [(''bind-port'', GInt (rtp_baseport srv))]) (rtp_rtpsink srv)\<rparr>)
      in srv\<lparr>rtp_links := rtp_links srv @ [(''rtpbin.send_rtp_src_0'', ''rtpsink'')]\<rparr>)"
  have "\<exists>os1. rtp_init_rtcp s1 os1 = ((r, c), os')"
    using assms(1) [unfolded rtp_init_network_path_def, THEN gst_make_into_ok, OF assms(2)] assms(2)
    by (auto simp: s1_def Let_def dest!: gst_link_or_ok gst_make_into_ok)
  then obtain os1 where rtcp: "rtp_init_rtcp s1 os1 = ((r, c), os')" by blast
  note b = rtp_init_rtcp_built [OF rtcp assms(2)]
  have s1: "rtp_links s1 = rtp_links srv @ [(''flac_encoder'', ''rtp_payloader''), (''rtp_payloader'', ''rtpbin.send_rtp_sink_0''),
      (''rtpbin.send_rtp_src_0'', ''rtpsink'')]" "rtp_baseport s1 = rtp_baseport srv"
    "rtp_rtpsink s1 = Some (set_props [(''bind-port'', GInt (rtp_baseport srv))]
      \<lparr>el_factory = ''multiudpsink'', el_name = ''rtpsink'', el_props = []\<rparr>)"
    by (simp_all add: s1_def Let_def add_other_def add_bin_def)
  show "rtp_links c = rtp_links srv @ [(''flac_encoder'', ''rtp_payloader''), (''rtp_payloader'', ''rtpbin.send_rtp_sink_0''),
      (''rtpbin.send_rtp_src_0'', ''rtpsink''), (''rtcpsrc'', ''rtpbin.recv_rtcp_sink_0''), (''rtpbin.send_rtcp_src_0'', ''rtcpsink'')]"
    unfolding b(1) s1(1) by simp
  show "get_prop ''bind-port'' (rtp_rtpsink c) = Some (GInt (rtp_baseport srv + 1))"
    unfolding b(2) s1(2,3) by (simp add: get_prop_def set_props_def)
  show "get_prop ''bind-port'' (rtp_rtcpsink c) = None" by (rule b(3))
qed

lemma rtp_init_audio_path_built:
  assumes "rtp_init_audio_path srv os = ((r, c), os')" "0 \<le> r"
  shows "rtp_links c = rtp_links srv @ [(''audio_source'', ''audio_converter''), (''audio_converter'', ''flac_encoder'')]"
    "rtp_baseport c = rtp_baseport srv"
proof -
  obtain r1 s1 os1 where src: "rtp_init_audiosrc srv os = ((r1, s1), os1)" "0 \<le> r1"
    and rest: "gst_make_into (add_other (\<lambda>_. [])) (- 2) ''audioconvert'' ''audio_converter''
         (gst_make_into (\<lambda>el srv. srv\<lparr>rtp_flac_encoder := el\<rparr>) (- 3) ''flacenc'' ''flac_encoder''
           (\<lambda>srv. gst_link_or (- 4) ''audio_source'' ''audio_converter''
             (gst_link_or (- 5) ''audio_converter'' ''flac_encoder'' path_done)
             (add_bin [''audio_source'', ''audio_converter'', ''flac_encoder'']
               (srv\<lparr>rtp_flac_encoder := map_option
                  (set_props [(''blocksize'', GInt (rtp_get_flac_blocksize (rtp_mpx_samplerate srv)))])
                  (rtp_flac_encoder srv)\<rparr>)))) s1 os1 = ((r, c), os')"
    using path_seq_ok [OF assms(1) [unfolded rtp_init_audio_path_def] assms(2)] by blast
  have s1: "rtp_links s1 = rtp_links srv" "rtp_baseport s1 = rtp_baseport srv"
    using gst_make_into_ok [OF src(1) [unfolded rtp_init_audiosrc_def] src(2)] by (auto simp: path_done_def)
  show "rtp_links c = rtp_links srv @ [(''audio_source'', ''audio_converter''), (''audio_converter'', ''flac_encoder'')]"
    "rtp_baseport c = rtp_baseport srv"
    using gst_make_into_ok [OF rest assms(2)] assms(2) s1
    by (auto simp: path_done_def add_bin_def add_other_def dest!: gst_link_or_ok gst_make_into_ok)
qed

lemma rtp_init_run_ok:
  assumes "rtp_server_init_run srv os = Some ((0, c), os')"
  shows "rtp_state c = RTP_SERVER_ACTIVE \<and> rtp_links c = rtp_links srv \<and> rtp_rtpsink c = rtp_rtpsink srv \<and>
    rtp_rtcpsink c = rtp_rtcpsink srv"
  using assms
  by (auto simp: rtp_server_init_run_def rtp_init_fail_def Let_def split: prod.splits if_splits)

lemma rtp_init_fail_neg: "rtp_init_fail ret srv os = Some ((r, c), os') \<Longrightarrow> r = ret"
  by (auto simp: rtp_init_fail_def split: prod.splits)

lemma rtp_init_built:
  assumes "rtp_server_init rtp_zero len rate base os = Some ((0, c), os')"
  obtains s3 s4 s5 os3 os4 os5 r4 r5 where "rtp_init_audio_path s3 os3 = ((r4, s4), os4)" "0 \<le> r4"
    "rtp_init_network_path s4 os4 = ((r5, s5), os5)" "0 \<le> r5" "rtp_server_init_run s5 os5 = Some ((0, c), os')"
    "rtp_links s3 = []" "rtp_baseport s3 = base"
proof -
  let ?srv = "rtp_zero\<lparr>rtp_mpx_samplerate := rate, rtp_baseport := base, rtp_buf_len := len, rtp_state := RTP_SERVER_INACTIVE\<rparr>"
  obtain m os1 where shm: "utils_shm_init RTP_SRV_SHM_NAME 296 os = (m, os1)" by fastforce
  have "m \<noteq> None"
    using assms shm by (cases m) (auto simp: rtp_server_init_def dest!: rtp_init_fail_neg)
  then obtain mp where mp: "m = Some mp" by blast
  have "shm_mem mp \<noteq> Mem_Null"
    using assms shm mp by (cases "shm_mem mp = Mem_Null") (simp_all add: rtp_server_init_def)
  note m = mp this
  obtain h os2 where acq: "acquire Gst_Object os1 = (h, os2)" by fastforce
  obtain bus os3 where bus: "gst_new Gst_Object os2 = (bus, os3)" by fastforce
  let ?s3 = "?srv\<lparr>rtp_ctl_map := Some mp, gst_up := True, rtp_pipeline := h, rtp_msgbus := Some bus\<rparr>"
  obtain r4 s4 os4 where audio: "rtp_init_audio_path ?s3 os3 = ((r4, s4), os4)" by (metis surj_pair)
  obtain r5 s5 os5 where net: "rtp_init_network_path s4 os4 = ((r5, s5), os5)" by (metis surj_pair)
  have run: "(if h = None then rtp_init_fail (- 2) (?srv\<lparr>rtp_ctl_map := Some mp, gst_up := True, rtp_pipeline := h\<rparr>) os2
      else if r4 < 0 then rtp_init_fail (- 3) s4 os4
      else if r5 < 0 then rtp_init_fail (- 4) s5 os5 else rtp_server_init_run s5 os5) = Some ((0, c), os')"
    using assms shm m acq bus audio net by (simp add: rtp_server_init_def Let_def cong: if_cong)
  then have "0 \<le> r4" "0 \<le> r5" "rtp_server_init_run s5 os5 = Some ((0, c), os')"
    by (auto split: if_splits dest!: rtp_init_fail_neg)
  then show ?thesis by (rule that [OF audio _ net]) (simp_all add: rtp_zero_def)
qed


text \<open>When nothing fails the server starts.\<close>

definition path_total :: "path \<Rightarrow> bool" where
  "path_total P \<longleftrightarrow> (\<forall>srv os. no_fail os \<longrightarrow> (\<exists>c os'. P srv os = ((0, c), os') \<and> no_fail os' \<and> os_shm os' = os_shm os))"

lemma path_total_done: "path_total (\<lambda>srv. path_done (f srv))" "path_total path_done"
  by (simp_all add: path_total_def path_done_def)

lemma path_total_step:
  assumes "path_total rest" "no_fail os"
  shows "\<exists>c os'. rest srv (os\<lparr>os_next := k\<rparr>) = ((0, c), os') \<and> no_fail os' \<and> os_shm os' = os_shm os"
proof -
  have "no_fail (os\<lparr>os_next := k\<rparr>)" using assms(2) by (simp add: no_fail_def)
  from assms(1) [unfolded path_total_def, rule_format, OF this, of srv] show ?thesis by simp
qed

lemma attempt_no_fail: "no_fail os \<Longrightarrow> attempt os = (True, os\<lparr>os_next := Suc (os_next os)\<rparr>)"
  by (simp add: attempt_def no_fail_def)

lemma path_total_make: "path_total rest \<Longrightarrow> path_total (gst_make_into upd ret f n rest)"
  using path_total_step [of rest]
  by (simp add: path_total_def [of "gst_make_into upd ret f n rest"] gst_make_into_def gst_make_def attempt_no_fail Let_def)

lemma path_total_link:
  "path_total rest \<Longrightarrow> path_total (\<lambda>srv. gst_link_or ret a b rest (f srv))"
  "path_total rest \<Longrightarrow> path_total (gst_link_or ret a b rest)"
  using path_total_step [of rest]
  by (simp_all add: path_total_def [of "\<lambda>srv. gst_link_or ret a b rest (f srv)"] path_total_def [of "gst_link_or ret a b rest"]
      gst_link_or_def gst_link_def attempt_no_fail)

lemma path_total_seq:
  assumes "path_total P" "path_total Q"
  shows "path_total (path_seq P Q)"
proof -
  have "\<exists>c os'. path_seq P Q srv os = ((0, c), os') \<and> no_fail os' \<and> os_shm os' = os_shm os" if nf: "no_fail os" for srv os
  proof -
    obtain c os1 where P: "P srv os = ((0, c), os1)" "no_fail os1" "os_shm os1 = os_shm os" using assms(1) nf unfolding path_total_def by blast
    moreover obtain c' os2 where "Q c os1 = ((0, c'), os2)" "no_fail os2" "os_shm os2 = os_shm os1" using assms(2) P(2) unfolding path_total_def by blast
    ultimately show ?thesis by (simp add: path_seq_def)
  qed
  then show ?thesis by (simp add: path_total_def)
qed

lemmas path_total_intros = path_total_seq path_total_make path_total_link path_total_done

lemma rtp_paths_total: "path_total rtp_init_audio_path" "path_total rtp_init_network_path"
  unfolding rtp_init_audio_path_def rtp_init_audiosrc_def rtp_init_network_path_def rtp_init_rtcp_def Let_def
  by (rule path_total_intros)+

lemma rtp_server_init_no_fail:
  assumes "no_fail os" "RTP_SRV_SHM_NAME \<notin> set (os_shm os)"
  shows "\<exists>c os'. rtp_server_init rtp_zero len rate base os = Some ((0, c), os') \<and> no_fail os' \<and> os_shm os' = RTP_SRV_SHM_NAME # os_shm os"
proof -
  obtain m os1 where shm: "utils_shm_init RTP_SRV_SHM_NAME 296 os = (Some m, os1)" "shm_mem m \<noteq> Mem_Null" "no_fail os1"
    "os_shm os1 = RTP_SRV_SHM_NAME # os_shm os"
    using assms by (simp add: shm_defs no_fail_def)
  obtain h os2 where acq: "acquire Gst_Object os1 = (Some h, os2)" "no_fail os2" "os_shm os2 = os_shm os1"
    using shm(3) by (simp add: acquire_def no_fail_def)
  obtain bus os3 where bus: "gst_new Gst_Object os2 = (bus, os3)" "no_fail os3" "os_shm os3 = os_shm os2"
    using acq(2) by (simp add: gst_new_def no_fail_def)
  let ?s3 = "rtp_zero\<lparr>rtp_mpx_samplerate := rate, rtp_baseport := base, rtp_buf_len := len, rtp_state := RTP_SERVER_INACTIVE,
      rtp_ctl_map := Some m, gst_up := True, rtp_pipeline := Some h, rtp_msgbus := Some bus\<rparr>"
  obtain s4 os4 where audio: "rtp_init_audio_path ?s3 os3 = ((0, s4), os4)" "no_fail os4" "os_shm os4 = os_shm os3"
    using rtp_paths_total(1) bus(2) unfolding path_total_def by blast
  obtain s5 os5 where net: "rtp_init_network_path s4 os4 = ((0, s5), os5)" "no_fail os5" "os_shm os5 = os_shm os4"
    using rtp_paths_total(2) audio(2) unfolding path_total_def by blast
  have "\<exists>c os'. rtp_server_init_run s5 os5 = Some ((0, c), os') \<and> no_fail os' \<and> os_shm os' = os_shm os5"
    using net(2) by (simp add: rtp_server_init_run_def gst_new_def attempt_def no_fail_def)
  then show ?thesis
    using shm acq(1,3) bus(1,3) audio(1,3) net(1,3) by (simp add: rtp_server_init_def Let_def)
qed


end
