(* ===== verification/Fmmod.thy ===== *)
theory Fmmod
  imports Filters Resampler Rtp_Server
begin

text \<open>
  The modulator (\<^verbatim>\<open>fmmod.c\<close>), signal processing: the four multiplex generators, the processing of a
  period, the JACK callback and the loop of the processing thread. JACK, SoXr, FFTW and the system
  calls are parameters. \<open>rds_next\<close> is a call of \<^verbatim>\<open>rds_get_next_sample\<close> together with what the thread
  of the RDS encoder does until the next call; \<open>'e\<close> is the state of the two. An access outside of a
  buffer or through \<^verbatim>\<open>NULL\<close> is \<open>None\<close>.
\<close>

subsection \<open>State\<close>

abbreviation (input) FMMOD_OUTPUT_SAMPLERATE :: "32 word" where "FMMOD_OUTPUT_SAMPLERATE \<equiv> 192000"

abbreviation (input) AFLT_LPF_OVERLAP_FACTOR :: "8 word" where "AFLT_LPF_OVERLAP_FACTOR \<equiv> 3"
abbreviation (input) SSB_LPF_OVERLAP_FACTOR :: "8 word" where "SSB_LPF_OVERLAP_FACTOR \<equiv> 3"

abbreviation (input) FMMOD_ERR_INVALID_INPUT :: int where "FMMOD_ERR_INVALID_INPUT \<equiv> - 1"
abbreviation (input) FMMOD_ERR_RESAMPLER_ERR :: int where "FMMOD_ERR_RESAMPLER_ERR \<equiv> - 2"
abbreviation (input) FMMOD_ERR_JACKD_ERR :: int where "FMMOD_ERR_JACKD_ERR \<equiv> - 3"
abbreviation (input) FMMOD_ERR_NOMEM :: int where "FMMOD_ERR_NOMEM \<equiv> - 4"
abbreviation (input) FMMOD_ERR_OSC_ERR :: int where "FMMOD_ERR_OSC_ERR \<equiv> - 5"
abbreviation (input) FMMOD_ERR_RDS_ERR :: int where "FMMOD_ERR_RDS_ERR \<equiv> - 6"
abbreviation (input) FMMOD_ERR_SHM_ERR :: int where "FMMOD_ERR_SHM_ERR \<equiv> - 7"
abbreviation (input) FMMOD_ERR_SOCK_ERR :: int where "FMMOD_ERR_SOCK_ERR \<equiv> - 8"
abbreviation (input) FMMOD_ERR_RTP_ERR :: int where "FMMOD_ERR_RTP_ERR \<equiv> - 9"
abbreviation (input) FMMOD_ERR_ALREADY_RUNNING :: int where "FMMOD_ERR_ALREADY_RUNNING \<equiv> - 10"
abbreviation (input) FMMOD_ERR_LPF :: int where "FMMOD_ERR_LPF \<equiv> - 11"
abbreviation (input) FMMOD_ERR_HILBERT :: int where "FMMOD_ERR_HILBERT \<equiv> - 12"
abbreviation (input) FMMOD_ERR_AFLT :: int where "FMMOD_ERR_AFLT \<equiv> - 13"

abbreviation (input) FMMOD_DSB :: int where "FMMOD_DSB \<equiv> 0"
abbreviation (input) FMMOD_SSB_HARTLEY :: int where "FMMOD_SSB_HARTLEY \<equiv> 1"
abbreviation (input) FMMOD_SSB_LPF :: int where "FMMOD_SSB_LPF \<equiv> 2"
abbreviation (input) FMMOD_MONO :: int where "FMMOD_MONO \<equiv> 3"

record fmmod_control =
  audio_gain :: real
  pilot_gain :: real
  rds_gain :: real
  stereo_carrier_gain :: real
  mpx_gain :: real
  stereo_modulation :: int
  use_audio_lpf :: int
  preemph_tau :: int
  peak_mpx_out :: real
  peak_audio_in_l :: real
  peak_audio_in_r :: real
  ctl_sample_rate :: int
  ctl_max_samples :: int

record fmmod_flts =
  fmprf_l :: fmpreemph_filter_data
  fmprf_r :: fmpreemph_filter_data
  lpf_l :: lpf_filter_data
  lpf_r :: lpf_filter_data
  ssb_lpf :: lpf_filter_data
  hilb :: hilbert_transformer_data

text \<open>
  The structure of the modulator with, at its end, the static variable of the pre-emphasis filter
  and what has gone out: to the socket, to the RTP server's queue, and the signals raised.
\<close>

record 'e fmmod_instance =
  fm_active :: bool
  fm_inbuf_l :: "real buffer"
  fm_inbuf_r :: "real buffer"
  fm_num_in_samples :: "32 word"
  fm_num_out_samples :: "32 word"
  fm_upsampled_num_samples :: "32 word"
  fm_uaudio_buf_0 :: "real buffer"
  fm_uaudio_buf_1 :: "real buffer"
  fm_umpxbuf :: "real buffer"
  fm_outbuf :: "real buffer"
  fm_out_sock_fd :: int
  fm_flts :: fmmod_flts
  fm_sin_osc :: osc_state
  fm_cos_osc :: osc_state
  fm_rsmpl :: resampler_data
  fm_rds_enc :: 'e
  fm_rtpsrv :: rtp_server
  fm_inL :: "nat option"
  fm_inR :: "nat option"
  fm_client :: "nat option"
  fm_ctl_map :: "shm_mapping option"
  fm_ctl :: fmmod_control
  fm_prev_tau_mode :: int
  fm_sock_out :: "real list list"
  fm_rtp_queue :: "real list list"
  fm_raised :: nat

text \<open>The structure after \<^verbatim>\<open>memset\<close>; \<open>enc\<close> is the encoder, \<open>ctl\<close> what the control channel holds.\<close>

definition osc_zero :: osc_state where
  "osc_zero = \<lparr>phase_step = 0, current_phase = 0, osc_sample_rate = 0, osc_type = OSC_TYPE_SINE\<rparr>"

definition ctl_zero :: fmmod_control where
  "ctl_zero = \<lparr>audio_gain = 0, pilot_gain = 0, rds_gain = 0, stereo_carrier_gain = 0, mpx_gain = 0,
     stereo_modulation = FMMOD_DSB, use_audio_lpf = 0, preemph_tau = LPF_PREEMPH_50US, peak_mpx_out = 0,
     peak_audio_in_l = 0, peak_audio_in_r = 0, ctl_sample_rate = 0, ctl_max_samples = 0\<rparr>"

definition fmmod_zero :: "'e \<Rightarrow> 'e fmmod_instance" where
  "fmmod_zero enc = \<lparr>fm_active = False, fm_inbuf_l = None, fm_inbuf_r = None, fm_num_in_samples = 0,
     fm_num_out_samples = 0, fm_upsampled_num_samples = 0, fm_uaudio_buf_0 = None, fm_uaudio_buf_1 = None,
     fm_umpxbuf = None, fm_outbuf = None, fm_out_sock_fd = 0,
     fm_flts = \<lparr>fmprf_l = fmpreemph_zero, fmprf_r = fmpreemph_zero, lpf_l = lpf_zero, lpf_r = lpf_zero,
       ssb_lpf = lpf_zero, hilb = hilbert_zero\<rparr>,
     fm_sin_osc = osc_zero, fm_cos_osc = osc_zero, fm_rsmpl = resampler_zero, fm_rds_enc = enc,
     fm_rtpsrv = rtp_zero, fm_inL = None, fm_inR = None, fm_client = None, fm_ctl_map = None, fm_ctl = ctl_zero,
     fm_prev_tau_mode = LPF_PREEMPH_NONE, fm_sock_out = [], fm_rtp_queue = [], fm_raised = 0\<rparr>"

subsection \<open>The generators\<close>

text \<open>
  A generator's loop: each iteration takes a frame (L + R, L - R) and the oscillator and encoder,
  and gives a sample.
\<close>

type_synonym 'e mpx_state = "osc_state \<times> 'e"

type_synonym 'e rds_fun = "'e \<Rightarrow> (real \<times> 'e) option"

fun mpx_loop :: "('x \<Rightarrow> 's \<Rightarrow> (real \<times> 's) option) \<Rightarrow> 'x list \<Rightarrow> 's \<Rightarrow> (real list \<times> 's) option" where
  "mpx_loop step [] s = Some ([], s)"
| "mpx_loop step (x # xs) s =
     do { (y, s) \<leftarrow> step x s; (ys, s) \<leftarrow> mpx_loop step xs s; Some (y # ys, s) }"

text \<open>The last steps that all generators share: the RDS carrier, the gain and the phase.\<close>

definition mpx_finish :: "'e rds_fun \<Rightarrow> fmmod_control \<Rightarrow> real \<Rightarrow> 'e mpx_state \<Rightarrow> (real \<times> 'e mpx_state) option" where
  "mpx_finish rds_next ctl out s =
     (case s of (sin_osc, enc) \<Rightarrow>
        do {
          (sample, enc) \<leftarrow> rds_next enc;
          let out = f32 (out + f32 (f32 (rds_gain ctl * osc_get_57Khz_sample sin_osc) * sample));
          let out = f32 (out * mpx_gain ctl);
          Some (out, osc_increase_phase sin_osc, enc)
        })"

definition mono_sample ::
  "'e rds_fun \<Rightarrow> fmmod_control \<Rightarrow> real \<times> real \<Rightarrow> 'e mpx_state \<Rightarrow> (real \<times> 'e mpx_state) option" where
  "mono_sample rds_next ctl frame s = mpx_finish rds_next ctl (fst frame) s"

definition fmmod_mono_generator ::
  "'e rds_fun \<Rightarrow> 'e fmmod_instance \<Rightarrow> real list \<Rightarrow> real list \<Rightarrow> nat \<Rightarrow> real list \<Rightarrow> (real list \<times> 'e fmmod_instance) option" where
  "fmmod_mono_generator rds_next fmmod lpr lmr num_samples out =
     do {
       lpr \<leftarrow> mem_read 0 num_samples lpr;
       (res, sin_osc, enc) \<leftarrow> mpx_loop (\<lambda>x. mono_sample rds_next (fm_ctl fmmod) (x, 0)) lpr (fm_sin_osc fmmod, fm_rds_enc fmmod);
       out \<leftarrow> mem_write 0 res out;
       Some (out, fmmod\<lparr>fm_sin_osc := sin_osc, fm_rds_enc := enc\<rparr>)
     }"

definition dsb_sample ::
  "'e rds_fun \<Rightarrow> fmmod_control \<Rightarrow> real \<times> real \<Rightarrow> 'e mpx_state \<Rightarrow> (real \<times> 'e mpx_state) option" where
  "dsb_sample rds_next ctl frame s =
     (let out = fst frame;
          out = f32 (out + f32 (pilot_gain ctl * osc_get_19Khz_sample (fst s)));
          out = f32 (out + f32 (f32 (snd frame * osc_get_38Khz_sample (fst s)) * stereo_carrier_gain ctl))
      in mpx_finish rds_next ctl out s)"

definition fmmod_dsb_generator ::
  "'e rds_fun \<Rightarrow> 'e fmmod_instance \<Rightarrow> real list \<Rightarrow> real list \<Rightarrow> nat \<Rightarrow> real list \<Rightarrow> (real list \<times> 'e fmmod_instance) option" where
  "fmmod_dsb_generator rds_next fmmod lpr lmr num_samples out =
     do {
       lpr \<leftarrow> mem_read 0 num_samples lpr;
       lmr \<leftarrow> mem_read 0 num_samples lmr;
       (res, sin_osc, enc) \<leftarrow> mpx_loop (dsb_sample rds_next (fm_ctl fmmod)) (zip lpr lmr) (fm_sin_osc fmmod, fm_rds_enc fmmod);
       out \<leftarrow> mem_write 0 res out;
       Some (out, fmmod\<lparr>fm_sin_osc := sin_osc, fm_rds_enc := enc\<rparr>)
     }"

text \<open>The L - R signal on the subcarrier, before the filter that removes the upper side band.\<close>

definition ssb_carrier_sample :: "real \<times> real \<Rightarrow> osc_state \<Rightarrow> (real \<times> osc_state) option" where
  "ssb_carrier_sample frame sin_osc =
     Some (f32 (fst frame + f32 (snd frame * osc_get_38Khz_sample sin_osc)), osc_increase_phase sin_osc)"

definition ssb_lpf_sample ::
  "'e rds_fun \<Rightarrow> fmmod_control \<Rightarrow> real \<Rightarrow> 'e mpx_state \<Rightarrow> (real \<times> 'e mpx_state) option" where
  "ssb_lpf_sample rds_next ctl out s =
     mpx_finish rds_next ctl (f32 (out + f32 (pilot_gain ctl * osc_get_19Khz_sample (fst s)))) s"

definition fmmod_ssb_lpf_generator ::
  "dft_fun \<Rightarrow> ift_fun \<Rightarrow> 'e rds_fun \<Rightarrow> 'e fmmod_instance \<Rightarrow> real list \<Rightarrow> real list \<Rightarrow> nat \<Rightarrow> real list \<Rightarrow>
   (real list \<times> 'e fmmod_instance) option" where
  "fmmod_ssb_lpf_generator dft ift rds_next fmmod lpr lmr num_samples out =
     do {
       lpr \<leftarrow> mem_read 0 num_samples lpr;
       out \<leftarrow> mem_write 0 lpr out;
       let saved_phase = current_phase (fm_sin_osc fmmod);
       lmr \<leftarrow> mem_read 0 num_samples lmr;
       (mixed, sin_osc) \<leftarrow> mpx_loop ssb_carrier_sample (zip lpr lmr) (fm_sin_osc fmmod);
       out \<leftarrow> mem_write 0 mixed out;
       let sin_osc = sin_osc\<lparr>current_phase := saved_phase\<rparr>;
       (out, lpf) \<leftarrow> lpf_filter_apply dft ift (ssb_lpf (fm_flts fmmod)) out out (of_nat num_samples)
                       (f32 (f64 (stereo_carrier_gain (fm_ctl fmmod) * 2)));
       filtered \<leftarrow> mem_read 0 num_samples out;
       (res, sin_osc, enc) \<leftarrow> mpx_loop (ssb_lpf_sample rds_next (fm_ctl fmmod)) filtered (sin_osc, fm_rds_enc fmmod);
       out \<leftarrow> mem_write 0 res out;
       Some (out, fmmod\<lparr>fm_sin_osc := sin_osc, fm_rds_enc := enc, fm_flts := (fm_flts fmmod)\<lparr>ssb_lpf := lpf\<rparr>\<rparr>)
     }"

text \<open>A frame of the Hartley modulator is the shifted sample with L + R and L - R.\<close>

definition hartley_sample ::
  "'e rds_fun \<Rightarrow> fmmod_control \<Rightarrow> real \<times> real \<times> real \<Rightarrow> osc_state \<times> osc_state \<times> 'e \<Rightarrow>
   (real \<times> osc_state \<times> osc_state \<times> 'e) option" where
  "hartley_sample rds_next ctl frame s =
     (case (frame, s) of ((shifted, lpr, lmr), (cos_osc, sin_osc, enc)) \<Rightarrow>
        do {
          let cos_osc = cos_osc\<lparr>current_phase := current_phase sin_osc\<rparr>;
          let out = f32 (shifted * osc_get_sample_for_freq cos_osc 38000);
          let out = f32 (out + f32 (lmr * osc_get_sample_for_freq sin_osc 38000));
          let out = f32 (f64 (out * f64 (stereo_carrier_gain ctl * 1.5)));
          let out = f32 (out + lpr);
          let out = f32 (out + f32 (pilot_gain ctl * osc_get_19Khz_sample sin_osc));
          (out, sin_osc, enc) \<leftarrow> mpx_finish rds_next ctl out (sin_osc, enc);
          Some (out, cos_osc, sin_osc, enc)
        })"

definition fmmod_ssb_hartley_generator ::
  "dft_fun \<Rightarrow> ift_fun \<Rightarrow> 'e rds_fun \<Rightarrow> 'e fmmod_instance \<Rightarrow> real list \<Rightarrow> real list \<Rightarrow> nat \<Rightarrow> real list \<Rightarrow>
   (real list \<times> 'e fmmod_instance) option" where
  "fmmod_ssb_hartley_generator dft ift rds_next fmmod lpr lmr num_samples out =
     do {
       ht \<leftarrow> hilbert_transformer_apply dft ift (hilb (fm_flts fmmod)) lmr (of_nat num_samples);
       (hrb, rb) \<leftarrow> ht_real_buff ht;
       shifted \<leftarrow> mem_read 0 num_samples rb;
       lpr \<leftarrow> mem_read 0 num_samples lpr;
       lmr \<leftarrow> mem_read 0 num_samples lmr;
       (res, cos_osc, sin_osc, enc) \<leftarrow> mpx_loop (hartley_sample rds_next (fm_ctl fmmod)) (zip shifted (zip lpr lmr))
                                          (fm_cos_osc fmmod, fm_sin_osc fmmod, fm_rds_enc fmmod);
       out \<leftarrow> mem_write 0 res out;
       Some (out, fmmod\<lparr>fm_cos_osc := cos_osc, fm_sin_osc := sin_osc, fm_rds_enc := enc,
                        fm_flts := (fm_flts fmmod)\<lparr>hilb := ht\<rparr>\<rparr>)
     }"

subsection \<open>Output\<close>

text \<open>
  What the system answers: the descriptor of the socket (negative when nobody reads it), the number of
  bytes written or a negative result, whether it failed with \<^verbatim>\<open>EPIPE\<close>, and the size of the buffer from the RTP pool.
\<close>

record io_result =
  io_open :: int
  io_write :: int
  io_epipe :: bool
  io_pool :: "nat option"

definition write_to_sock :: "io_result \<Rightarrow> 'e fmmod_instance \<Rightarrow> real list \<Rightarrow> 'e fmmod_instance" where
  "write_to_sock io fmmod samples =
     (let fd = (if fm_out_sock_fd fmmod = 0 then io_open io else fm_out_sock_fd fmmod) in
      if fd < 0 then fmmod\<lparr>fm_out_sock_fd := 0\<rparr>
      else if io_write io < 0 then
        (if io_epipe io then fmmod\<lparr>fm_out_sock_fd := 0\<rparr> else fmmod\<lparr>fm_out_sock_fd := fd\<rparr>)
      else fmmod\<lparr>fm_out_sock_fd := fd, fm_sock_out := fm_sock_out fmmod @ [take (nat (io_write io) div 4) samples]\<rparr>)"

subsection \<open>Processing a period\<close>

text \<open>The libraries.\<close>

record ('e, 's) fmmod_env =
  env_dft :: dft_fun
  env_ift :: ift_fun
  env_soxr :: "'s soxr_fun"
  env_order :: channel_order
  env_rds :: "'e rds_fun"

abbreviation (input) EBUSY :: int where "EBUSY \<equiv> 16"

text \<open>\<^verbatim>\<open>done:\<close> a negative code is reported with a signal.\<close>

definition fmmod_process_done :: "int \<Rightarrow> 'e fmmod_instance \<Rightarrow> 'e fmmod_instance" where
  "fmmod_process_done ret fmmod = (if ret < 0 then fmmod\<lparr>fm_raised := fm_raised fmmod + 1\<rparr> else fmmod)"

definition fmmod_audio_lpf ::
  "('e, 's) fmmod_env \<Rightarrow> 'e fmmod_instance \<Rightarrow> (real list \<times> real list \<times> 'e fmmod_instance) option" where
  "fmmod_audio_lpf env fmmod =
     do {
       (hl, left_in) \<leftarrow> fm_inbuf_l fmmod;
       (hr, right_in) \<leftarrow> fm_inbuf_r fmmod;
       if use_audio_lpf (fm_ctl fmmod) \<noteq> 0 then
         do {
           let flts = fm_flts fmmod;
           let n = ucast (fm_num_in_samples fmmod);
           (left_in, l) \<leftarrow> lpf_filter_apply (env_dft env) (env_ift env) (lpf_l flts) left_in left_in n 1;
           (right_in, r) \<leftarrow> lpf_filter_apply (env_dft env) (env_ift env) (lpf_r flts) right_in right_in n 1;
           Some (left_in, right_in,
                 fmmod\<lparr>fm_inbuf_l := Some (hl, left_in), fm_inbuf_r := Some (hr, right_in),
                       fm_flts := flts\<lparr>lpf_l := l, lpf_r := r\<rparr>\<rparr>)
         }
       else Some (left_in, right_in, fmmod)
     }"

definition get_mpx_samples ::
  "('e, 's) fmmod_env \<Rightarrow> 'e fmmod_instance \<Rightarrow> real list \<Rightarrow> real list \<Rightarrow> nat \<Rightarrow> real list \<Rightarrow>
   (real list \<times> 'e fmmod_instance) option" where
  "get_mpx_samples env fmmod lpr lmr n out =
     (if stereo_modulation (fm_ctl fmmod) = FMMOD_MONO then fmmod_mono_generator (env_rds env) fmmod lpr lmr n out
      else if stereo_modulation (fm_ctl fmmod) = FMMOD_SSB_HARTLEY then
        fmmod_ssb_hartley_generator (env_dft env) (env_ift env) (env_rds env) fmmod lpr lmr n out
      else if stereo_modulation (fm_ctl fmmod) = FMMOD_SSB_LPF then
        fmmod_ssb_lpf_generator (env_dft env) (env_ift env) (env_rds env) fmmod lpr lmr n out
      else fmmod_dsb_generator (env_rds env) fmmod lpr lmr n out)"

text \<open>L + R and L - R.\<close>

definition stereo_matrix :: "real list \<Rightarrow> real list \<Rightarrow> real list \<times> real list" where
  "stereo_matrix l r = (map2 (\<lambda>l r. f32 (l + r)) l r, map2 (\<lambda>l r. f32 (l - r)) l r)"

text \<open>The peak of the output and the output itself.\<close>

definition fmmod_output :: "io_result \<Rightarrow> 'e fmmod_instance \<Rightarrow> real list \<Rightarrow> int \<Rightarrow> 'e fmmod_instance option" where
  "fmmod_output io fmmod outbuf frames_generated =
     do {
       frames \<leftarrow> mem_read 0 (nat frames_generated) outbuf;
       let fmmod = fmmod\<lparr>fm_ctl := (fm_ctl fmmod)\<lparr>peak_mpx_out := fold (\<lambda>x peak. if x > peak then x else peak) frames 0\<rparr>\<rparr>;
       if word_of_int frames_generated \<noteq> fm_num_out_samples fmmod then Some (fmmod_process_done 0 fmmod)
       else
         do {
           let fmmod = write_to_sock io fmmod frames;
           queue \<leftarrow> rtp_server_send_buffer (Some (fm_rtpsrv fmmod)) (Some outbuf) frames_generated (io_pool io) (fm_rtp_queue fmmod);
           Some (fmmod_process_done 0 (fmmod\<lparr>fm_rtp_queue := queue\<rparr>))
         }
     }"

text \<open>From the upsampled audio to the output, with the number of frames that were generated.\<close>

definition fmmod_mpx ::
  "('e, 's) fmmod_env \<Rightarrow> io_result \<Rightarrow> nat \<Rightarrow> 'e fmmod_instance \<Rightarrow> 's \<Rightarrow> ('e fmmod_instance \<times> 's) option" where
  "fmmod_mpx env io frames_generated fmmod s =
     do {
       (hl, upl) \<leftarrow> fm_uaudio_buf_0 fmmod;
       (hr, upr) \<leftarrow> fm_uaudio_buf_1 fmmod;
       l \<leftarrow> mem_read 0 frames_generated upl;
       r \<leftarrow> mem_read 0 frames_generated upr;
       lpr \<leftarrow> mem_write 0 (fst (stereo_matrix l r)) upl;
       lmr \<leftarrow> mem_write 0 (snd (stereo_matrix l r)) upr;
       let fmmod = fmmod\<lparr>fm_uaudio_buf_0 := Some (hl, lpr), fm_uaudio_buf_1 := Some (hr, lmr)\<rparr>;
       (hm, umpx) \<leftarrow> fm_umpxbuf fmmod;
       (umpx, fmmod) \<leftarrow> get_mpx_samples env fmmod lpr lmr frames_generated umpx;
       (ho, outbuf) \<leftarrow> fm_outbuf fmmod;
       (frames, outbuf, s) \<leftarrow>
         resampler_downsample_mpx (env_soxr env) (fm_rsmpl fmmod) umpx outbuf frames_generated
           (unat (fm_num_out_samples fmmod)) s;
       let fmmod = fmmod\<lparr>fm_umpxbuf := Some (hm, umpx), fm_outbuf := Some (ho, outbuf)\<rparr>;
       if frames \<le> 0 then
         Some (fmmod_process_done (if frames < 0 then FMMOD_ERR_RESAMPLER_ERR else 0) fmmod, s)
       else do { fmmod \<leftarrow> fmmod_output io fmmod outbuf frames; Some (fmmod, s) }
     }"

text \<open>\<open>lock\<close> is the result of \<^verbatim>\<open>pthread_mutex_trylock\<close> on the input buffers.\<close>

definition fmmod_process ::
  "('e, 's) fmmod_env \<Rightarrow> int \<Rightarrow> io_result \<Rightarrow> 'e fmmod_instance \<times> 's \<Rightarrow> ('e fmmod_instance \<times> 's) option" where
  "fmmod_process env lock io fs =
     (case fs of (fmmod, s) \<Rightarrow>
        if lock \<noteq> 0 then Some (if lock = EBUSY then fmmod else fmmod_process_done lock fmmod, s)
        else
          do {
            (left_in, right_in, fmmod) \<leftarrow> fmmod_audio_lpf env fmmod;
            (hl, upl) \<leftarrow> fm_uaudio_buf_0 fmmod;
            (hr, upr) \<leftarrow> fm_uaudio_buf_1 fmmod;
            (frames, rsmpl, upl, upr, s) \<leftarrow>
              resampler_upsample_audio (env_order env) (env_soxr env) (fm_rsmpl fmmod) left_in right_in upl upr
                (unat (fm_num_in_samples fmmod)) (unat (fm_upsampled_num_samples fmmod)) s;
            let fmmod = fmmod\<lparr>fm_rsmpl := rsmpl, fm_uaudio_buf_0 := Some (hl, upl), fm_uaudio_buf_1 := Some (hr, upr)\<rparr>;
            if frames \<le> 0 then
              Some (fmmod_process_done (if frames < 0 then FMMOD_ERR_RESAMPLER_ERR else 0) fmmod, s)
            else fmmod_mpx env io (nat frames) fmmod s
          })"

subsection \<open>The JACK callback\<close>

text \<open>The pre-emphasis of a period: both channels alternate and share the static variable.\<close>

fun preemph_period ::
  "int \<Rightarrow> (real \<times> real) list \<Rightarrow> fmpreemph_filter_data \<times> fmpreemph_filter_data \<times> int \<Rightarrow>
   (real \<times> real) list \<times> fmpreemph_filter_data \<times> fmpreemph_filter_data \<times> int" where
  "preemph_period tau [] s = ([], s)"
| "preemph_period tau ((l, r) # frames) (fl, fr, prev) =
     (let (yl, fl, prev) = fmpreemph_filter_apply prev fl l tau;
          (yr, fr, prev) = fmpreemph_filter_apply prev fr r tau;
          (ys, s) = preemph_period tau frames (fl, fr, prev)
      in ((yl, yr) # ys, s))"

definition fmmod_process_cb ::
  "32 word \<Rightarrow> int \<Rightarrow> real list \<Rightarrow> real list \<Rightarrow> 'e fmmod_instance \<Rightarrow> (int \<times> 'e fmmod_instance) option" where
  "fmmod_process_cb num_samples lock left_in right_in fmmod =
     (if \<not> fm_active fmmod then Some (0, fmmod)
      else if num_samples = 0 \<or> num_samples < fm_num_in_samples fmmod then Some (0, fmmod)
      else if num_samples > fm_num_in_samples fmmod then Some (FMMOD_ERR_INVALID_INPUT, fmmod)
      else if lock \<noteq> 0 then Some (0, fmmod)
      else
        do {
          let n = unat num_samples;
          let ctl = fm_ctl fmmod;
          let flts = fm_flts fmmod;
          l \<leftarrow> mem_read 0 n left_in;
          r \<leftarrow> mem_read 0 n right_in;
          (hl, inbuf_l) \<leftarrow> fm_inbuf_l fmmod;
          (hr, inbuf_r) \<leftarrow> fm_inbuf_r fmmod;
          let (frames, fl, fr, prev) =
            (if preemph_tau ctl \<noteq> LPF_PREEMPH_NONE
             then preemph_period (preemph_tau ctl) (zip l r) (fmprf_l flts, fmprf_r flts, fm_prev_tau_mode fmmod)
             else (zip l r, fmprf_l flts, fmprf_r flts, fm_prev_tau_mode fmmod));
          let l = map (\<lambda>x. f32 (fst x * audio_gain ctl)) frames;
          let r = map (\<lambda>x. f32 (snd x * audio_gain ctl)) frames;
          inbuf_l \<leftarrow> mem_write 0 l inbuf_l;
          inbuf_r \<leftarrow> mem_write 0 r inbuf_r;
          Some (0, fmmod\<lparr>fm_inbuf_l := Some (hl, inbuf_l), fm_inbuf_r := Some (hr, inbuf_r),
                         fm_flts := flts\<lparr>fmprf_l := fl, fmprf_r := fr\<rparr>, fm_prev_tau_mode := prev,
                         fm_ctl := ctl\<lparr>peak_audio_in_l := fold (\<lambda>x peak. if x > peak then x else peak) l 0,
                                       peak_audio_in_r := fold (\<lambda>x peak. if x > peak then x else peak) r 0\<rparr>\<rparr>)
        })"

subsection \<open>The processing thread\<close>

text \<open>
  The loop waits for the trigger; \<open>others k\<close> is what the other threads do to the modulator until the
  \<open>k\<close>-th time it wakes up, and \<open>lock k\<close> and \<open>io k\<close> what the system answers then.
\<close>

partial_function (option) fmmod_process_loop ::
  "('e, 's) fmmod_env \<Rightarrow> (nat \<Rightarrow> 'e fmmod_instance \<times> 's \<Rightarrow> 'e fmmod_instance \<times> 's) \<Rightarrow> (nat \<Rightarrow> int) \<Rightarrow>
   (nat \<Rightarrow> io_result) \<Rightarrow> nat \<Rightarrow> 'e fmmod_instance \<times> 's \<Rightarrow> (nat \<times> 'e fmmod_instance \<times> 's) option" where
  "fmmod_process_loop env others lock io k fs =
     (if \<not> fm_active (fst fs) then Some (k, fs)
      else
        let fs = others k fs in
        if \<not> fm_active (fst fs) then Some (k, fs)
        else fmmod_process env (lock k) (io k) fs \<bind> fmmod_process_loop env others lock io (k + 1))"

subsection \<open>The contract of the RDS encoder\<close>

text \<open>
  While the encoder plays, every call gives a sample whose magnitude is at most \<open>B\<close>, and the
  encoder goes on playing.
\<close>

locale rds_source =
  fixes rds_next :: "'e rds_fun" and playing :: "'e \<Rightarrow> bool" and B :: real
  assumes next_sample: "playing e \<Longrightarrow> \<exists>y e'. rds_next e = Some (y, e') \<and> \<bar>y\<bar> \<le> B \<and> playing e'"

lemma mpx_loop_run:
  assumes "\<And>k x s. x \<in> set xs \<Longrightarrow> I k s \<Longrightarrow> \<exists>y s'. step x s = Some (y, s') \<and> P y \<and> I (Suc k) s'" and "I k s"
  shows "\<exists>ys s'. mpx_loop step xs s = Some (ys, s') \<and> length ys = length xs \<and> (\<forall>y \<in> set ys. P y) \<and>
    I (k + length xs) s'"
  using assms
proof (induction xs arbitrary: k s)
  case (Cons x xs)
  obtain y t where y: "step x s = Some (y, t)" "P y" "I (Suc k) t" using Cons.prems by fastforce
  obtain ys u where ys: "mpx_loop step xs t = Some (ys, u)" "length ys = length xs" "\<forall>y \<in> set ys. P y"
    "I (Suc k + length xs) u"
    using Cons.IH [of "Suc k" t] Cons.prems(1) y(3) by (metis list.set_intros(2))
  show ?case
    by (intro exI [of _ "y # ys"] exI [of _ u]) (use y ys in simp)
qed simp

subsection \<open>The deviation of the multiplex signal\<close>

text \<open>The magnitude of a rounded value, for values up to 8.\<close>

abbreviation (input) ulp8 :: real where "ulp8 \<equiv> 1 / 2 ^ 21"

lemma f32_within:
  assumes "\<bar>x\<bar> \<le> b" "b \<le> 8"
  shows "\<bar>f32 x\<bar> \<le> b + ulp8"
proof -
  have "\<bar>float_round 24 (- 149) x - x\<bar> \<le> 2 powi (3 - int 24)"
    using assms by (intro float_round_error) simp_all
  then have "\<bar>f32 x - x\<bar> \<le> ulp8" by (simp add: f32_def power_int_minus field_simps)
  then show ?thesis using assms by linarith
qed

lemma f32_sum_within: "\<bar>a\<bar> \<le> A \<Longrightarrow> \<bar>b\<bar> \<le> C \<Longrightarrow> A + C \<le> 8 \<Longrightarrow> \<bar>f32 (a + b)\<bar> \<le> (A + C) + ulp8"
  by (rule f32_within) linarith+

lemma mult_within:
  fixes a b :: real
  assumes "\<bar>a\<bar> \<le> A" "\<bar>b\<bar> \<le> C"
  shows "\<bar>a * b\<bar> \<le> A * C"
  unfolding abs_mult using assms by (intro mult_mono) auto

lemma unit_within:
  fixes a b :: real
  assumes "\<bar>a\<bar> \<le> A" "\<bar>b\<bar> \<le> 1"
  shows "\<bar>a * b\<bar> \<le> A"
  using mult_within [OF assms] by simp

definition gains_ok :: "fmmod_control \<Rightarrow> bool" where
  "gains_ok ctl \<longleftrightarrow> (\<forall>g \<in> {pilot_gain ctl, rds_gain ctl, stereo_carrier_gain ctl, mpx_gain ctl}. 0 \<le> g \<and> g \<le> 1)"

text \<open>The largest deviation, without the rounding.\<close>

definition max_deviation :: "fmmod_control \<Rightarrow> real \<Rightarrow> real \<Rightarrow> real" where
  "max_deviation ctl M B = mpx_gain ctl * (2 * M + pilot_gain ctl + rds_gain ctl * B)"

lemma osc_carrier_bound:
  "\<bar>osc_get_19Khz_sample osc\<bar> \<le> 1" "\<bar>osc_get_38Khz_sample osc\<bar> \<le> 1" "\<bar>osc_get_57Khz_sample osc\<bar> \<le> 1"
  by (simp_all add: osc_get_19Khz_sample_def osc_get_38Khz_sample_def osc_get_57Khz_sample_def osc_sample_bound)

context rds_source
begin

lemma mpx_finish_within:
  assumes "playing enc" "gains_ok ctl" "\<bar>out\<bar> \<le> 2 * M + pilot_gain ctl + 8 * ulp8" "0 \<le> M" "M \<le> 1" "B \<le> 2"
  shows "\<exists>y enc'. mpx_finish rds_next ctl out (osc, enc) = Some (y, osc_increase_phase osc, enc') \<and>
    \<bar>y\<bar> \<le> max_deviation ctl M B + 1 / 2 ^ 17 \<and> playing enc'"
proof -
  obtain x enc' where x: "rds_next enc = Some (x, enc')" "\<bar>x\<bar> \<le> B" "playing enc'"
    using next_sample [OF assms(1)] by blast
  let ?g = "rds_gain ctl" and ?m = "mpx_gain ctl" and ?p = "pilot_gain ctl"
  have g: "0 \<le> ?g" "?g \<le> 1" "0 \<le> ?m" "?m \<le> 1" "0 \<le> ?p" "?p \<le> 1" using assms(2) by (simp_all add: gains_ok_def)
  have B: "0 \<le> B" using x(2) by linarith
  have gB: "?g * B \<le> 2" "0 \<le> ?g * B" "(?g + ulp8) * B \<le> ?g * B + 2 * ulp8"
    using mult_mono [of ?g 1 B 2] g B assms(6) by (simp_all add: distrib_right)
  have "\<bar>f32 (?g * osc_get_57Khz_sample osc)\<bar> \<le> ?g + ulp8"
    using g by (intro f32_within unit_within osc_carrier_bound) auto
  from mult_within [OF this x(2)] have "\<bar>f32 (?g * osc_get_57Khz_sample osc) * x\<bar> \<le> ?g * B + 2 * ulp8"
    using gB(3) by linarith
  then have r: "\<bar>f32 (f32 (?g * osc_get_57Khz_sample osc) * x)\<bar> \<le> (?g * B + 2 * ulp8) + ulp8"
    using gB by (intro f32_within) auto
  let ?S = "2 * M + ?p + ?g * B"
  define o4 where "o4 = f32 (out + f32 (f32 (?g * osc_get_57Khz_sample osc) * x))"
  have o4: "\<bar>o4\<bar> \<le> (?S + 11 * ulp8) + ulp8"
    unfolding o4_def using r assms(3,4,5) gB g by (intro f32_within) (auto simp: abs_le_iff)
  have m: "?S * ?m + 12 * ulp8 * ?m \<le> max_deviation ctl M B + 12 * ulp8"
    using g by (simp add: max_deviation_def algebra_simps)
  have "\<bar>o4 * ?m\<bar> \<le> (?S + 12 * ulp8) * ?m" using mult_within [OF o4, of ?m ?m] g by (simp add: algebra_simps)
  also have "\<dots> \<le> max_deviation ctl M B + 12 * ulp8" using m by (simp add: distrib_right)
  finally have o5: "\<bar>o4 * ?m\<bar> \<le> max_deviation ctl M B + 12 * ulp8" .
  have "max_deviation ctl M B \<le> 1 * 5"
    unfolding max_deviation_def using g gB assms(4,5) by (intro mult_mono) auto
  then have "\<bar>f32 (o4 * ?m)\<bar> \<le> (max_deviation ctl M B + 12 * ulp8) + ulp8"
    using o5 by (intro f32_within) auto
  then show ?thesis using x by (simp add: mpx_finish_def o4_def [symmetric] Let_def)
qed

end

text \<open>
  The loops: the oscillator advances once per sample. \<open>plays playing step P x\<close>: an iteration on the frame \<open>x\<close>
  gives a sample with the property \<open>P\<close>.
\<close>

definition plays :: "('e \<Rightarrow> bool) \<Rightarrow> ('x \<Rightarrow> 'e mpx_state \<Rightarrow> (real \<times> 'e mpx_state) option) \<Rightarrow> (real \<Rightarrow> bool) \<Rightarrow> 'x \<Rightarrow> bool" where
  "plays playing step P x \<longleftrightarrow> (\<forall>osc enc. playing enc \<longrightarrow>
     (\<exists>y enc'. step x (osc, enc) = Some (y, osc_increase_phase osc, enc') \<and> P y \<and> playing enc'))"

text \<open>A frame: the sum and the difference of two samples of at most \<open>M\<close>.\<close>

definition frame_ok :: "real \<Rightarrow> real \<times> real \<Rightarrow> bool" where
  "frame_ok M x \<longleftrightarrow> \<bar>fst x\<bar> + \<bar>snd x\<bar> \<le> 2 * M + 2 * ulp8"

lemma stereo_matrix_frames:
  assumes "\<forall>x \<in> set l \<union> set r. \<bar>x\<bar> \<le> M" "M \<le> 1" "x \<in> set (zip (fst (stereo_matrix l r)) (snd (stereo_matrix l r)))"
  shows "frame_ok M x"
proof -
  have "zip (fst (stereo_matrix l r)) (snd (stereo_matrix l r)) = map (\<lambda>(l, r). (f32 (l + r), f32 (l - r))) (zip l r)"
    by (simp add: stereo_matrix_def zip_map_map zip_same_conv_map case_prod_beta)
  with assms(3) obtain a b where ab: "(a, b) \<in> set (zip l r)" "x = (f32 (a + b), f32 (a - b))" by auto
  have M: "\<bar>a\<bar> \<le> M" "\<bar>b\<bar> \<le> M"
    using assms(1) set_zip_leftD [OF ab(1)] set_zip_rightD [OF ab(1)] by auto
  have "\<bar>f32 (a + b)\<bar> \<le> \<bar>a + b\<bar> + ulp8" "\<bar>f32 (a - b)\<bar> \<le> \<bar>a - b\<bar> + ulp8"
    using M assms(2) by - (rule f32_within, simp, linarith)+
  moreover have "\<bar>a + b\<bar> + \<bar>a - b\<bar> \<le> 2 * M" using M by linarith
  ultimately show ?thesis using ab(2) by (simp add: frame_ok_def)
qed

context rds_source
begin

lemma dsb_sample_within:
  assumes "playing enc" "gains_ok ctl" "frame_ok M x" "0 \<le> M" "M \<le> 1" "B \<le> 2"
  shows "\<exists>y enc'. dsb_sample rds_next ctl x (osc, enc) = Some (y, osc_increase_phase osc, enc') \<and>
    \<bar>y\<bar> \<le> max_deviation ctl M B + 1 / 2 ^ 17 \<and> playing enc'"
proof -
  let ?p = "pilot_gain ctl" and ?c = "stereo_carrier_gain ctl"
  have g: "0 \<le> ?p" "?p \<le> 1" "0 \<le> ?c" "?c \<le> 1" using assms(2) by (simp_all add: gains_ok_def)
  have fr: "\<bar>fst x\<bar> + \<bar>snd x\<bar> \<le> 2 * M + 2 * ulp8" using assms(3) by (simp add: frame_ok_def)
  have "\<bar>f32 (?p * osc_get_19Khz_sample osc)\<bar> \<le> ?p + ulp8"
    using g by (intro f32_within unit_within osc_carrier_bound) auto
  then have pilot: "\<bar>f32 (fst x + f32 (?p * osc_get_19Khz_sample osc))\<bar> \<le> (\<bar>fst x\<bar> + (?p + ulp8)) + ulp8"
    using fr g assms(4,5) by (intro f32_sum_within) auto
  have "\<bar>f32 (snd x * osc_get_38Khz_sample osc)\<bar> \<le> \<bar>snd x\<bar> + ulp8"
    using fr assms(5) by (intro f32_within unit_within osc_carrier_bound) auto
  from f32_within [OF unit_within [OF this, of ?c]]
  have diff: "\<bar>f32 (f32 (snd x * osc_get_38Khz_sample osc) * ?c)\<bar> \<le> (\<bar>snd x\<bar> + ulp8) + ulp8"
    using fr g assms(5) by auto
  have "\<bar>f32 (f32 (fst x + f32 (?p * osc_get_19Khz_sample osc)) +
      f32 (f32 (snd x * osc_get_38Khz_sample osc) * ?c))\<bar> \<le>
      (((\<bar>fst x\<bar> + (?p + ulp8)) + ulp8) + ((\<bar>snd x\<bar> + ulp8) + ulp8)) + ulp8"
    by (rule f32_sum_within [OF pilot diff]) (use fr g assms(4,5) in simp)
  then show ?thesis
    unfolding dsb_sample_def Let_def fst_conv using fr assms by (intro mpx_finish_within) auto
qed

lemma mono_sample_within:
  assumes "playing enc" "gains_ok ctl" "\<bar>x\<bar> \<le> 2 * M + 2 * ulp8" "0 \<le> M" "M \<le> 1" "B \<le> 2"
  shows "\<exists>y enc'. mono_sample rds_next ctl (x, 0) (osc, enc) = Some (y, osc_increase_phase osc, enc') \<and>
    \<bar>y\<bar> \<le> max_deviation ctl M B + 1 / 2 ^ 17 \<and> playing enc'"
proof -
  have "0 \<le> pilot_gain ctl" using assms(2) by (simp add: gains_ok_def)
  then show ?thesis unfolding mono_sample_def fst_conv using assms by (intro mpx_finish_within) auto
qed

lemma mpx_loop_plays:
  assumes "playing enc" "\<forall>x \<in> set xs. plays playing step P x"
  shows "\<exists>ys enc'. mpx_loop step xs (osc, enc) = Some (ys, (osc_increase_phase ^^ length xs) osc, enc') \<and>
    length ys = length xs \<and> (\<forall>y \<in> set ys. P y) \<and> playing enc'"
proof -
  let ?I = "\<lambda>k s. fst s = (osc_increase_phase ^^ k) osc \<and> playing (snd s)"
  have step: "\<exists>y s'. step x s = Some (y, s') \<and> P y \<and> ?I (Suc k) s'" if xs: "x \<in> set xs" and s: "?I k s" for k x s
  proof -
    obtain y enc' where "step x (fst s, snd s) = Some (y, osc_increase_phase (fst s), enc')" "P y" "playing enc'"
      using assms(2) xs s unfolding plays_def by meson
    then show ?thesis using s by (cases s) auto
  qed
  show ?thesis
    using mpx_loop_run [of xs ?I step P 0 "(osc, enc)", OF step] assms(1) by fastforce
qed

text \<open>The generators without a single side band.\<close>

lemma get_mpx_plays:
  assumes "env_rds env = rds_next" "playing (fm_rds_enc fmmod)"
    and "stereo_modulation (fm_ctl fmmod) \<notin> {FMMOD_SSB_HARTLEY, FMMOD_SSB_LPF}"
    and "n \<le> length lpr" "n \<le> length lmr" "n \<le> length out"
    and dsb: "\<forall>x \<in> set (zip (take n lpr) (take n lmr)). plays playing (dsb_sample rds_next (fm_ctl fmmod)) P x"
    and mono: "\<forall>x \<in> set (take n lpr). plays playing (\<lambda>x. mono_sample rds_next (fm_ctl fmmod) (x, 0)) P x"
  shows "\<exists>ys enc'. get_mpx_samples env fmmod lpr lmr n out =
      Some (ys @ drop n out, fmmod\<lparr>fm_sin_osc := (osc_increase_phase ^^ n) (fm_sin_osc fmmod), fm_rds_enc := enc'\<rparr>) \<and>
    length ys = n \<and> (\<forall>y \<in> set ys. P y) \<and> playing enc'"
proof -
  have len: "length (take n lpr) = n" "length (zip (take n lpr) (take n lmr)) = n" using assms(4,5) by simp_all
  show ?thesis
  proof (cases "stereo_modulation (fm_ctl fmmod) = FMMOD_MONO")
    case True
    obtain ys enc' where "mpx_loop (\<lambda>x. mono_sample rds_next (fm_ctl fmmod) (x, 0)) (take n lpr) (fm_sin_osc fmmod, fm_rds_enc fmmod) =
        Some (ys, (osc_increase_phase ^^ n) (fm_sin_osc fmmod), enc')" "length ys = n" "\<forall>y \<in> set ys. P y" "playing enc'"
      using mpx_loop_plays [OF assms(2) mono, of "fm_sin_osc fmmod"] unfolding len by blast
    then show ?thesis
      using True assms(1,4,6)
      by (intro exI [of _ ys] exI [of _ enc'])
        (simp add: get_mpx_samples_def fmmod_mono_generator_def mem_read_def mem_write_def)
  next
    case False
    obtain ys enc' where "mpx_loop (dsb_sample rds_next (fm_ctl fmmod)) (zip (take n lpr) (take n lmr)) (fm_sin_osc fmmod, fm_rds_enc fmmod) =
        Some (ys, (osc_increase_phase ^^ n) (fm_sin_osc fmmod), enc')" "length ys = n" "\<forall>y \<in> set ys. P y" "playing enc'"
      using mpx_loop_plays [OF assms(2) dsb, of "fm_sin_osc fmmod"] unfolding len by blast
    then show ?thesis
      using False assms(1,3-6)
      by (intro exI [of _ ys] exI [of _ enc'])
        (simp add: get_mpx_samples_def fmmod_dsb_generator_def mem_read_def mem_write_def)
  qed
qed

lemma finish_plays: "playing enc \<Longrightarrow> \<exists>y enc'. mpx_finish rds_next ctl out (osc, enc) = Some (y, osc_increase_phase osc, enc') \<and> playing enc'"
  using next_sample [of enc] by (auto simp: mpx_finish_def Let_def)

lemma samples_play: "plays playing (dsb_sample rds_next ctl) (\<lambda>_. True) x" "plays playing (\<lambda>x. mono_sample rds_next ctl (x, 0)) (\<lambda>_. True) z"
  using finish_plays by (simp_all add: plays_def dsb_sample_def mono_sample_def Let_def)

lemma get_mpx_within:
  assumes "env_rds env = rds_next" "playing (fm_rds_enc fmmod)"
    and "stereo_modulation (fm_ctl fmmod) \<notin> {FMMOD_SSB_HARTLEY, FMMOD_SSB_LPF}" "gains_ok (fm_ctl fmmod)"
    and "\<forall>x \<in> set l \<union> set r. \<bar>x\<bar> \<le> M" "0 \<le> M" "M \<le> 1" "B \<le> 2" "length r = length l" "length l \<le> length out"
  shows "\<exists>ys enc'. get_mpx_samples env fmmod (fst (stereo_matrix l r)) (snd (stereo_matrix l r)) (length l) out =
      Some (ys @ drop (length l) out,
        fmmod\<lparr>fm_sin_osc := (osc_increase_phase ^^ length l) (fm_sin_osc fmmod), fm_rds_enc := enc'\<rparr>) \<and>
    length ys = length l \<and> (\<forall>y \<in> set ys. \<bar>y\<bar> \<le> max_deviation (fm_ctl fmmod) M B + 1 / 2 ^ 17) \<and> playing enc'"
proof -
  let ?a = "fst (stereo_matrix l r)" and ?b = "snd (stereo_matrix l r)"
  let ?P = "\<lambda>y. \<bar>y\<bar> \<le> max_deviation (fm_ctl fmmod) M B + 1 / 2 ^ 17"
  have len: "length ?a = length l" "length ?b = length l" using assms(9) by (simp_all add: stereo_matrix_def)
  have fr: "frame_ok M x" if "x \<in> set (zip ?a ?b)" for x
    using stereo_matrix_frames [OF assms(5,7) that] .
  have "\<bar>x\<bar> \<le> 2 * M + 2 * ulp8" if x: "x \<in> set ?a" for x
  proof -
    obtain y where "(x, y) \<in> set (zip ?a ?b)"
      using x len in_set_impl_in_set_zip1 [of ?a ?b x] by metis
    then show ?thesis using fr [of "(x, y)"] by (simp add: frame_ok_def)
  qed
  then have mono: "\<forall>x \<in> set ?a. plays playing (\<lambda>x. mono_sample rds_next (fm_ctl fmmod) (x, 0)) ?P x"
    using mono_sample_within [OF _ assms(4) _ assms(6-8)] unfolding plays_def by blast
  have dsb: "\<forall>x \<in> set (zip ?a ?b). plays playing (dsb_sample rds_next (fm_ctl fmmod)) ?P x"
    using dsb_sample_within [OF _ assms(4) fr assms(6-8)] unfolding plays_def by blast
  have t: "take (length l) ?a = ?a" "take (length l) ?b = ?b" using len by simp_all
  show ?thesis
    by (rule get_mpx_plays [OF assms(1-3)]) (use len dsb mono assms(10) in \<open>simp_all only: t order.refl\<close>)
qed

end

subsection \<open>A period never leaves the buffers\<close>

abbreviation (input) buf_len :: "'a buffer \<Rightarrow> nat option" where "buf_len b \<equiv> map_option (length \<circ> snd) b"

definition fmmod_env_ok :: "('e, 's) fmmod_env \<Rightarrow> bool" where
  "fmmod_env_ok env \<longleftrightarrow> fftw_ok (env_dft env) (env_ift env) \<and> soxr_bounded (env_soxr env)"

definition buffers_ok :: "'e fmmod_instance \<Rightarrow> bool" where
  "buffers_ok fmmod \<longleftrightarrow>
     buf_len (fm_inbuf_l fmmod) = Some (unat (fm_num_in_samples fmmod)) \<and>
     buf_len (fm_inbuf_r fmmod) = Some (unat (fm_num_in_samples fmmod)) \<and>
     buf_len (fm_uaudio_buf_0 fmmod) = Some (unat (fm_upsampled_num_samples fmmod)) \<and>
     buf_len (fm_uaudio_buf_1 fmmod) = Some (unat (fm_upsampled_num_samples fmmod)) \<and>
     buf_len (fm_umpxbuf fmmod) = Some (unat (fm_upsampled_num_samples fmmod)) \<and>
     buf_len (fm_outbuf fmmod) = Some (unat (fm_num_out_samples fmmod))"

definition bypass_ok :: "'e fmmod_instance \<Rightarrow> bool" where
  "bypass_ok fmmod \<longleftrightarrow>
     (rs_audio_upsampler_bypass (fm_rsmpl fmmod) \<noteq> 0 \<longrightarrow> unat (fm_num_in_samples fmmod) \<le> unat (fm_upsampled_num_samples fmmod)) \<and>
     (rs_mpx_downsampler_bypass (fm_rsmpl fmmod) \<noteq> 0 \<longrightarrow> unat (fm_upsampled_num_samples fmmod) \<le> unat (fm_num_out_samples fmmod))"

text \<open>The audio filters are initialised for the period, which fits into their 16 bits with its overlap.\<close>

definition audio_lpf_ok :: "'e fmmod_instance \<Rightarrow> bool" where
  "audio_lpf_ok fmmod \<longleftrightarrow>
     (let p = ucast (fm_num_in_samples fmmod) in
      unat p = unat (fm_num_in_samples fmmod) \<and>
      unat (ucast AFLT_LPF_OVERLAP_FACTOR * p) + unat p < 2 ^ 16 \<and>
      (\<exists>resp w. lpf_ready p AFLT_LPF_OVERLAP_FACTOR resp w (lpf_l (fm_flts fmmod))) \<and>
      (\<exists>resp w. lpf_ready p AFLT_LPF_OVERLAP_FACTOR resp w (lpf_r (fm_flts fmmod))))"

definition fmmod_ok :: "('e \<Rightarrow> bool) \<Rightarrow> 'e fmmod_instance \<Rightarrow> bool" where
  "fmmod_ok playing fmmod \<longleftrightarrow> buffers_ok fmmod \<and> bypass_ok fmmod \<and> audio_lpf_ok fmmod \<and>
     playing (fm_rds_enc fmmod) \<and> stereo_modulation (fm_ctl fmmod) \<notin> {FMMOD_SSB_HARTLEY, FMMOD_SSB_LPF}"

lemma length_lpf_output:
  assumes "fftw_ok dft ift" "p \<le> length w"
  shows "length (lpf_output dft ift resp gain p w) = p"
  using assms by (simp add: lpf_output_def Let_def fftw_okD)

lemma fmmod_audio_lpf_ok:
  assumes "fmmod_ok playing fmmod" "fmmod_env_ok env"
  shows "\<exists>l r fmmod'. fmmod_audio_lpf env fmmod = Some (l, r, fmmod') \<and> fmmod_ok playing fmmod' \<and>
    length l = unat (fm_num_in_samples fmmod') \<and> length r = unat (fm_num_in_samples fmmod')"
proof -
  let ?p = "ucast (fm_num_in_samples fmmod) :: 16 word"
  obtain hl l hr r where in_bufs: "fm_inbuf_l fmmod = Some (hl, l)" "fm_inbuf_r fmmod = Some (hr, r)"
    "length l = unat (fm_num_in_samples fmmod)" "length r = unat (fm_num_in_samples fmmod)"
    using assms(1) by (auto simp: fmmod_ok_def buffers_ok_def)
  have p: "unat ?p = unat (fm_num_in_samples fmmod)" "unat (ucast AFLT_LPF_OVERLAP_FACTOR * ?p) + unat ?p < 2 ^ 16"
    using assms(1) unfolding fmmod_ok_def audio_lpf_ok_def Let_def by blast+
  obtain resp w resp' w' where ready: "lpf_ready ?p AFLT_LPF_OVERLAP_FACTOR resp w (lpf_l (fm_flts fmmod))"
      "lpf_ready ?p AFLT_LPF_OVERLAP_FACTOR resp' w' (lpf_r (fm_flts fmmod))"
    using assms(1) unfolding fmmod_ok_def audio_lpf_ok_def Let_def by blast
  have fftw: "fftw_ok (env_dft env) (env_ift env)" using assms(2) by (simp add: fmmod_env_ok_def)
  obtain cl where cl: "lpf_filter_apply (env_dft env) (env_ift env) (lpf_l (fm_flts fmmod)) l l ?p 1 =
      Some (lpf_output (env_dft env) (env_ift env) resp 1 (unat ?p) (drop (unat ?p) w @ l), cl)"
      "lpf_ready ?p AFLT_LPF_OVERLAP_FACTOR resp (drop (unat ?p) w @ l) cl"
    using lpf_apply_ready [OF ready(1) fftw p(2), of l 1] in_bufs p(1) by auto
  obtain cr where cr: "lpf_filter_apply (env_dft env) (env_ift env) (lpf_r (fm_flts fmmod)) r r ?p 1 =
      Some (lpf_output (env_dft env) (env_ift env) resp' 1 (unat ?p) (drop (unat ?p) w' @ r), cr)"
      "lpf_ready ?p AFLT_LPF_OVERLAP_FACTOR resp' (drop (unat ?p) w' @ r) cr"
    using lpf_apply_ready [OF ready(2) fftw p(2), of r 1] in_bufs p(1) by auto
  have len: "length (lpf_output (env_dft env) (env_ift env) resp 1 (unat ?p) (drop (unat ?p) w @ l)) = unat (fm_num_in_samples fmmod)"
    "length (lpf_output (env_dft env) (env_ift env) resp' 1 (unat ?p) (drop (unat ?p) w' @ r)) = unat (fm_num_in_samples fmmod)"
    using in_bufs p(1) by (simp_all add: length_lpf_output [OF fftw])
  show ?thesis
  proof (cases "use_audio_lpf (fm_ctl fmmod) = 0")
    case True
    then show ?thesis using assms(1) in_bufs by (simp add: fmmod_audio_lpf_def)
  next
    case False
    then have run: "fmmod_audio_lpf env fmmod = Some (
        lpf_output (env_dft env) (env_ift env) resp 1 (unat ?p) (drop (unat ?p) w @ l),
        lpf_output (env_dft env) (env_ift env) resp' 1 (unat ?p) (drop (unat ?p) w' @ r),
        fmmod\<lparr>fm_inbuf_l := Some (hl, lpf_output (env_dft env) (env_ift env) resp 1 (unat ?p) (drop (unat ?p) w @ l)),
          fm_inbuf_r := Some (hr, lpf_output (env_dft env) (env_ift env) resp' 1 (unat ?p) (drop (unat ?p) w' @ r)),
          fm_flts := (fm_flts fmmod)\<lparr>lpf_l := cl, lpf_r := cr\<rparr>\<rparr>)"
      by (simp add: fmmod_audio_lpf_def in_bufs cl cr Let_def)
    show ?thesis
      unfolding run using assms(1) len p cl(2) cr(2)
      by (auto simp: fmmod_ok_def buffers_ok_def bypass_ok_def audio_lpf_ok_def Let_def)
  qed
qed

lemma thread_run_bounded:
  assumes "soxr_bounded soxr_process" "rstd_outframes rstd \<le> length out"
  shows "\<exists>rstd' out' s'. resampler_thread_run soxr_process rstd out s = Some (rstd', out', s') \<and>
    length out' = length out \<and> rstd_frames_generated rstd' \<le> rstd_outframes rstd"
proof -
  obtain e u g t where run: "soxr_process (rstd_resampler rstd) (rstd_in rstd) (rstd_outframes rstd) s = ((e, u, g), t)"
    by (metis prod.collapse)
  have "length g \<le> rstd_outframes rstd"
    using assms(1) run unfolding soxr_bounded_def by (metis fst_conv snd_conv)
  then show ?thesis using run assms(2) by (simp add: resampler_thread_run_def write_buf_def)
qed

lemma upsample_audio_bounded:
  assumes soxr: "soxr_bounded soxr_process" and len: "length out_l = n" "length out_r = n"
    and bypass: "rs_audio_upsampler_bypass rsmpl \<noteq> 0 \<Longrightarrow> k \<le> n"
  shows "\<exists>frames rsmpl' l r s'. resampler_upsample_audio order soxr_process rsmpl in_l in_r out_l out_r k n s =
      Some (frames, rsmpl', l, r, s') \<and> frames \<le> int n \<and> length l = n \<and> length r = n \<and>
    rs_audio_upsampler_bypass rsmpl' = rs_audio_upsampler_bypass rsmpl \<and>
    rs_mpx_downsampler_bypass rsmpl' = rs_mpx_downsampler_bypass rsmpl"
proof (cases "rs_audio_upsampler_bypass rsmpl = 0")
  case False
  then show ?thesis using bypass len by (simp add: resampler_upsample_audio_def write_buf_def min_le_iff_disj)
next
  case True
  define tl where "tl = (rs_rstd_l rsmpl)\<lparr>rstd_in := take k in_l, rstd_outframes := n\<rparr>"
  define tr where "tr = (rs_rstd_r rsmpl)\<lparr>rstd_in := take k in_r, rstd_outframes := n\<rparr>"
  have run: "\<exists>rstd' out' s'. resampler_thread_run soxr_process rstd out s = Some (rstd', out', s') \<and>
      length out' = n \<and> rstd_frames_generated rstd' \<le> n"
    if "rstd_outframes rstd = n" "length out = n" for rstd out s
    using thread_run_bounded [OF soxr, of rstd out s] that by simp
  have out: "rstd_outframes tl = n" "rstd_outframes tr = n" by (simp_all add: tl_def tr_def)
  show ?thesis
  proof (cases order)
    case Left_First
    obtain tl' l s1 where l: "resampler_thread_run soxr_process tl out_l s = Some (tl', l, s1)" "length l = n"
      "rstd_frames_generated tl' \<le> n" using run [OF out(1) len(1)] by blast
    obtain tr' r s2 where r: "resampler_thread_run soxr_process tr out_r s1 = Some (tr', r, s2)" "length r = n"
      using run [OF out(2) len(2)] by blast
    show ?thesis
      using True Left_First l r by (simp add: resampler_upsample_audio_def Let_def tl_def [symmetric] tr_def [symmetric])
  next
    case Right_First
    obtain tr' r s1 where r: "resampler_thread_run soxr_process tr out_r s = Some (tr', r, s1)" "length r = n"
      using run [OF out(2) len(2)] by blast
    obtain tl' l s2 where l: "resampler_thread_run soxr_process tl out_l s1 = Some (tl', l, s2)" "length l = n"
      "rstd_frames_generated tl' \<le> n" using run [OF out(1) len(1)] by blast
    show ?thesis
      using True Right_First l r by (simp add: resampler_upsample_audio_def Let_def tl_def [symmetric] tr_def [symmetric])
  qed
qed

lemma downsample_mpx_bounded:
  assumes "soxr_bounded soxr_process" "length out = n" "rs_mpx_downsampler_bypass rsmpl \<noteq> 0 \<Longrightarrow> k \<le> n"
  shows "\<exists>frames out' s'. resampler_downsample_mpx soxr_process rsmpl inp out k n s = Some (frames, out', s') \<and>
    frames \<le> int n \<and> length out' = n"
proof (cases "rs_mpx_downsampler_bypass rsmpl = 0")
  case True
  obtain e u g t where run: "soxr_process (rs_mpx_downsampler rsmpl) (take k inp) n s = ((e, u, g), t)"
    by (metis prod.collapse)
  have "length g \<le> n" using assms(1) run unfolding soxr_bounded_def by (metis fst_conv snd_conv)
  then show ?thesis using True run assms(2) by (simp add: resampler_downsample_mpx_def write_buf_def)
qed (use assms in \<open>simp add: resampler_downsample_mpx_def write_buf_def\<close>)

lemmas fmmod_ok_defs = fmmod_ok_def buffers_ok_def bypass_ok_def audio_lpf_ok_def Let_def

lemma fmmod_process_done_ok [simp]: "fmmod_ok playing (fmmod_process_done ret fmmod) = fmmod_ok playing fmmod"
  by (simp add: fmmod_process_done_def fmmod_ok_defs)

lemma write_to_sock_ok [simp]:
  "fmmod_ok playing (write_to_sock io fmmod xs) = fmmod_ok playing fmmod"
  "fm_rtpsrv (write_to_sock io fmmod xs) = fm_rtpsrv fmmod"
  by (simp_all add: write_to_sock_def fmmod_ok_defs)

lemma fmmod_output_ok:
  assumes "fmmod_ok playing fmmod" "0 \<le> frames" "frames \<le> int (length outbuf)"
  shows "\<exists>fmmod'. fmmod_output io fmmod outbuf frames = Some fmmod' \<and> fmmod_ok playing fmmod'"
proof -
  have ctl: "fmmod_ok playing (fmmod\<lparr>fm_ctl := (fm_ctl fmmod)\<lparr>peak_mpx_out := v\<rparr>\<rparr>)" for v
    using assms(1) by (simp add: fmmod_ok_defs)
  have queue: "fmmod_ok playing (fm\<lparr>fm_rtp_queue := q\<rparr>) = fmmod_ok playing fm" for fm q
    by (simp add: fmmod_ok_defs)
  define fm where "fm = fmmod\<lparr>fm_ctl := (fm_ctl fmmod)\<lparr>peak_mpx_out :=
    fold (\<lambda>x peak. if x > peak then x else peak) (take (nat frames) outbuf) 0\<rparr>\<rparr>"
  define fw where "fw = write_to_sock io fm (take (nat frames) outbuf)"
  have ok: "fmmod_ok playing fm" "fmmod_ok playing fw" by (simp_all add: fw_def) (simp_all add: fm_def ctl)
  have "rtp_server_send_buffer (Some (fm_rtpsrv fw)) (Some outbuf) frames (io_pool io) (fm_rtp_queue fw) \<noteq> None"
    using assms(2,3) by (auto simp: rtp_server_send_buffer_def mem_read_def split: option.splits)
  then obtain q where q: "rtp_server_send_buffer (Some (fm_rtpsrv fw)) (Some outbuf) frames (io_pool io) (fm_rtp_queue fw) = Some q"
    by blast
  have rd: "mem_read 0 (nat frames) outbuf = Some (take (nat frames) outbuf)" using assms(2,3) by (simp add: mem_read_def)
  have "fmmod_output io fmmod outbuf frames =
      Some (if word_of_int frames \<noteq> fm_num_out_samples fm then fmmod_process_done 0 fm
            else fmmod_process_done 0 (fw\<lparr>fm_rtp_queue := q\<rparr>))"
    unfolding fmmod_output_def rd Option.bind.bind_lunit Let_def fm_def [symmetric] fw_def [symmetric] q by simp
  then show ?thesis using ok by (simp add: queue)
qed

text \<open>The callback keeps the modulator well formed, whatever the number of frames JACK delivers.\<close>

lemma length_preemph_period: "length (fst (preemph_period tau xs s)) = length xs"
proof (induction xs arbitrary: s)
  case (Cons x xs)
  then show ?case by (cases s; cases x) (simp add: Let_def case_prod_beta)
qed simp

lemma fmmod_process_cb_ok:
  assumes ok: "fmmod_ok playing fmmod" and len: "length left_in = unat num_samples" "length right_in = unat num_samples"
  shows "\<exists>ret fmmod'. fmmod_process_cb num_samples lock left_in right_in fmmod = Some (ret, fmmod') \<and>
    fmmod_ok playing fmmod'"
proof (cases "\<not> fm_active fmmod \<or> num_samples \<noteq> fm_num_in_samples fmmod \<or> num_samples = 0 \<or> lock \<noteq> 0")
  case True
  then show ?thesis using ok by (auto simp: fmmod_process_cb_def)
next
  case False
  obtain bl br where b: "fm_inbuf_l fmmod = Some bl" "fm_inbuf_r fmmod = Some br"
    "length (snd bl) = unat num_samples" "length (snd br) = unat num_samples"
    using ok False unfolding fmmod_ok_def buffers_ok_def by (auto simp: map_option_eq_Some simp del: split_paired_Ex)
  define pre where "pre = (if preemph_tau (fm_ctl fmmod) \<noteq> LPF_PREEMPH_NONE
    then preemph_period (preemph_tau (fm_ctl fmmod)) (zip left_in right_in)
      (fmprf_l (fm_flts fmmod), fmprf_r (fm_flts fmmod), fm_prev_tau_mode fmmod)
    else (zip left_in right_in, fmprf_l (fm_flts fmmod), fmprf_r (fm_flts fmmod), fm_prev_tau_mode fmmod))"
  obtain frames fl fr prev where pre_eq: "pre = (frames, fl, fr, prev)" by (metis prod_cases4)
  have frames: "length frames = unat num_samples"
  proof -
    have "length (fst pre) = unat num_samples" using len by (simp add: pre_def length_preemph_period)
    then show ?thesis by (simp add: pre_eq)
  qed
  have mem: "mem_read 0 (unat num_samples) left_in = Some left_in" "mem_read 0 (unat num_samples) right_in = Some right_in"
    "mem_write 0 (map f frames) (snd bl) = Some (map f frames)" "mem_write 0 (map f frames) (snd br) = Some (map f frames)"
    for f :: "real \<times> real \<Rightarrow> real"
    using len frames b by (simp_all add: mem_read_all mem_write_all)
  obtain hl xl hr xr where bufs: "bl = (hl, xl)" "br = (hr, xr)" by (metis prod.collapse)
  define f1 where "f1 v w = fmmod\<lparr>
      fm_inbuf_l := Some (hl, map (\<lambda>x. f32 (fst x * audio_gain (fm_ctl fmmod))) frames),
      fm_inbuf_r := Some (hr, map (\<lambda>x. f32 (snd x * audio_gain (fm_ctl fmmod))) frames),
      fm_flts := (fm_flts fmmod)\<lparr>fmprf_l := fl, fmprf_r := fr\<rparr>, fm_prev_tau_mode := prev,
      fm_ctl := (fm_ctl fmmod)\<lparr>peak_audio_in_l := v, peak_audio_in_r := w\<rparr>\<rparr>" for v w
  have run: "\<exists>v w. fmmod_process_cb num_samples lock left_in right_in fmmod = Some (0, f1 v w)"
    unfolding fmmod_process_cb_def b bufs Let_def mem [unfolded bufs snd_conv] Option.bind.bind_lunit prod.case
      pre_def [symmetric] pre_eq f1_def using False by auto
  have "fmmod_ok playing (f1 v w)" for v w
    using ok frames False by (simp add: f1_def fmmod_ok_defs)
  then show ?thesis using run by blast
qed

context rds_source
begin

lemma fmmod_mpx_ok:
  assumes f2: "fmmod_ok playing f2" and env: "fmmod_env_ok env" "env_rds env = rds_next"
    and k: "k \<le> unat (fm_upsampled_num_samples f2)"
  shows "\<exists>fmmod' s'. fmmod_mpx env io k f2 s = Some (fmmod', s') \<and> fmmod_ok playing fmmod'"
proof -
  have soxr: "soxr_bounded (env_soxr env)" using env(1) by (simp add: fmmod_env_ok_def)
  obtain bl br bm where b: "fm_uaudio_buf_0 f2 = Some bl" "fm_uaudio_buf_1 f2 = Some br" "fm_umpxbuf f2 = Some bm"
    "k \<le> length (snd bl)" "k \<le> length (snd br)" "k \<le> length (snd bm)"
    using f2 k unfolding fmmod_ok_def buffers_ok_def by (auto simp: map_option_eq_Some simp del: split_paired_Ex)
  obtain hl ul hr ur hm um where "bl = (hl, ul)" "br = (hr, ur)" "bm = (hm, um)" by (metis prod.collapse)
  then have up: "fm_uaudio_buf_0 f2 = Some (hl, ul)" "fm_uaudio_buf_1 f2 = Some (hr, ur)"
    "fm_umpxbuf f2 = Some (hm, um)" "k \<le> length ul" "k \<le> length ur" "k \<le> length um"
    using b by simp_all
  define m where "m = stereo_matrix (take k ul) (take k ur)"
  have m: "length (fst m) = k" "length (snd m) = k" using up by (simp_all add: m_def stereo_matrix_def)
  define f3 where "f3 = f2\<lparr>fm_uaudio_buf_0 := Some (hl, fst m @ drop k ul), fm_uaudio_buf_1 := Some (hr, snd m @ drop k ur)\<rparr>"
  have f3: "fmmod_ok playing f3" "fm_umpxbuf f3 = Some (hm, um)"
    using f2 up m by (simp_all add: f3_def fmmod_ok_defs)
  obtain ys enc' where gen: "get_mpx_samples env f3 (fst m @ drop k ul) (snd m @ drop k ur) k um =
      Some (ys @ drop k um, f3\<lparr>fm_sin_osc := (osc_increase_phase ^^ k) (fm_sin_osc f3), fm_rds_enc := enc'\<rparr>)"
      "length ys = k" "playing enc'"
    using get_mpx_plays [OF env(2), of f3 k "fst m @ drop k ul" "snd m @ drop k ur" um "\<lambda>_. True"]
      f3 m up samples_play unfolding fmmod_ok_def by auto
  define f4 where "f4 = f3\<lparr>fm_sin_osc := (osc_increase_phase ^^ k) (fm_sin_osc f3), fm_rds_enc := enc'\<rparr>"
  have f4: "fmmod_ok playing f4" using f3 gen(3) by (simp add: f4_def fmmod_ok_defs)
  obtain ho out where out: "fm_outbuf f4 = Some (ho, out)" "length out = unat (fm_num_out_samples f4)"
    using f4 by (auto simp: fmmod_ok_defs)
  have byp: "rs_mpx_downsampler_bypass (fm_rsmpl f4) \<noteq> 0 \<Longrightarrow> k \<le> unat (fm_num_out_samples f4)"
    using f4 k by (auto simp: fmmod_ok_defs f4_def f3_def)
  obtain frames out' s2 where ds: "resampler_downsample_mpx (env_soxr env) (fm_rsmpl f4) (ys @ drop k um) out k
      (unat (fm_num_out_samples f4)) s = Some (frames, out', s2)" "frames \<le> int (length out')"
      "length out' = unat (fm_num_out_samples f4)"
    using downsample_mpx_bounded [OF soxr out(2) byp] by metis
  define f5 where "f5 = f4\<lparr>fm_umpxbuf := Some (hm, ys @ drop k um), fm_outbuf := Some (ho, out')\<rparr>"
  have f5: "fmmod_ok playing f5"
    using f4 f3 gen(2) ds(3) up by (simp add: f5_def f4_def fmmod_ok_defs)
  have mem: "mem_read 0 k ul = Some (take k ul)" "mem_read 0 k ur = Some (take k ur)"
    "mem_write 0 (fst m) ul = Some (fst m @ drop k ul)" "mem_write 0 (snd m) ur = Some (snd m @ drop k ur)"
    using up m by (simp_all add: mem_read_def mem_write_def)
  have "fmmod_mpx env io k f2 s =
    (if frames \<le> 0 then Some (fmmod_process_done (if frames < 0 then FMMOD_ERR_RESAMPLER_ERR else 0) f5, s2)
     else do { fmmod \<leftarrow> fmmod_output io f5 out' frames; Some (fmmod, s2) })"
    by (simp only: fmmod_mpx_def up Let_def mem m_def [symmetric] f3_def [symmetric] f3(2) gen(1)
        f4_def [symmetric] out(1) ds(1) f5_def [symmetric] Option.bind.bind_lunit prod.case)
  then show ?thesis using f5 fmmod_output_ok [OF f5, of frames out' io] ds(2) by auto
qed

lemma fmmod_process_ok:
  assumes ok: "fmmod_ok playing fmmod" and env: "fmmod_env_ok env" "env_rds env = rds_next"
  shows "\<exists>fmmod' s'. fmmod_process env lock io (fmmod, s) = Some (fmmod', s') \<and> fmmod_ok playing fmmod'"
proof (cases "lock = 0")
  case False
  then show ?thesis using ok by (simp add: fmmod_process_def)
next
  case True
  have soxr: "soxr_bounded (env_soxr env)" using env(1) by (simp add: fmmod_env_ok_def)
  obtain l r f1 where f1: "fmmod_audio_lpf env fmmod = Some (l, r, f1)" "fmmod_ok playing f1"
    using fmmod_audio_lpf_ok [OF ok env(1)] by blast
  let ?n = "unat (fm_upsampled_num_samples f1)"
  obtain hl upl hr upr where up: "fm_uaudio_buf_0 f1 = Some (hl, upl)" "fm_uaudio_buf_1 f1 = Some (hr, upr)"
    "length upl = ?n" "length upr = ?n"
    using f1(2) by (auto simp: fmmod_ok_def buffers_ok_def)
  obtain frames rs ul ur s1 where us: "resampler_upsample_audio (env_order env) (env_soxr env) (fm_rsmpl f1) l r upl upr
      (unat (fm_num_in_samples f1)) ?n s = Some (frames, rs, ul, ur, s1)" "frames \<le> int ?n" "length ul = ?n" "length ur = ?n"
      "rs_audio_upsampler_bypass rs = rs_audio_upsampler_bypass (fm_rsmpl f1)"
      "rs_mpx_downsampler_bypass rs = rs_mpx_downsampler_bypass (fm_rsmpl f1)"
    using upsample_audio_bounded [OF soxr up(3,4), of "fm_rsmpl f1" "unat (fm_num_in_samples f1)"] f1(2)
    unfolding fmmod_ok_def bypass_ok_def by blast
  define f2 where "f2 = f1\<lparr>fm_rsmpl := rs, fm_uaudio_buf_0 := Some (hl, ul), fm_uaudio_buf_1 := Some (hr, ur)\<rparr>"
  have "nat frames \<le> ?n" using us(2) by linarith
  then have f2: "fmmod_ok playing f2" "nat frames \<le> unat (fm_upsampled_num_samples f2)"
    using f1(2) us(3-6) by (simp_all add: f2_def fmmod_ok_defs)
  have "fmmod_process env lock io (fmmod, s) =
      (if frames \<le> 0 then Some (fmmod_process_done (if frames < 0 then FMMOD_ERR_RESAMPLER_ERR else 0) f2, s1)
       else fmmod_mpx env io (nat frames) f2 s1)"
    by (simp only: fmmod_process_def True f1(1) up us(1) f2_def [symmetric] Let_def Option.bind.bind_lunit prod.case
        simp_thms if_False)
  then show ?thesis using f2(1) fmmod_mpx_ok [OF f2(1) env f2(2), of io s1] by auto
qed

text \<open>The loop, when the other threads keep the modulator well formed and clear \<open>active\<close> at some wake-up.\<close>

lemma fmmod_process_loop_ends:
  assumes env: "fmmod_env_ok env" "env_rds env = rds_next"
    and others: "\<And>i f s. fmmod_ok playing f \<Longrightarrow> fmmod_ok playing (fst (others i (f, s)))"
    and stop: "\<And>fs. \<not> fm_active (fst (others K fs))"
  shows "fmmod_ok playing (fst fs) \<Longrightarrow> k \<le> K \<Longrightarrow>
    \<exists>j fs'. fmmod_process_loop env others lock io k fs = Some (j, fs') \<and> j \<le> K \<and>
      \<not> fm_active (fst fs') \<and> fmmod_ok playing (fst fs')"
proof (induction "K - k" arbitrary: k fs rule: less_induct)
  case less
  let ?fs = "others k fs"
  have ok: "fmmod_ok playing (fst ?fs)" using others [of "fst fs" k "snd fs"] less.prems(1) by simp
  show ?case
  proof (cases "\<not> fm_active (fst fs) \<or> \<not> fm_active (fst ?fs)")
    case True
    then have "fmmod_process_loop env others lock io k fs = Some (k, if fm_active (fst fs) then ?fs else fs)"
      by (subst fmmod_process_loop.simps) (auto simp: Let_def)
    then show ?thesis using True less.prems ok by (cases "fm_active (fst fs)") (fastforce simp del: split_paired_Ex)+
  next
    case False
    then have "k < K" using stop less.prems(2) by (metis le_neq_implies_less)
    obtain f' s' where p: "fmmod_process env (lock k) (io k) ?fs = Some (f', s')" "fmmod_ok playing f'"
      using fmmod_process_ok [OF ok env, of "lock k" "io k" "snd ?fs"] by auto
    have "fmmod_process_loop env others lock io k fs = fmmod_process_loop env others lock io (k + 1) (f', s')"
      using False p(1) by (subst fmmod_process_loop.simps) (simp add: Let_def)
    then show ?thesis using less.hyps [of "k + 1" "(f', s')"] \<open>k < K\<close> p(2) by auto
  qed
qed

end

end
