(* ===== verification/Fmmod_Rds.thy ===== *)
theory Fmmod_Rds
  imports Fmmod Rds_Encoder
begin

text \<open>
  The modulator with the RDS encoder as the source of its samples. The state of the SoXr resampler
  of the RDS signal is kept with the encoder, since resamplers are independent of each other.
\<close>

subsection \<open>The encoder as a source of samples\<close>

text \<open>The \<open>k\<close>-th sample is taken at the time \<open>clks k\<close>.\<close>

definition enc_next ::
  "char_abi \<Rightarrow> (nat \<Rightarrow> clock) \<Rightarrow> 's soxr_fun \<Rightarrow> resampler_data \<Rightarrow> rds_group \<Rightarrow> (nat \<times> rds_encoder \<times> 's) rds_fun" where
  "enc_next abi clks soxr_process rsmpl grp e =
     map_option (\<lambda>(y, es). (y, fst e + 1, es)) (enc_pull abi (clks (fst e)) soxr_process rsmpl grp (snd e))"

text \<open>The upsampled RDS signal stays within \<open>B\<close>.\<close>

definition rds_soxr_within :: "'s soxr_fun \<Rightarrow> resampler_data \<Rightarrow> real \<Rightarrow> bool" where
  "rds_soxr_within soxr_process rsmpl B \<longleftrightarrow> 0 \<le> B \<and>
     (\<forall>xs m s. length xs = 4160 \<longrightarrow>
        (\<forall>x \<in> set (snd (snd (fst (soxr_process (rs_rds_upsampler rsmpl) xs m s)))). \<bar>x\<bar> \<le> B))"

definition waves_within :: "real \<Rightarrow> real list list \<Rightarrow> bool" where
  "waves_within B ws \<longleftrightarrow> (\<forall>w \<in> set ws. \<forall>x \<in> set w. \<bar>x\<bar> \<le> B)"

definition enc_playing ::
  "char_abi \<Rightarrow> (nat \<Rightarrow> clock) \<Rightarrow> 's soxr_fun \<Rightarrow> resampler_data \<Rightarrow> nat \<Rightarrow> real \<Rightarrow> nat \<times> rds_encoder \<times> 's \<Rightarrow> bool" where
  "enc_playing abi clks soxr_process rsmpl n B e \<longleftrightarrow>
     (\<forall>i. clock_ok (clks i)) \<and> rds_soxr_ok soxr_process rsmpl n \<and> rds_soxr_within soxr_process rsmpl B \<and>
     (enc_fresh abi n (fst (snd e)) \<or>
      (\<exists>outs vs w. stream_inv abi n (fst (snd e)) outs vs w \<and> waves_within B (w # vs)))"

lemma group_wave_within:
  assumes "rds_soxr_within soxr_process rsmpl B" "group_wave abi clk soxr_process rsmpl len gs = (w, gs')"
  shows "\<forall>x \<in> set w. \<bar>x\<bar> \<le> B"
proof -
  obtain sys s where gs: "gs = (sys, s)" by (cases gs)
  let ?xs = "samples_buffer (gen_group abi clk (kind_group (cfg_of (sys_st sys)) (next_kind sys)) sys)"
  have "w = snd (snd (fst (soxr_process (rs_rds_upsampler rsmpl) ?xs len s)))"
    using assms(2) by (auto simp: group_wave_def gs split: prod.splits)
  then show ?thesis using assms(1) length_gen_group unfolding rds_soxr_within_def by blast
qed

text \<open>The sample that was taken last is the zero of the empty buffer or comes from a waveform.\<close>

lemma stream_sample_within:
  assumes "stream_inv abi n enc (outs @ [x]) vs w" "waves_within B vs" "0 \<le> B"
  shows "\<bar>x\<bar> \<le> B"
proof -
  obtain u where "(outs @ [x]) @ drop (nat (enc_samples_out enc)) u = 0 # concat vs"
    using assms(1) unfolding stream_inv_def by blast
  then have "x \<in> set (0 # concat vs)" by (metis in_set_conv_decomp append_assoc append_Cons append_Nil)
  then show ?thesis using assms(2,3) by (auto simp: waves_within_def)
qed

lemma enc_pull_plays:
  assumes "enc_playing abi clks soxr_process rsmpl n B (k, enc, s)"
  shows "\<exists>y e s'. enc_pull abi (clks k) soxr_process rsmpl grp (enc, s) = Some (y, e, s') \<and> \<bar>y\<bar> \<le> B \<and>
    enc_playing abi clks soxr_process rsmpl n B (k + 1, e, s')"
proof -
  have h: "\<forall>i. clock_ok (clks i)" "rds_soxr_ok soxr_process rsmpl n" "rds_soxr_within soxr_process rsmpl B"
    and B: "0 \<le> B" using assms by (simp_all add: enc_playing_def rds_soxr_within_def)
  have clk: "clock_ok (clks k)" using h(1) by blast
  obtain w' sys' s' where wave: "group_wave abi (clks k) soxr_process rsmpl (enc_upsampled_waveform_len enc) (enc_sys enc, s) = (w', sys', s')"
    by (metis prod_cases3)
  note w' = group_wave_within [OF h(3) wave]
  have go_on: "\<bar>y\<bar> \<le> B \<and> enc_playing abi clks soxr_process rsmpl n B (k + 1, e, t)"
    if "stream_inv abi n e (outs @ [y]) vs w" "waves_within B (w # vs)" for y e t outs vs w
  proof
    have "waves_within B vs" using that(2) by (simp add: waves_within_def)
    then show "\<bar>y\<bar> \<le> B" using stream_sample_within that(1) B by blast
    show "enc_playing abi clks soxr_process rsmpl n B (k + 1, e, t)"
      unfolding enc_playing_def snd_conv fst_conv using h that by blast
  qed
  show ?thesis
  proof (cases "enc_fresh abi n enc")
    case True
    obtain e where e: "enc_pull abi (clks k) soxr_process rsmpl grp (enc, s) = Some (0, e, s')" "stream_inv abi n e [0] [] w'"
      using stream_first [OF True clk h(2) wave] by blast
    then show ?thesis using go_on [of e "[]" 0 "[]" w' s'] w' by (auto simp: waves_within_def)
  next
    case False
    then obtain outs vs w where inv: "stream_inv abi n enc outs vs w" "waves_within B (w # vs)"
      using assms by (auto simp: enc_playing_def)
    show ?thesis
    proof (cases "enc_samples_out enc < ug_samples (enc_outbuf enc (enc_curr_outbuf_idx enc))")
      case True
      then show ?thesis
        using stream_inv_play [OF inv(1), of "clks k" soxr_process rsmpl grp s] go_on inv(2) by blast
    next
      case False
      obtain x e where "enc_pull abi (clks k) soxr_process rsmpl grp (enc, s) = Some (x, e, s')"
        "stream_inv abi n e (outs @ [x]) (vs @ [w]) w'"
        using stream_inv_switch [OF inv(1) clk h(2) False wave] by blast
      moreover have "waves_within B (w' # vs @ [w])" using inv(2) w' by (auto simp: waves_within_def)
      ultimately show ?thesis using go_on by blast
    qed
  qed
qed

interpretation encoder_source: rds_source "enc_next abi clks soxr_process rsmpl grp"
  "enc_playing abi clks soxr_process rsmpl n B" B for abi clks soxr_process rsmpl grp n B
proof
  fix e :: "nat \<times> rds_encoder \<times> 'a"
  assume e: "enc_playing abi clks soxr_process rsmpl n B e"
  obtain k enc s where "e = (k, enc, s)" by (metis prod_cases3)
  with e enc_pull_plays [of abi clks soxr_process rsmpl n B k enc s grp]
  show "\<exists>y e'. enc_next abi clks soxr_process rsmpl grp e = Some (y, e') \<and> \<bar>y\<bar> \<le> B \<and>
      enc_playing abi clks soxr_process rsmpl n B e'"
    by (auto simp: enc_next_def)
qed

subsection \<open>Properties\<close>


text \<open>The libraries and the modulator of the examples.\<close>

definition example_source :: "(nat \<times> rds_encoder \<times> unit) rds_fun" where
  "example_source = enc_next Signed_Char (\<lambda>_. example_clock) pair_soxr resampler_zero group_zero"

definition example_env :: "(nat \<times> rds_encoder \<times> unit, nat option \<Rightarrow> nat) fmmod_env" where
  "example_env = \<lparr>env_dft = zero_dft, env_ift = zero_ift, env_soxr = count_soxr, env_order = Left_First,
     env_rds = example_source\<rparr>"

definition example_fmmod :: "(nat \<times> rds_encoder \<times> unit) fmmod_instance" where
  "example_fmmod = (fmmod_zero (0, example_enc, ()))\<lparr>
     fm_ctl := ctl_zero\<lparr>pilot_gain := 1 / 16, rds_gain := 1 / 32, stereo_carrier_gain := 1, mpx_gain := 1 / 2\<rparr>\<rparr>"

lemma example_playing:
  "enc_playing Signed_Char (\<lambda>_. example_clock) pair_soxr resampler_zero 2 1 (0, example_enc, ())"
  by (simp add: enc_playing_def clock_ok_example rds_soxr_ok_def rds_soxr_within_def pair_soxr_def example_enc_fresh)



text \<open>A modulator that runs with periods of two frames, and a callback that delivers them until the third one.\<close>

definition example_running :: "lpf_filter_data \<Rightarrow> (nat \<times> rds_encoder \<times> unit) fmmod_instance" where
  "example_running c = (fmmod_zero (0, example_enc, ()))\<lparr>
     fm_active := True, fm_num_in_samples := 2, fm_upsampled_num_samples := 4, fm_num_out_samples := 4,
     fm_inbuf_l := Some (0, [0, 0]), fm_inbuf_r := Some (1, [0, 0]), fm_uaudio_buf_0 := Some (2, [0, 0, 0, 0]),
     fm_uaudio_buf_1 := Some (3, [0, 0, 0, 0]), fm_umpxbuf := Some (4, [0, 0, 0, 0]), fm_outbuf := Some (5, [0, 0, 0, 0]),
     fm_flts := (fm_flts example_fmmod)\<lparr>lpf_l := c, lpf_r := c\<rparr>,
     fm_ctl := ctl_zero\<lparr>audio_gain := 1, mpx_gain := 1, use_audio_lpf := 1\<rparr>\<rparr>"

definition example_others :: "nat \<Rightarrow> 'e fmmod_instance \<times> 's \<Rightarrow> 'e fmmod_instance \<times> 's" where
  "example_others i fs =
     (if i = 3 then ((fst fs)\<lparr>fm_active := False\<rparr>, snd fs)
      else case fmmod_process_cb 2 0 [1, 0] [0, 1] (fst fs) of None \<Rightarrow> fs | Some (_, fmmod) \<Rightarrow> (fmmod, snd fs))"

lemma example_others_ok:
  assumes "fmmod_ok playing f"
  shows "fmmod_ok playing (fst (example_others i (f, s)))"
proof (cases "i = 3")
  case True
  then show ?thesis using assms by (simp add: example_others_def fmmod_ok_defs)
next
  case False
  obtain ret f' where "fmmod_process_cb 2 0 [1, 0] [0, 1] f = Some (ret, f')" "fmmod_ok playing f'"
    using fmmod_process_cb_ok [OF assms, of "[1, 0]" 2 "[0, 1]" 0] by auto
  then show ?thesis using False by (simp add: example_others_def)
qed

lemma example_running_ok:
  assumes "lpf_ready 2 AFLT_LPF_OVERLAP_FACTOR resp w c"
  shows "fmmod_ok (enc_playing Signed_Char (\<lambda>_. example_clock) pair_soxr resampler_zero 2 1) (example_running c)"
proof -
  have "\<exists>resp w. lpf_ready 2 AFLT_LPF_OVERLAP_FACTOR resp w c" using assms by blast
  then show ?thesis
    unfolding fmmod_ok_def buffers_ok_def bypass_ok_def audio_lpf_ok_def Let_def
    by (simp add: example_running_def fmmod_zero_def ctl_zero_def resampler_zero_def example_playing [unfolded resampler_zero_def])
qed


end
