(* ===== verification/Fmmod_Init.thy ===== *)
theory Fmmod_Init
  imports Fmmod_Rds
begin

text \<open>
  The modulator (\<^verbatim>\<open>fmmod.c\<close>), start and end: the JACK client, the buffers, the oscillators, the
  filters, the output socket, the control channel, \<^verbatim>\<open>fmmod_initialize\<close> and \<^verbatim>\<open>fmmod_destroy\<close>, over the
  resources of the system. Every request may fail. Releasing something twice is a fault; a
  dereferenced \<^verbatim>\<open>NULL\<close> is \<open>None\<close>. Mutexes and condition variables hold no resource here.
\<close>

type_synonym modulator = "rds_encoder fmmod_instance"

type_synonym init_step = "modulator \<Rightarrow> os \<Rightarrow> (int \<times> modulator) \<times> os"

text \<open>What JACK answers: whether the name was taken, its sample rate and its period.\<close>

record jack_info =
  jack_name_not_unique :: bool
  jack_sample_rate :: "32 word"
  jack_buffer_size :: "32 word"

subsection \<open>The JACK client\<close>

definition fmmod_connect_cleanup :: "int \<Rightarrow> init_step" where
  "fmmod_connect_cleanup ret fmmod os =
     ((ret, fmmod),
      if ret < 0 then release_opt Jack_Client (fm_client fmmod) (release_opt Jack_Port (fm_inL fmmod) os) else os)"

definition fmmod_connect :: "jack_info \<Rightarrow> init_step" where
  "fmmod_connect jack fmmod os =
     (case acquire Jack_Client os of (c, os) \<Rightarrow>
        let fmmod = fmmod\<lparr>fm_client := c\<rparr> in
        if c = None then ((FMMOD_ERR_JACKD_ERR, fmmod), os)
        else if jack_name_not_unique jack then fmmod_connect_cleanup FMMOD_ERR_ALREADY_RUNNING fmmod os
        else case acquire Jack_Port os of (p, os) \<Rightarrow>
          let fmmod = fmmod\<lparr>fm_inL := p\<rparr> in
          if p = None then fmmod_connect_cleanup FMMOD_ERR_JACKD_ERR fmmod os
          else case acquire Jack_Port os of (p, os) \<Rightarrow>
            let fmmod = fmmod\<lparr>fm_inR := p\<rparr> in
            fmmod_connect_cleanup (if p = None then FMMOD_ERR_JACKD_ERR else 0) fmmod os)"

subsection \<open>The buffers\<close>

definition num_resampled_samples_d :: "int \<Rightarrow> int \<Rightarrow> int \<Rightarrow> int" where
  "num_resampled_samples_d in_srate out_srate num_samples =
     (let ratio = f64 (of_int out_srate / of_int in_srate);
          olenf = f64 (ratio * of_int num_samples);
          olenf = max olenf (f64 (of_int num_samples - olenf))
      in c_trunc olenf)"

definition fmmod_buffer_handles :: "modulator \<Rightarrow> (res_kind \<times> nat option) list" where
  "fmmod_buffer_handles fmmod =
     map (\<lambda>b. (Heap, map_option fst b))
       [fm_inbuf_l fmmod, fm_inbuf_r fmmod, fm_uaudio_buf_0 fmmod, fm_uaudio_buf_1 fmmod, fm_umpxbuf fmmod,
        fm_outbuf fmmod]"

definition fmmod_free_buffers :: "modulator \<Rightarrow> os \<Rightarrow> os" where
  "fmmod_free_buffers fmmod os = release_all (fmmod_buffer_handles fmmod) os"

text \<open>
  \<^verbatim>\<open>malloc\<close> and \<^verbatim>\<open>memset\<close> of a buffer for \<open>n\<close> samples, whose size in bytes is a 32-bit number; on
  failure the label \<^verbatim>\<open>cleanup\<close>.
\<close>

definition malloc_into :: "(real buffer \<Rightarrow> modulator \<Rightarrow> modulator) \<Rightarrow> 32 word \<Rightarrow> init_step \<Rightarrow> init_step" where
  "malloc_into upd n rest fmmod os =
     (case acquire Heap os of (h, os) \<Rightarrow>
        let fmmod = upd (map_option (\<lambda>h. (h, replicate (unat (n * 4) div 4) 0)) h) fmmod in
        if h = None then ((FMMOD_ERR_NOMEM, fmmod), fmmod_free_buffers fmmod os) else rest fmmod os)"

definition fmmod_init_out_buffer :: init_step where
  "fmmod_init_out_buffer fmmod os =
     (let n = word_of_int (num_resampled_samples_d (uint OSC_SAMPLE_RATE) (uint FMMOD_OUTPUT_SAMPLERATE)
                (sint (fm_upsampled_num_samples fmmod)))
      in malloc_into (\<lambda>b f. f\<lparr>fm_outbuf := b\<rparr>) n (\<lambda>f os. ((0, f), os)) (fmmod\<lparr>fm_num_out_samples := n\<rparr>) os)"

definition fmmod_init_upsampled_buffers :: "32 word \<Rightarrow> init_step" where
  "fmmod_init_upsampled_buffers jack_samplerate fmmod os =
     (let n = word_of_int (num_resampled_samples_d (sint jack_samplerate) (uint OSC_SAMPLE_RATE)
                (sint (fm_num_in_samples fmmod)))
      in malloc_into (\<lambda>b f. f\<lparr>fm_uaudio_buf_0 := b\<rparr>) n
           (malloc_into (\<lambda>b f. f\<lparr>fm_uaudio_buf_1 := b\<rparr>) n
             (malloc_into (\<lambda>b f. f\<lparr>fm_umpxbuf := b\<rparr>) n fmmod_init_out_buffer))
           (fmmod\<lparr>fm_upsampled_num_samples := n\<rparr>) os)"

definition fmmod_init_buffers :: "32 word \<Rightarrow> init_step" where
  "fmmod_init_buffers jack_samplerate fmmod os =
     (let n = fm_num_in_samples fmmod in
      malloc_into (\<lambda>b f. f\<lparr>fm_inbuf_l := b\<rparr>) n
        (malloc_into (\<lambda>b f. f\<lparr>fm_inbuf_r := b\<rparr>) n (fmmod_init_upsampled_buffers jack_samplerate)) fmmod os)"

subsection \<open>The oscillators\<close>

definition fmmod_init_osc :: "modulator \<Rightarrow> int \<times> modulator" where
  "fmmod_init_osc fmmod =
     (case osc_initialize (Some (fm_sin_osc fmmod)) OSC_SAMPLE_RATE OSC_TYPE_SINE of (ret, osc) \<Rightarrow>
        let fmmod = fmmod\<lparr>fm_sin_osc := the osc\<rparr> in
        if ret < 0 then (FMMOD_ERR_OSC_ERR, fmmod)
        else case osc_initialize (Some (fm_cos_osc fmmod)) OSC_SAMPLE_RATE OSC_TYPE_COSINE of (ret, osc) \<Rightarrow>
          let fmmod = fmmod\<lparr>fm_cos_osc := the osc\<rparr> in
          (if ret < 0 then FMMOD_ERR_OSC_ERR else 0, fmmod))"

subsection \<open>The filters\<close>

definition fmmod_destroy_filters :: "modulator \<Rightarrow> os \<Rightarrow> os" where
  "fmmod_destroy_filters fmmod os =
     (let flts = fm_flts fmmod;
          os = lpf_filter_destroy (lpf_l flts) os;
          os = lpf_filter_destroy (lpf_r flts) os;
          os = lpf_filter_destroy (ssb_lpf flts) os
      in hilbert_transformer_destroy (hilb flts) os)"

text \<open>The label \<^verbatim>\<open>cleanup\<close>.\<close>

definition fmmod_filters_cleanup :: "int \<Rightarrow> fmmod_flts \<Rightarrow> os \<Rightarrow> ((int \<times> fmmod_flts) \<times> os) option" where
  "fmmod_filters_cleanup ret flts os =
     (let os = (if ret = FMMOD_ERR_HILBERT then lpf_filter_destroy (ssb_lpf flts) os else os);
          os = (if ret = FMMOD_ERR_HILBERT \<or> ret = FMMOD_ERR_LPF
                then lpf_filter_destroy (lpf_r flts) (lpf_filter_destroy (lpf_l flts) os) else os)
      in Some ((ret, flts), os))"

definition fmmod_init_filters ::
  "(real \<Rightarrow> real) \<Rightarrow> dft_fun \<Rightarrow> 32 word \<Rightarrow> 32 word \<Rightarrow> 32 word \<Rightarrow> fmmod_flts \<Rightarrow> os \<Rightarrow> ((int \<times> fmmod_flts) \<times> os) option" where
  "fmmod_init_filters ld dft jack_samplerate in_samples upsampled flts os =
     (let rate = f32 (of_nat (unat jack_samplerate));
          (ret_l, l) = fmpreemph_filter_init ld (fmprf_l flts) rate;
          (ret_r, r) = fmpreemph_filter_init ld (fmprf_r flts) rate
      in if ret_l < 0 then Some ((FMMOD_ERR_AFLT, flts\<lparr>fmprf_l := l\<rparr>), os)
         else if ret_r < 0 then Some ((FMMOD_ERR_AFLT, flts\<lparr>fmprf_l := l, fmprf_r := r\<rparr>), os)
         else
           do {
             let flts = flts\<lparr>fmprf_l := l, fmprf_r := r\<rparr>;
             ((ret, c), os) \<leftarrow> lpf_filter_init ld dft (lpf_l flts) AFLT_CUTOFF_FREQ jack_samplerate (ucast in_samples)
                                 AFLT_LPF_OVERLAP_FACTOR os;
             let flts = flts\<lparr>lpf_l := c\<rparr>;
             if ret < 0 then fmmod_filters_cleanup FMMOD_ERR_AFLT flts os
             else
               do {
                 ((ret, c), os) \<leftarrow> lpf_filter_init ld dft (lpf_r flts) AFLT_CUTOFF_FREQ jack_samplerate
                                     (ucast in_samples) AFLT_LPF_OVERLAP_FACTOR os;
                 let flts = flts\<lparr>lpf_r := c\<rparr>;
                 if ret < 0 then fmmod_filters_cleanup FMMOD_ERR_AFLT flts os
                 else
                   do {
                     ((ret, c), os) \<leftarrow> lpf_filter_init ld dft (ssb_lpf flts) 38000 OSC_SAMPLE_RATE (ucast upsampled)
                                         SSB_LPF_OVERLAP_FACTOR os;
                     let flts = flts\<lparr>ssb_lpf := c\<rparr>;
                     if ret < 0 then fmmod_filters_cleanup FMMOD_ERR_LPF flts os
                     else
                       do {
                         let ((ret, h), os) = hilbert_transformer_init (hilb flts) (ucast upsampled) os;
                         let flts = flts\<lparr>hilb := h\<rparr>;
                         fmmod_filters_cleanup (if ret < 0 then FMMOD_ERR_HILBERT else ret) flts os
                       }
                   }
               }
           })"

subsection \<open>The output socket and the control channel\<close>

text \<open>\<open>eexist\<close>: a failed \<^verbatim>\<open>mkfifo\<close> found the pipe already there.\<close>

definition fmmod_init_outsock :: "bool \<Rightarrow> os \<Rightarrow> int \<times> os" where
  "fmmod_init_outsock eexist os =
     (case attempt os of (made, os) \<Rightarrow> (if \<not> made \<and> \<not> eexist then FMMOD_ERR_SOCK_ERR else 0, os))"

text \<open>The descriptor that \<^verbatim>\<open>fmmod_outsock_destroy\<close> closes; the pipe is removed.\<close>

definition fmmod_outsock_destroy :: "modulator \<Rightarrow> int" where
  "fmmod_outsock_destroy fmmod = fm_out_sock_fd fmmod"

abbreviation (input) sizeof_fmmod_control :: int where "sizeof_fmmod_control \<equiv> 52"

definition fmmod_init_ctl :: "modulator \<Rightarrow> os \<Rightarrow> ((int \<times> modulator) \<times> os) option" where
  "fmmod_init_ctl fmmod os =
     (case utils_shm_init FMMOD_CTL_SHM_NAME sizeof_fmmod_control os of
        (None, os) \<Rightarrow> Some ((FMMOD_ERR_SHM_ERR, fmmod\<lparr>fm_ctl_map := None\<rparr>), os)
      | (Some m, os) \<Rightarrow>
          if shm_mem m = Mem_Null then None
          else
            Some ((0, fmmod\<lparr>fm_ctl_map := Some m,
              fm_ctl := (fm_ctl fmmod)\<lparr>audio_gain := f32 (f64 0.45), pilot_gain := f32 (f64 0.04), rds_gain := f32 (f64 0.03),
                stereo_carrier_gain := f32 (f64 0.8), mpx_gain := f32 (f64 0.75), stereo_modulation := FMMOD_DSB,
                use_audio_lpf := 1, preemph_tau := LPF_PREEMPH_50US, ctl_sample_rate := uint FMMOD_OUTPUT_SAMPLERATE,
                ctl_max_samples := sint (fm_num_out_samples fmmod)\<rparr>\<rparr>), os))"

subsection \<open>Destruction\<close>

text \<open>The modulator after it, the descriptor that was closed, and the system.\<close>

definition fmmod_disconnect :: "modulator \<Rightarrow> os \<Rightarrow> os" where
  "fmmod_disconnect fmmod os =
     release_all [(Jack_Port, fm_inL fmmod), (Jack_Port, fm_inR fmmod), (Jack_Client, fm_client fmmod)] os"

definition fmmod_destroy :: "bool \<Rightarrow> modulator \<Rightarrow> os \<Rightarrow> (modulator \<times> int) \<times> os" where
  "fmmod_destroy shutdown fmmod os =
     (let os = (if \<not> shutdown then fmmod_disconnect fmmod os else os);
          fmmod = fmmod\<lparr>fm_active := False\<rparr>;
          os = utils_shm_destroy (fm_ctl_map fmmod) True os;
          (enc, os) = rds_encoder_destroy (fm_rds_enc fmmod) os;
          (srv, os) = rtp_server_destroy (fm_rtpsrv fmmod) os;
          (rsmpl, os) = resampler_destroy (fm_rsmpl fmmod) os;
          fmmod = fmmod\<lparr>fm_rds_enc := enc, fm_rtpsrv := srv, fm_rsmpl := rsmpl\<rparr>;
          os = fmmod_destroy_filters fmmod os;
          os = fmmod_free_buffers fmmod os
      in ((fmmod, fmmod_outsock_destroy fmmod), os))"

text \<open>\<^verbatim>\<open>fmmod_shutdown\<close>, which JACK calls when it ends.\<close>

definition fmmod_shutdown :: "modulator \<Rightarrow> os \<Rightarrow> (modulator \<times> int) \<times> os" where
  "fmmod_shutdown fmmod os = fmmod_destroy True fmmod os"

subsection \<open>Initialisation\<close>

text \<open>The label \<^verbatim>\<open>cleanup\<close> with a negative code.\<close>

definition fmmod_init_fail :: "int \<Rightarrow> modulator \<Rightarrow> os \<Rightarrow> ((int \<times> modulator) \<times> os) option" where
  "fmmod_init_fail ret fmmod os =
     (case fmmod_destroy False fmmod os of ((fmmod, _), os) \<Rightarrow> Some ((ret, fmmod), os))"

text \<open>
  From the control channel on. The processing thread, when it cannot be created, ends the function
  without the cleanup; nobody joins it.
\<close>

definition fmmod_init_run :: "modulator \<Rightarrow> os \<Rightarrow> ((int \<times> modulator) \<times> os) option" where
  "fmmod_init_run fmmod os =
     do {
       ((ret, fmmod), os) \<leftarrow> fmmod_init_ctl fmmod os;
       if ret < 0 then fmmod_init_fail ret fmmod os
       else
         do {
           let fmmod = fmmod\<lparr>fm_active := True\<rparr>;
           let (tid, os) = acquire Thread os;
           if tid = None then Some ((- 1, fmmod), os)
           else
             do {
               let (activated, os) = attempt os;
               if \<not> activated then fmmod_init_fail FMMOD_ERR_JACKD_ERR fmmod os else Some ((0, fmmod), os)
             }
         }
     }"

text \<open>From the RDS encoder on.\<close>

definition fmmod_init_outputs :: "bool \<Rightarrow> modulator \<Rightarrow> os \<Rightarrow> ((int \<times> modulator) \<times> os) option" where
  "fmmod_init_outputs eexist fmmod os =
     do {
       ((ret, enc), os) \<leftarrow> rds_encoder_init (fm_rsmpl fmmod) os;
       let fmmod = fmmod\<lparr>fm_rds_enc := enc\<rparr>;
       if ret < 0 then fmmod_init_fail FMMOD_ERR_RDS_ERR fmmod os
       else
         do {
           let (ret, os) = fmmod_init_outsock eexist os;
           if ret < 0 then fmmod_init_fail ret fmmod os
           else
             do {
               ((ret, srv), os) \<leftarrow> rtp_server_init (fm_rtpsrv fmmod) (fm_num_out_samples fmmod * 4)
                                     (uint FMMOD_OUTPUT_SAMPLERATE) 5000 os;
               let fmmod = fmmod\<lparr>fm_rtpsrv := srv\<rparr>;
               if ret < 0 then fmmod_init_fail FMMOD_ERR_RTP_ERR fmmod os else fmmod_init_run fmmod os
             }
         }
     }"

text \<open>\<open>mt\<close> is \<^verbatim>\<open>JMPXRDS_MT\<close>.\<close>

definition fmmod_init_processing ::
  "(real \<Rightarrow> real) \<Rightarrow> dft_fun \<Rightarrow> bool \<Rightarrow> bool \<Rightarrow> 32 word \<Rightarrow> modulator \<Rightarrow> os \<Rightarrow> ((int \<times> modulator) \<times> os) option" where
  "fmmod_init_processing ld dft mt eexist rate fmmod os =
     (let (ret, fmmod) = fmmod_init_osc fmmod in
      if ret < 0 then fmmod_init_fail ret fmmod os
      else
        let ((ret, rsmpl), os) = resampler_init mt rate OSC_SAMPLE_RATE FMMOD_OUTPUT_SAMPLERATE os;
            fmmod = fmmod\<lparr>fm_rsmpl := rsmpl\<rparr>
        in if ret < 0 then fmmod_init_fail FMMOD_ERR_RESAMPLER_ERR fmmod os
           else
             do {
               ((ret, flts), os) \<leftarrow> fmmod_init_filters ld dft rate (fm_num_in_samples fmmod) (fm_upsampled_num_samples fmmod)
                                      (fm_flts fmmod) os;
               let fmmod = fmmod\<lparr>fm_flts := flts\<rparr>;
               if ret < 0 then fmmod_init_fail ret fmmod os else fmmod_init_outputs eexist fmmod os
             })"

definition fmmod_initialize ::
  "(real \<Rightarrow> real) \<Rightarrow> dft_fun \<Rightarrow> bool \<Rightarrow> bool \<Rightarrow> jack_info \<Rightarrow> os \<Rightarrow> ((int \<times> modulator) \<times> os) option" where
  "fmmod_initialize ld dft mt eexist jack os =
     (let ((ret, fmmod), os) = fmmod_connect jack (fmmod_zero rds_encoder_zero) os in
      if ret < 0 then fmmod_init_fail ret fmmod os
      else
        let rate = jack_sample_rate jack;
            fmmod = fmmod\<lparr>fm_num_in_samples := jack_buffer_size jack\<rparr>
        in if rate = 0 \<or> fm_num_in_samples fmmod = 0 then fmmod_init_fail FMMOD_ERR_JACKD_ERR fmmod os
           else
             let ((ret, fmmod), os) = fmmod_init_buffers rate fmmod os in
             if ret < 0 then fmmod_init_fail ret fmmod os
             else fmmod_init_processing ld dft mt eexist rate fmmod os)"

subsection \<open>What the modulator holds\<close>

definition jack_handles :: "modulator \<Rightarrow> (res_kind \<times> nat option) list" where
  "jack_handles fmmod = [(Jack_Port, fm_inL fmmod), (Jack_Port, fm_inR fmmod), (Jack_Client, fm_client fmmod)]"

definition filters_held :: "fmmod_flts \<Rightarrow> resource multiset" where
  "filters_held flts = hilbert_held (hilb flts) + lpf_held (ssb_lpf flts) + lpf_held (lpf_r flts) + lpf_held (lpf_l flts)"

definition modulator_held :: "modulator \<Rightarrow> resource multiset" where
  "modulator_held fmmod =
     held_all (fmmod_buffer_handles fmmod) + filters_held (fm_flts fmmod) + resampler_held (fm_rsmpl fmmod) +
     rtp_held (fm_rtpsrv fmmod) + enc_held (fm_rds_enc fmmod) + map_held (fm_ctl_map fmmod) +
     held_all (jack_handles fmmod)"

lemma release_all_among:
  "os_live os = rest + held_all xs \<Longrightarrow> os_live (release_all xs os) = rest \<and> os_fault (release_all xs os) = os_fault os"
  using release_all_held [of xs os] by simp

lemma shm_destroy_among:
  "os_live os = rest + map_held sm \<Longrightarrow>
   os_live (utils_shm_destroy sm u os) = rest \<and> os_fault (utils_shm_destroy sm u os) = os_fault os"
  using utils_shm_destroy_map [of sm os u] by simp

lemma destroy_filters_among:
  assumes "os_live os = rest + filters_held (fm_flts fmmod)"
  shows "os_live (fmmod_destroy_filters fmmod os) = rest \<and> os_fault (fmmod_destroy_filters fmmod os) = os_fault os"
proof -
  let ?f = "fm_flts fmmod"
  let ?os1 = "lpf_filter_destroy (lpf_l ?f) os"
  let ?os2 = "lpf_filter_destroy (lpf_r ?f) ?os1"
  let ?os3 = "lpf_filter_destroy (ssb_lpf ?f) ?os2"
  have 1: "os_live ?os1 = rest + hilbert_held (hilb ?f) + lpf_held (ssb_lpf ?f) + lpf_held (lpf_r ?f) \<and> os_fault ?os1 = os_fault os"
    using assms by (intro lpf.stop_among) (simp add: filters_held_def add.assoc)
  have 2: "os_live ?os2 = rest + hilbert_held (hilb ?f) + lpf_held (ssb_lpf ?f) \<and> os_fault ?os2 = os_fault ?os1"
    using 1 by (intro lpf.stop_among) simp
  have 3: "os_live ?os3 = rest + hilbert_held (hilb ?f) \<and> os_fault ?os3 = os_fault ?os2"
    using 2 by (intro lpf.stop_among) simp
  have "os_live (hilbert_transformer_destroy (hilb ?f) ?os3) = rest \<and>
      os_fault (hilbert_transformer_destroy (hilb ?f) ?os3) = os_fault ?os3"
    using 3 by (intro hilbert.stop_among) simp
  then show ?thesis using 1 2 3 by (simp add: fmmod_destroy_filters_def Let_def)
qed

lemma fmmod_destroy_among:
  assumes live: "os_live os = rest + modulator_held fmmod"
    and run: "fmmod_destroy False fmmod os = ((fmmod', fd), os')"
  shows "os_live os' = rest \<and> os_fault os' = os_fault os \<and> \<not> fm_active fmmod' \<and> fd = fm_out_sock_fd fmmod"
proof -
  define b where "b = held_all (fmmod_buffer_handles fmmod)"
  define f where "f = filters_held (fm_flts fmmod)"
  define s where "s = resampler_held (fm_rsmpl fmmod)"
  define t where "t = rtp_held (fm_rtpsrv fmmod)"
  define e where "e = enc_held (fm_rds_enc fmmod)"
  define m where "m = map_held (fm_ctl_map fmmod)"
  note defs = b_def f_def s_def t_def e_def m_def
  define os1 where "os1 = fmmod_disconnect fmmod os"
  define os2 where "os2 = utils_shm_destroy (fm_ctl_map fmmod) True os1"
  define os3 where "os3 = snd (rds_encoder_destroy (fm_rds_enc fmmod) os2)"
  define os4 where "os4 = snd (rtp_server_destroy (fm_rtpsrv fmmod) os3)"
  define os5 where "os5 = snd (resampler_destroy (fm_rsmpl fmmod) os4)"
  define f6 where "f6 = fmmod\<lparr>fm_active := False, fm_rds_enc := fst (rds_encoder_destroy (fm_rds_enc fmmod) os2),
    fm_rtpsrv := fst (rtp_server_destroy (fm_rtpsrv fmmod) os3), fm_rsmpl := fst (resampler_destroy (fm_rsmpl fmmod) os4)\<rparr>"
  define os6 where "os6 = fmmod_destroy_filters f6 os5"
  have "fmmod_destroy False fmmod os = ((f6, fm_out_sock_fd f6), fmmod_free_buffers f6 os6)"
    by (simp add: fmmod_destroy_def Let_def case_prod_beta fmmod_outsock_destroy_def
        os1_def os2_def os3_def os4_def os5_def f6_def os6_def)
  then have run': "os' = fmmod_free_buffers f6 os6" "fmmod' = f6" "fd = fm_out_sock_fd f6" using run by simp_all
  have 1: "os_live os1 = rest + b + f + s + t + e + m \<and> os_fault os1 = os_fault os"
    unfolding os1_def fmmod_disconnect_def jack_handles_def [symmetric]
    using live by (intro release_all_among) (simp add: modulator_held_def defs add.assoc)
  have 2: "os_live os2 = rest + b + f + s + t + e \<and> os_fault os2 = os_fault os1"
    unfolding os2_def using 1 by (intro shm_destroy_among) (simp add: m_def)
  have 3: "os_live os3 = rest + b + f + s + t \<and> os_fault os3 = os_fault os2"
    unfolding os3_def using 2 by (intro encoder.stop_among) (simp add: e_def)
  have 4: "os_live os4 = rest + b + f + s \<and> os_fault os4 = os_fault os3"
    unfolding os4_def using 3 by (intro rtp.stop_among) (simp add: t_def)
  have 5: "os_live os5 = rest + b + f \<and> os_fault os5 = os_fault os4"
    unfolding os5_def using 4 by (intro resampler.stop_among) (simp add: s_def)
  have 6: "os_live os6 = rest + b \<and> os_fault os6 = os_fault os5"
    unfolding os6_def using 5 by (intro destroy_filters_among) (simp add: f_def f6_def)
  have "os_live (fmmod_free_buffers f6 os6) = rest \<and> os_fault (fmmod_free_buffers f6 os6) = os_fault os6"
    unfolding fmmod_free_buffers_def
    using 6 by (intro release_all_among) (simp add: b_def f6_def fmmod_buffer_handles_def)
  then show ?thesis using run' 1 2 3 4 5 6 by (simp add: f6_def)
qed

subsection \<open>A successful start\<close>

lemma fmmod_init_fail_neg: "fmmod_init_fail ret fmmod os = Some ((r, c), os') \<Longrightarrow> r = ret"
  by (auto simp: fmmod_init_fail_def split: prod.splits)

lemma fmmod_connect_ok:
  assumes "fmmod_connect jack fmmod os = ((r, c), os')" "0 \<le> r"
  shows "\<exists>h l k. c = fmmod\<lparr>fm_client := Some h, fm_inL := Some l, fm_inR := Some k\<rparr> \<and>
    os_live os' = os_live os + held_all (jack_handles c) \<and> os_fault os' = os_fault os"
  using assms
  by (auto simp: fmmod_connect_def fmmod_connect_cleanup_def acquire_def Let_def jack_handles_def
      split: if_splits)

lemma malloc_into_ok:
  assumes "malloc_into upd n rest fmmod os = ((r, c), os')" "0 \<le> r"
  obtains h os1 where "rest (upd (Some (h, replicate (unat (n * 4) div 4) 0)) fmmod) os1 = ((r, c), os')"
    "os_live os1 = add_mset (Heap, h) (os_live os)" "os_fault os1 = os_fault os"
proof (cases "os_fail os (os_next os)")
  case True
  then have "r = FMMOD_ERR_NOMEM" using assms(1) by (simp add: malloc_into_def acquire_def Let_def)
  then show ?thesis using assms(2) by simp
next
  case False
  then show ?thesis using assms(1) that [of "os_next os"] by (simp add: malloc_into_def acquire_def)
qed

text \<open>The sizes of the buffers, and the fields that the allocation leaves alone.\<close>

definition buffers_sized :: "modulator \<Rightarrow> bool" where
  "buffers_sized fmmod \<longleftrightarrow>
     (let a = unat (fm_num_in_samples fmmod * 4) div 4; b = unat (fm_upsampled_num_samples fmmod * 4) div 4;
          c = unat (fm_num_out_samples fmmod * 4) div 4
      in buf_len (fm_inbuf_l fmmod) = Some a \<and> buf_len (fm_inbuf_r fmmod) = Some a \<and>
         buf_len (fm_uaudio_buf_0 fmmod) = Some b \<and> buf_len (fm_uaudio_buf_1 fmmod) = Some b \<and>
         buf_len (fm_umpxbuf fmmod) = Some b \<and> buf_len (fm_outbuf fmmod) = Some c)"

text \<open>
  The allocations, from the last one back. \<open>zeros n\<close> is a buffer for \<open>n\<close> samples.
\<close>

abbreviation (input) zeros :: "32 word \<Rightarrow> real list" where "zeros n \<equiv> replicate (unat (n * 4) div 4) 0"

lemma fmmod_init_out_buffer_ok:
  assumes "fmmod_init_out_buffer fmmod os = ((r, c), os')" "0 \<le> r"
    and k: "k = word_of_int (num_resampled_samples_d (uint OSC_SAMPLE_RATE) (uint FMMOD_OUTPUT_SAMPLERATE)
      (sint (fm_upsampled_num_samples fmmod)))"
  obtains h where "c = fmmod\<lparr>fm_num_out_samples := k, fm_outbuf := Some (h, zeros k)\<rparr>"
    "os_live os' = add_mset (Heap, h) (os_live os)" "os_fault os' = os_fault os"
proof -
  from assms(1) obtain h osf where
    "((0, fmmod\<lparr>fm_num_out_samples := k, fm_outbuf := Some (h, zeros k)\<rparr>), osf) = ((r, c), os')"
    "os_live osf = add_mset (Heap, h) (os_live os)" "os_fault osf = os_fault os"
    unfolding fmmod_init_out_buffer_def Let_def k [symmetric] by (rule malloc_into_ok [OF _ assms(2)])
  then have "c = fmmod\<lparr>fm_num_out_samples := k, fm_outbuf := Some (h, zeros k)\<rparr>"
    "os_live os' = add_mset (Heap, h) (os_live os)" "os_fault os' = os_fault os" by simp_all
  then show ?thesis by (rule that)
qed

lemma fmmod_init_upsampled_buffers_ok:
  assumes "fmmod_init_upsampled_buffers rate fmmod os = ((r, c), os')" "0 \<le> r"
    and n: "n = word_of_int (num_resampled_samples_d (sint rate) (uint OSC_SAMPLE_RATE) (sint (fm_num_in_samples fmmod)))"
    and k: "k = word_of_int (num_resampled_samples_d (uint OSC_SAMPLE_RATE) (uint FMMOD_OUTPUT_SAMPLERATE) (sint n))"
  obtains ha hb hc hk where
    "c = fmmod\<lparr>fm_upsampled_num_samples := n, fm_uaudio_buf_0 := Some (ha, zeros n), fm_uaudio_buf_1 := Some (hb, zeros n),
       fm_umpxbuf := Some (hc, zeros n), fm_num_out_samples := k, fm_outbuf := Some (hk, zeros k)\<rparr>"
    "os_live os' = os_live os + {#(Heap, ha), (Heap, hb), (Heap, hc), (Heap, hk)#}" "os_fault os' = os_fault os"
proof -
  from assms(1) obtain ha osa where a:
    "malloc_into (\<lambda>b f. f\<lparr>fm_uaudio_buf_1 := b\<rparr>) n (malloc_into (\<lambda>b f. f\<lparr>fm_umpxbuf := b\<rparr>) n fmmod_init_out_buffer)
       (fmmod\<lparr>fm_upsampled_num_samples := n, fm_uaudio_buf_0 := Some (ha, zeros n)\<rparr>) osa = ((r, c), os')"
    "os_live osa = add_mset (Heap, ha) (os_live os)" "os_fault osa = os_fault os"
    unfolding fmmod_init_upsampled_buffers_def Let_def n [symmetric] by (rule malloc_into_ok [OF _ assms(2)])
  from a(1) obtain hb osb where b: "malloc_into (\<lambda>b f. f\<lparr>fm_umpxbuf := b\<rparr>) n fmmod_init_out_buffer
       (fmmod\<lparr>fm_upsampled_num_samples := n, fm_uaudio_buf_0 := Some (ha, zeros n), fm_uaudio_buf_1 := Some (hb, zeros n)\<rparr>)
       osb = ((r, c), os')"
    "os_live osb = add_mset (Heap, hb) (os_live osa)" "os_fault osb = os_fault osa"
    by (rule malloc_into_ok [OF _ assms(2)])
  from b(1) obtain hc osc where c: "fmmod_init_out_buffer
       (fmmod\<lparr>fm_upsampled_num_samples := n, fm_uaudio_buf_0 := Some (ha, zeros n), fm_uaudio_buf_1 := Some (hb, zeros n),
          fm_umpxbuf := Some (hc, zeros n)\<rparr>) osc = ((r, c), os')"
    "os_live osc = add_mset (Heap, hc) (os_live osb)" "os_fault osc = os_fault osb"
    by (rule malloc_into_ok [OF _ assms(2)])
  obtain hk where "c = fmmod\<lparr>fm_upsampled_num_samples := n, fm_uaudio_buf_0 := Some (ha, zeros n), fm_uaudio_buf_1 := Some (hb, zeros n),
       fm_umpxbuf := Some (hc, zeros n), fm_num_out_samples := k, fm_outbuf := Some (hk, zeros k)\<rparr>"
    "os_live os' = add_mset (Heap, hk) (os_live osc)" "os_fault os' = os_fault osc"
    by (rule fmmod_init_out_buffer_ok [OF c(1) assms(2), of k]) (simp add: k)
  note out = this
  have "os_live os' = os_live os + {#(Heap, ha), (Heap, hb), (Heap, hc), (Heap, hk)#}" "os_fault os' = os_fault os"
    using a(2,3) b(2,3) c(2,3) out(2,3) by (simp_all add: add_mset_commute)
  with out(1) show ?thesis by (rule that)
qed

lemma fmmod_init_buffers_ok:
  assumes "fmmod_init_buffers rate fmmod os = ((r, c), os')" "0 \<le> r"
    and n: "n = word_of_int (num_resampled_samples_d (sint rate) (uint OSC_SAMPLE_RATE) (sint (fm_num_in_samples fmmod)))"
    and k: "k = word_of_int (num_resampled_samples_d (uint OSC_SAMPLE_RATE) (uint FMMOD_OUTPUT_SAMPLERATE) (sint n))"
  obtains b1 b2 b3 b4 b5 b6 where
    "c = fmmod\<lparr>fm_inbuf_l := b1, fm_inbuf_r := b2, fm_upsampled_num_samples := n, fm_uaudio_buf_0 := b3, fm_uaudio_buf_1 := b4,
       fm_umpxbuf := b5, fm_num_out_samples := k, fm_outbuf := b6\<rparr>" "buffers_sized c"
    "os_live os' = os_live os + held_all (fmmod_buffer_handles c)" "os_fault os' = os_fault os"
proof -
  let ?z = "zeros (fm_num_in_samples fmmod)"
  from assms(1) obtain hl osa where a:
    "malloc_into (\<lambda>b f. f\<lparr>fm_inbuf_r := b\<rparr>) (fm_num_in_samples fmmod) (fmmod_init_upsampled_buffers rate)
       (fmmod\<lparr>fm_inbuf_l := Some (hl, ?z)\<rparr>) osa = ((r, c), os')"
    "os_live osa = add_mset (Heap, hl) (os_live os)" "os_fault osa = os_fault os"
    unfolding fmmod_init_buffers_def Let_def by (rule malloc_into_ok [OF _ assms(2)])
  from a(1) obtain hr osb where b: "fmmod_init_upsampled_buffers rate
       (fmmod\<lparr>fm_inbuf_l := Some (hl, ?z), fm_inbuf_r := Some (hr, ?z)\<rparr>) osb = ((r, c), os')"
    "os_live osb = add_mset (Heap, hr) (os_live osa)" "os_fault osb = os_fault osa"
    by (rule malloc_into_ok [OF _ assms(2)])
  have "n = word_of_int (num_resampled_samples_d (sint rate) (uint OSC_SAMPLE_RATE)
      (sint (fm_num_in_samples (fmmod\<lparr>fm_inbuf_l := Some (hl, ?z), fm_inbuf_r := Some (hr, ?z)\<rparr>))))" using n by simp
  from fmmod_init_upsampled_buffers_ok [OF b(1) assms(2) this k] obtain ha hb hc hk where c:
    "c = fmmod\<lparr>fm_inbuf_l := Some (hl, ?z), fm_inbuf_r := Some (hr, ?z), fm_upsampled_num_samples := n,
       fm_uaudio_buf_0 := Some (ha, zeros n), fm_uaudio_buf_1 := Some (hb, zeros n),
       fm_umpxbuf := Some (hc, zeros n), fm_num_out_samples := k, fm_outbuf := Some (hk, zeros k)\<rparr>"
    "os_live os' = os_live osb + {#(Heap, ha), (Heap, hb), (Heap, hc), (Heap, hk)#}" "os_fault os' = os_fault osb" by metis
  have "buffers_sized c" "os_live os' = os_live os + held_all (fmmod_buffer_handles c)" "os_fault os' = os_fault os"
    using a(2,3) b(2,3) c(2,3) by (simp_all add: c(1) fmmod_buffer_handles_def buffers_sized_def add_mset_commute Let_def)
  with c(1) show ?thesis by (rule that)
qed

text \<open>The filters.\<close>

definition flts_zero :: "fmmod_flts \<Rightarrow> bool" where
  "flts_zero flts \<longleftrightarrow> lpf_l flts = lpf_zero \<and> lpf_r flts = lpf_zero \<and> ssb_lpf flts = lpf_zero \<and> hilb flts = hilbert_zero"

lemma filters_cleanup_ok:
  assumes "fmmod_filters_cleanup ret flts os = Some ((r, c), os')"
  shows "r = ret" "0 \<le> ret \<Longrightarrow> c = flts \<and> os' = os"
  using assms by (auto simp: fmmod_filters_cleanup_def Let_def)

lemma lpf_init_success:
  assumes "lpf_filter_init ld dft lpf_zero cutoff rate p ov os = Some ((r, c), os')" "0 \<le> r"
  shows "os_live os' = os_live os + lpf_held c" "os_fault os' = os_fault os"
    "lpf_env ld dft cutoff rate ov \<Longrightarrow> \<exists>resp w. lpf_ready p ov resp w c"
proof -
  show "os_live os' = os_live os + lpf_held c" "os_fault os' = os_fault os" using lpf.start_ok [OF assms] by simp_all
  assume env: "lpf_env ld dft cutoff rate ov"
  obtain imp where imp: "generate_lpf_impulse ld ((ucast ov + 1) * p) (f32 (of_nat (unat cutoff))) (f32 (of_nat (unat rate))) = Some imp"
    using lpf_env_impulse [OF env] by blast
  have dft: "\<And>n xs. length (dft n xs) = n div 2 + 1" using env by (simp add: lpf_env_def)
  from dft imp show "\<exists>resp w. lpf_ready p ov resp w c"
  proof (cases rule: lpf_init_outcome [of dft ld ov p cutoff rate imp os])
    case 1
    then show ?thesis using assms by simp
  next
    case 2
    then show ?thesis using assms by auto
  qed
qed

lemma fmmod_init_filters_ok:
  assumes run: "fmmod_init_filters ld dft rate n m flts os = Some ((r, c), os')" "0 \<le> r" and zero: "flts_zero flts"
  shows "os_live os' = os_live os + filters_held c \<and> os_fault os' = os_fault os \<and>
    (lpf_env ld dft AFLT_CUTOFF_FREQ rate AFLT_LPF_OVERLAP_FACTOR \<longrightarrow>
       (\<exists>resp w. lpf_ready (ucast n) AFLT_LPF_OVERLAP_FACTOR resp w (lpf_l c)) \<and>
       (\<exists>resp w. lpf_ready (ucast n) AFLT_LPF_OVERLAP_FACTOR resp w (lpf_r c)))"
proof -
  obtain pl l pr k where pre: "fmpreemph_filter_init ld (fmprf_l flts) (f32 (of_nat (unat rate))) = (pl, l)"
    "fmpreemph_filter_init ld (fmprf_r flts) (f32 (of_nat (unat rate))) = (pr, k)" by (metis prod.collapse)
  note start = run(1) [unfolded fmmod_init_filters_def Let_def pre prod.case]
  have ok: "\<not> pl < 0" "\<not> pr < 0" using start run(2) by (auto split: if_splits)
  define f0 where "f0 = flts\<lparr>fmprf_l := l, fmprf_r := k\<rparr>"
  have z: "lpf_l f0 = lpf_zero" "lpf_r f0 = lpf_zero" "ssb_lpf f0 = lpf_zero" "hilb f0 = hilbert_zero"
    using zero by (simp_all add: f0_def flts_zero_def)
  obtain r1 c1 os1 where l1: "lpf_filter_init ld dft lpf_zero AFLT_CUTOFF_FREQ rate (ucast n) AFLT_LPF_OVERLAP_FACTOR os = Some ((r1, c1), os1)"
      "0 \<le> r1"
    using start ok z run(2) by (auto simp: f0_def bind_eq_Some_conv dest!: filters_cleanup_ok(1) split: if_splits)
  obtain r2 c2 os2 where l2: "lpf_filter_init ld dft lpf_zero AFLT_CUTOFF_FREQ rate (ucast n) AFLT_LPF_OVERLAP_FACTOR os1 = Some ((r2, c2), os2)"
      "0 \<le> r2"
    using start ok z run(2) l1 by (auto simp: f0_def bind_eq_Some_conv dest!: filters_cleanup_ok(1) split: if_splits)
  obtain r3 c3 os3 where l3: "lpf_filter_init ld dft lpf_zero 38000 OSC_SAMPLE_RATE (ucast m) SSB_LPF_OVERLAP_FACTOR os2 = Some ((r3, c3), os3)"
      "0 \<le> r3"
    using start ok z run(2) l1 l2 by (auto simp: f0_def bind_eq_Some_conv dest!: filters_cleanup_ok(1) split: if_splits)
  obtain r4 c4 os4 where h4: "hilbert_transformer_init hilbert_zero (ucast m) os3 = ((r4, c4), os4)" by (metis prod.collapse)
  have "fmmod_filters_cleanup (if r4 < 0 then FMMOD_ERR_HILBERT else r4)
      (f0\<lparr>lpf_l := c1, lpf_r := c2, ssb_lpf := c3, hilb := c4\<rparr>) os4 = Some ((r, c), os')"
    using start ok z l1 l2 l3 h4 by (simp add: f0_def)
  from filters_cleanup_ok [OF this] run(2)
  have c: "0 \<le> r4" "c = f0\<lparr>lpf_l := c1, lpf_r := c2, ssb_lpf := c3, hilb := c4\<rparr>" "os' = os4" by (auto split: if_splits)
  have "os_live os4 = os_live os3 + hilbert_held c4" "os_fault os4 = os_fault os3"
    using hilbert_init_held [OF h4] c(1) by simp_all
  with lpf_init_success [OF l1] lpf_init_success [OF l2] lpf_init_success(1,2) [OF l3] show ?thesis
    by (simp add: c filters_held_def ac_simps)
qed

text \<open>The control channel, the thread and the activation.\<close>

lemma fmmod_init_ctl_ok:
  assumes "fmmod_init_ctl fmmod os = Some ((r, c), os')" "0 \<le> r"
  obtains m ctl where "c = fmmod\<lparr>fm_ctl_map := Some m, fm_ctl := ctl\<rparr>" "os_live os' = os_live os + map_held (Some m)"
    "os_fault os' = os_fault os" "stereo_modulation ctl = FMMOD_DSB"
proof -
  obtain res os1 where shm: "utils_shm_init FMMOD_CTL_SHM_NAME sizeof_fmmod_control os = (res, os1)" by (metis prod.collapse)
  obtain m where m: "res = Some m" "shm_mem m \<noteq> Mem_Null" "os' = os1"
    using assms shm by (cases res) (auto simp: fmmod_init_ctl_def split: if_splits)
  show ?thesis
  proof (rule that)
    show "c = fmmod\<lparr>fm_ctl_map := Some m, fm_ctl := fm_ctl c\<rparr>" "stereo_modulation (fm_ctl c) = FMMOD_DSB"
      using assms shm m by (auto simp: fmmod_init_ctl_def)
    show "os_live os' = os_live os + map_held (Some m)" "os_fault os' = os_fault os"
      using utils_shm_init_map [of FMMOD_CTL_SHM_NAME sizeof_fmmod_control os m os1] utils_shm_init_cases(1) [OF shm] shm m
      by simp_all
  qed
qed

lemma fmmod_init_run_ok:
  assumes run: "fmmod_init_run fmmod os = Some ((r, c), os')" "0 \<le> r"
  obtains m ctl tid where "c = fmmod\<lparr>fm_ctl_map := Some m, fm_ctl := ctl, fm_active := True\<rparr>"
    "os_live os' = add_mset (Thread, tid) (os_live os + map_held (Some m))" "os_fault os' = os_fault os"
    "stereo_modulation ctl = FMMOD_DSB"
proof -
  obtain r1 f1 os1 where ctl: "fmmod_init_ctl fmmod os = Some ((r1, f1), os1)" "0 \<le> r1"
    using run by (auto simp: fmmod_init_run_def bind_eq_Some_conv dest!: fmmod_init_fail_neg split: if_splits)
  have c: "c = f1\<lparr>fm_active := True\<rparr>" "os_live os' = add_mset (Thread, os_next os1) (os_live os1)" "os_fault os' = os_fault os1"
    using run ctl
    by (auto simp: fmmod_init_run_def acquire_def attempt_def Let_def dest!: fmmod_init_fail_neg split: if_splits)
  from ctl show ?thesis
  proof (rule fmmod_init_ctl_ok)
    fix m ctl
    assume "f1 = fmmod\<lparr>fm_ctl_map := Some m, fm_ctl := ctl\<rparr>" "os_live os1 = os_live os + map_held (Some m)"
      "os_fault os1 = os_fault os" "stereo_modulation ctl = FMMOD_DSB"
    with c show ?thesis by (intro that [where m = m and ctl = ctl and tid = "os_next os1"]) simp_all
  qed
qed

text \<open>The RDS encoder, the output socket and the RTP server.\<close>

lemma fmmod_init_outputs_ok:
  assumes run: "fmmod_init_outputs eexist fmmod os = Some ((r, c), os')" "0 \<le> r" and zero: "fm_rtpsrv fmmod = rtp_zero"
  obtains enc srv m ctl tid where
    "c = fmmod\<lparr>fm_rds_enc := enc, fm_rtpsrv := srv, fm_ctl_map := Some m, fm_ctl := ctl, fm_active := True\<rparr>"
    "os_live os' = add_mset (Thread, tid) (os_live os + enc_held enc + rtp_held srv + map_held (Some m))"
    "os_fault os' = os_fault os" "stereo_modulation ctl = FMMOD_DSB"
proof -
  obtain r1 enc os1 where enc: "rds_encoder_init (fm_rsmpl fmmod) os = Some ((r1, enc), os1)" "0 \<le> r1"
    using run by (auto simp: fmmod_init_outputs_def Let_def bind_eq_Some_conv dest!: fmmod_init_fail_neg split: if_splits)
  obtain r2 os2 where sock: "fmmod_init_outsock eexist os1 = (r2, os2)" by (metis prod.collapse)
  have r2: "0 \<le> r2" using run enc sock
    by (auto simp: fmmod_init_outputs_def Let_def dest!: fmmod_init_fail_neg split: if_splits)
  obtain r3 srv os3 where srv: "rtp_server_init rtp_zero (fm_num_out_samples fmmod * 4) (uint FMMOD_OUTPUT_SAMPLERATE) 5000 os2 =
      Some ((r3, srv), os3)" "0 \<le> r3"
    using run enc sock r2 zero
    by (auto simp: fmmod_init_outputs_def Let_def bind_eq_Some_conv dest!: fmmod_init_fail_neg split: if_splits)
  have rest: "fmmod_init_run (fmmod\<lparr>fm_rds_enc := enc, fm_rtpsrv := srv\<rparr>) os3 = Some ((r, c), os')"
    using run enc sock r2 zero srv by (simp add: fmmod_init_outputs_def Let_def)
  have live: "os_live os3 = os_live os + enc_held enc + rtp_held srv" "os_fault os3 = os_fault os"
    using encoder.start_ok [OF enc] rtp.start_ok [OF srv] sock
    by (auto simp: fmmod_init_outsock_def attempt_def)
  from rest run(2) show ?thesis
  proof (rule fmmod_init_run_ok)
    fix m ctl tid
    assume "c = fmmod\<lparr>fm_rds_enc := enc, fm_rtpsrv := srv, fm_ctl_map := Some m, fm_ctl := ctl, fm_active := True\<rparr>"
      "os_live os' = add_mset (Thread, tid) (os_live os3 + map_held (Some m))" "os_fault os' = os_fault os3"
      "stereo_modulation ctl = FMMOD_DSB"
    with live show ?thesis
      by (intro that [where enc = enc and srv = srv and m = m and ctl = ctl and tid = tid]) simp_all
  qed
qed

text \<open>The oscillators, the resampler and the filters.\<close>

lemma resampler_init_bypass:
  assumes "resampler_init False jack OSC_SAMPLE_RATE FMMOD_OUTPUT_SAMPLERATE os = ((r, c), os')" "0 \<le> r"
  shows "rs_mpx_downsampler_bypass c = 0" "rs_audio_upsampler_bypass c \<noteq> 0 \<Longrightarrow> jack = OSC_SAMPLE_RATE"
  using assms
  by (auto simp: resampler_init_def resampler_init_rds_mpx_def resampler_fail_def resampler_destroy_def
      resampler_init_upsampler_threads_def resampler_zero_def acquire_def Let_def split: if_splits)

lemma fmmod_init_osc_keeps:
  assumes "fmmod_init_osc fmmod = (r, c)"
  obtains s t where "c = fmmod\<lparr>fm_sin_osc := s, fm_cos_osc := t\<rparr>"
proof -
  have "c = fmmod\<lparr>fm_sin_osc := fm_sin_osc c, fm_cos_osc := fm_cos_osc c\<rparr>"
    using assms by (auto simp: fmmod_init_osc_def Let_def split: prod.splits if_splits)
  then show ?thesis by (rule that)
qed

definition filters_ready :: "modulator \<Rightarrow> bool" where
  "filters_ready fmmod \<longleftrightarrow>
     (\<exists>resp w. lpf_ready (ucast (fm_num_in_samples fmmod)) AFLT_LPF_OVERLAP_FACTOR resp w (lpf_l (fm_flts fmmod))) \<and>
     (\<exists>resp w. lpf_ready (ucast (fm_num_in_samples fmmod)) AFLT_LPF_OVERLAP_FACTOR resp w (lpf_r (fm_flts fmmod)))"

lemma fmmod_init_processing_ok:
  assumes run: "fmmod_init_processing ld dft False eexist rate fmmod os = Some ((r, c), os')" "0 \<le> r"
    and zero: "fm_rtpsrv fmmod = rtp_zero" "flts_zero (fm_flts fmmod)"
  obtains s t rs fl enc srv m ctl tid where
    "c = fmmod\<lparr>fm_sin_osc := s, fm_cos_osc := t, fm_rsmpl := rs, fm_flts := fl, fm_rds_enc := enc, fm_rtpsrv := srv,
       fm_ctl_map := Some m, fm_ctl := ctl, fm_active := True\<rparr>"
    "os_live os' = add_mset (Thread, tid)
       (os_live os + resampler_held rs + filters_held fl + enc_held enc + rtp_held srv + map_held (Some m))"
    "os_fault os' = os_fault os" "stereo_modulation ctl = FMMOD_DSB"
    "rs_mpx_downsampler_bypass rs = 0" "rs_audio_upsampler_bypass rs \<noteq> 0 \<longrightarrow> rate = OSC_SAMPLE_RATE"
    "lpf_env ld dft AFLT_CUTOFF_FREQ rate AFLT_LPF_OVERLAP_FACTOR \<longrightarrow> filters_ready c"
proof -
  obtain r0 f0 where osc: "fmmod_init_osc fmmod = (r0, f0)" by (metis prod.collapse)
  obtain s t where f0: "f0 = fmmod\<lparr>fm_sin_osc := s, fm_cos_osc := t\<rparr>" using osc by (rule fmmod_init_osc_keeps)
  obtain r1 rs os1 where rs: "resampler_init False rate OSC_SAMPLE_RATE FMMOD_OUTPUT_SAMPLERATE os = ((r1, rs), os1)"
    by (metis prod.collapse)
  note start = run(1) [unfolded fmmod_init_processing_def Let_def osc rs prod.case]
  have r01: "0 \<le> r0" "0 \<le> r1" using start run(2) by (auto dest!: fmmod_init_fail_neg split: if_splits)
  obtain r2 fl os2 where fl: "fmmod_init_filters ld dft rate (fm_num_in_samples fmmod) (fm_upsampled_num_samples fmmod) (fm_flts fmmod) os1 =
      Some ((r2, fl), os2)" "0 \<le> r2"
    using start r01 run(2) by (auto simp: f0 bind_eq_Some_conv dest!: fmmod_init_fail_neg split: if_splits)
  have rest: "fmmod_init_outputs eexist (fmmod\<lparr>fm_sin_osc := s, fm_cos_osc := t, fm_rsmpl := rs, fm_flts := fl\<rparr>) os2 = Some ((r, c), os')"
    using start r01 fl by (simp add: f0)
  note flt = fmmod_init_filters_ok [OF fl zero(2)]
  have live: "os_live os2 = os_live os + resampler_held rs + filters_held fl" "os_fault os2 = os_fault os"
    using resampler_init_held [OF rs] r01(2) flt by simp_all
  have z: "fm_rtpsrv (fmmod\<lparr>fm_sin_osc := s, fm_cos_osc := t, fm_rsmpl := rs, fm_flts := fl\<rparr>) = rtp_zero" using zero by simp
  obtain enc srv m ctl tid where out:
    "c = fmmod\<lparr>fm_sin_osc := s, fm_cos_osc := t, fm_rsmpl := rs, fm_flts := fl, fm_rds_enc := enc, fm_rtpsrv := srv,
       fm_ctl_map := Some m, fm_ctl := ctl, fm_active := True\<rparr>"
    "os_live os' = add_mset (Thread, tid) (os_live os2 + enc_held enc + rtp_held srv + map_held (Some m))"
    "os_fault os' = os_fault os2" "stereo_modulation ctl = FMMOD_DSB"
    by (rule fmmod_init_outputs_ok [OF rest run(2) z])
  show ?thesis
    by (rule that [OF out(1), of tid])
      (use out live flt resampler_init_bypass [OF rs r01(2)] in \<open>simp_all add: filters_ready_def\<close>)
qed

subsection \<open>Start and end\<close>

lemma num_resampled_same:
  assumes "0 < rate" "0 \<le> n" "n \<le> 2 ^ 53"
  shows "num_resampled_samples_d rate rate n = n"
proof -
  have "f64 (of_int n) = of_int n" using assms by (intro f64_of_int) simp
  then show ?thesis using assms by (simp add: num_resampled_samples_d_def Let_def rnd64.one c_trunc_def)
qed

lemma num_resampled_bounds:
  assumes "0 < a" "0 \<le> b" "b \<le> q * a" "1 \<le> q" "0 \<le> n" "q * n \<le> 2 ^ 53" "q \<le> 2 ^ 53"
  shows "0 \<le> num_resampled_samples_d a b n \<and> num_resampled_samples_d a b n \<le> q * n"
proof -
  define ratio where "ratio = f64 (of_int b / of_int a)"
  define olenf where "olenf = f64 (ratio * of_int n)"
  define rest where "rest = f64 (of_int n - olenf)"
  have n: "n \<le> q * n" using mult_right_mono [of 1 q n] assms(4,5) by simp
  have q: "f64 (of_int q) = of_int q" "f64 (of_int (q * n)) = of_int (q * n)" "f64 (of_int n) = of_int n"
    by (rule f64_of_int, use assms n in simp)+
  have "of_int b \<le> (of_int q * of_int a :: real)" using assms(3) by (metis of_int_le_iff of_int_mult)
  then have "of_int b / of_int a \<le> (of_int q :: real)" using assms(1) by (simp add: pos_divide_le_eq)
  then have r: "0 \<le> ratio" "ratio \<le> of_int q"
    using assms(1,2) rnd64.mono [of "of_int b / of_int a" "of_int q"] q(1) by (simp_all add: ratio_def rnd64.nonneg)
  have "ratio * of_int n \<le> of_int (q * n)" using r assms(5) by (simp add: mult_right_mono)
  then have o: "0 \<le> olenf" "olenf \<le> of_int (q * n)"
    using r assms(5) rnd64.mono [of "ratio * of_int n" "of_int (q * n)"] q(2) by (simp_all add: olenf_def rnd64.nonneg)
  have "rest \<le> of_int n" using o rnd64.mono [of "of_int n - olenf" "of_int n"] q(3) by (simp add: rest_def)
  also have "\<dots> \<le> of_int (q * n)" using n by (simp only: of_int_le_iff)
  finally have m: "0 \<le> max olenf rest" "max olenf rest \<le> of_int (q * n)" using o by simp_all
  have "num_resampled_samples_d a b n = \<lfloor>max olenf rest\<rfloor>"
    using m(1) by (simp add: num_resampled_samples_d_def Let_def c_trunc_def ratio_def olenf_def rest_def)
  then show ?thesis using m by (simp add: floor_le_iff del: of_int_mult)
qed

lemma sint_small:
  assumes "unat (w :: 32 word) < 2 ^ 31"
  shows "sint w = int (unat w)"
proof -
  have "int (unat w) < 2 ^ 31" using assms by (simp del: of_nat_unat)
  then have "signed_take_bit 31 (uint w) = uint w"
    by (intro signed_take_bit_int_eq_self) (rule order_trans [of _ 0 "uint w"], simp_all)
  then show ?thesis by (simp add: sint_uint)
qed

lemma num_resampled_period:
  assumes "unat (w :: 32 word) < 2 ^ 14"
  shows "word_of_int (num_resampled_samples_d 228000 228000 (sint w)) = w"
proof -
  have s: "sint w = int (unat w)" using assms by (intro sint_small) simp
  have "unat w < 16384" using assms by simp
  then have "int (unat w) \<le> 2 ^ 53" by (simp del: of_nat_unat)
  then have "num_resampled_samples_d 228000 228000 (sint w) = sint w" unfolding s by (intro num_resampled_same) simp_all
  then show ?thesis by simp
qed

lemma times_4_div:
  assumes "unat (w :: 32 word) < 2 ^ 30"
  shows "unat (w * 4) div 4 = unat w"
proof -
  have "unat w * unat (4 :: 32 word) < 2 ^ 32" using assms by simp
  then have "unat (w * 4) = unat w * 4" by (simp add: unat_word_ariths)
  then show ?thesis by simp
qed

lemma buffers_sized_ok:
  assumes "buffers_sized fmmod" "unat (fm_num_in_samples fmmod) < 2 ^ 30" "unat (fm_upsampled_num_samples fmmod) < 2 ^ 30"
    "unat (fm_num_out_samples fmmod) < 2 ^ 30"
  shows "buffers_ok fmmod"
  using assms(1) times_4_div [OF assms(2)] times_4_div [OF assms(3)] times_4_div [OF assms(4)]
  unfolding buffers_sized_def buffers_ok_def Let_def by simp

lemma filters_ready_ok:
  assumes "filters_ready fmmod" "unat (fm_num_in_samples fmmod) < 2 ^ 14"
  shows "audio_lpf_ok fmmod"
proof -
  let ?p = "ucast (fm_num_in_samples fmmod) :: 16 word"
  have p: "unat ?p = unat (fm_num_in_samples fmmod)" using assms(2) by (simp add: unsigned_ucast_eq take_bit_nat_eq_self)
  have "unat (ucast AFLT_LPF_OVERLAP_FACTOR * ?p) \<le> 3 * unat ?p"
    by (simp add: unat_word_ariths)
  then show ?thesis using assms p unfolding audio_lpf_ok_def filters_ready_def Let_def by simp
qed

text \<open>What a started modulator is, and what it holds.\<close>

lemma fmmod_initialize_shape:
  assumes run: "fmmod_initialize ld dft False eexist jack os = Some ((r, c), os')" "0 \<le> r"
  shows "\<exists>tid. os_live os' = add_mset (Thread, tid) (os_live os) + modulator_held c"
    and "os_fault os' = os_fault os \<and> fm_active c \<and> fm_out_sock_fd c = 0 \<and> buffers_sized c \<and>
      fm_num_in_samples c = jack_buffer_size jack \<and> stereo_modulation (fm_ctl c) = FMMOD_DSB"
    and "fm_upsampled_num_samples c = word_of_int (num_resampled_samples_d (sint (jack_sample_rate jack)) (uint OSC_SAMPLE_RATE)
      (sint (jack_buffer_size jack))) \<and>
      fm_num_out_samples c = word_of_int (num_resampled_samples_d (uint OSC_SAMPLE_RATE) (uint FMMOD_OUTPUT_SAMPLERATE)
        (sint (fm_upsampled_num_samples c)))"
    and "rs_mpx_downsampler_bypass (fm_rsmpl c) = 0 \<and>
      (rs_audio_upsampler_bypass (fm_rsmpl c) \<noteq> 0 \<longrightarrow> jack_sample_rate jack = OSC_SAMPLE_RATE)"
    and "lpf_env ld dft AFLT_CUTOFF_FREQ (jack_sample_rate jack) AFLT_LPF_OVERLAP_FACTOR \<longrightarrow> filters_ready c"
proof -
  let ?rate = "jack_sample_rate jack" and ?p = "jack_buffer_size jack"
  obtain r1 f1 os1 where con: "fmmod_connect jack (fmmod_zero rds_encoder_zero) os = ((r1, f1), os1)" by (metis prod.collapse)
  define f2 where "f2 = f1\<lparr>fm_num_in_samples := ?p\<rparr>"
  obtain r3 f3 os3 where buf: "fmmod_init_buffers ?rate f2 os1 = ((r3, f3), os3)" by (metis prod.collapse)
  note start = run(1) [unfolded fmmod_initialize_def Let_def con prod.case f2_def [symmetric] buf]
  have pos: "0 \<le> r1" "0 \<le> r3" and rest: "fmmod_init_processing ld dft False eexist ?rate f3 os3 = Some ((r, c), os')"
    using start run(2) by (auto dest!: fmmod_init_fail_neg split: if_splits)
  obtain h l k where f1: "f1 = (fmmod_zero rds_encoder_zero)\<lparr>fm_client := Some h, fm_inL := Some l, fm_inR := Some k\<rparr>"
    "os_live os1 = os_live os + held_all (jack_handles f1)" "os_fault os1 = os_fault os"
    using fmmod_connect_ok [OF con pos(1)] by blast
  define n where "n = (word_of_int (num_resampled_samples_d (sint ?rate) (uint OSC_SAMPLE_RATE) (sint (fm_num_in_samples f2))) :: 32 word)"
  define m where "m = (word_of_int (num_resampled_samples_d (uint OSC_SAMPLE_RATE) (uint FMMOD_OUTPUT_SAMPLERATE) (sint n)) :: 32 word)"
  obtain b1 b2 b3 b4 b5 b6 where f3:
    "f3 = f2\<lparr>fm_inbuf_l := b1, fm_inbuf_r := b2, fm_upsampled_num_samples := n, fm_uaudio_buf_0 := b3, fm_uaudio_buf_1 := b4,
       fm_umpxbuf := b5, fm_num_out_samples := m, fm_outbuf := b6\<rparr>" "buffers_sized f3"
    "os_live os3 = os_live os1 + held_all (fmmod_buffer_handles f3)" "os_fault os3 = os_fault os1"
    by (rule fmmod_init_buffers_ok [OF buf pos(2) n_def m_def])
  have zero: "fm_rtpsrv f3 = rtp_zero" "flts_zero (fm_flts f3)"
    by (simp_all add: f3(1) f2_def f1(1) fmmod_zero_def flts_zero_def)
  obtain s t rs fl enc srv sm ctl tid where c:
    "c = f3\<lparr>fm_sin_osc := s, fm_cos_osc := t, fm_rsmpl := rs, fm_flts := fl, fm_rds_enc := enc, fm_rtpsrv := srv,
       fm_ctl_map := Some sm, fm_ctl := ctl, fm_active := True\<rparr>"
    "os_live os' = add_mset (Thread, tid)
       (os_live os3 + resampler_held rs + filters_held fl + enc_held enc + rtp_held srv + map_held (Some sm))"
    "os_fault os' = os_fault os3" "stereo_modulation ctl = FMMOD_DSB"
    "rs_mpx_downsampler_bypass rs = 0" "rs_audio_upsampler_bypass rs \<noteq> 0 \<longrightarrow> ?rate = OSC_SAMPLE_RATE"
    "lpf_env ld dft AFLT_CUTOFF_FREQ ?rate AFLT_LPF_OVERLAP_FACTOR \<longrightarrow> filters_ready c"
    by (rule fmmod_init_processing_ok [OF rest run(2) zero])
  have handles: "jack_handles c = jack_handles f1" "fmmod_buffer_handles c = fmmod_buffer_handles f3"
    by (simp_all add: c(1) f3(1) f2_def jack_handles_def fmmod_buffer_handles_def)
  show "\<exists>tid. os_live os' = add_mset (Thread, tid) (os_live os) + modulator_held c"
    unfolding modulator_held_def handles
    by (rule exI [of _ tid]) (simp add: c(1,2) f3(3) f1(2) ac_simps)
  have "buffers_sized c" using f3(2) by (simp add: c(1) buffers_sized_def)
  then show "os_fault os' = os_fault os \<and> fm_active c \<and> fm_out_sock_fd c = 0 \<and> buffers_sized c \<and>
      fm_num_in_samples c = ?p \<and> stereo_modulation (fm_ctl c) = FMMOD_DSB"
    using c(3,4) f3(4) f1(3) by (simp add: c(1) f3(1) f2_def f1(1) fmmod_zero_def)
  show "fm_upsampled_num_samples c = word_of_int (num_resampled_samples_d (sint ?rate) (uint OSC_SAMPLE_RATE) (sint ?p)) \<and>
      fm_num_out_samples c = word_of_int (num_resampled_samples_d (uint OSC_SAMPLE_RATE) (uint FMMOD_OUTPUT_SAMPLERATE)
        (sint (fm_upsampled_num_samples c)))"
    by (simp add: c(1) f3(1) n_def m_def f2_def)
  show "rs_mpx_downsampler_bypass (fm_rsmpl c) = 0 \<and> (rs_audio_upsampler_bypass (fm_rsmpl c) \<noteq> 0 \<longrightarrow> ?rate = OSC_SAMPLE_RATE)"
    using c(5,6) by (simp add: c(1))
  show "lpf_env ld dft AFLT_CUTOFF_FREQ ?rate AFLT_LPF_OVERLAP_FACTOR \<longrightarrow> filters_ready c" by (rule c(7))
qed

text \<open>The periods JACK can have: fewer than 16384 frames, at 8 kHz or more.\<close>

definition jack_ok :: "jack_info \<Rightarrow> bool" where
  "jack_ok jack \<longleftrightarrow> unat (jack_buffer_size jack) < 2 ^ 14 \<and> 8000 \<le> unat (jack_sample_rate jack) \<and>
     unat (jack_sample_rate jack) < 2 ^ 31"

lemma unat_word_of_int: "0 \<le> k \<Longrightarrow> k < 2 ^ 31 \<Longrightarrow> unat (word_of_int k :: 32 word) = nat k"
  by (simp add: unat_eq_nat_uint uint_word_of_int)

lemma fmmod_sizes_bounded:
  assumes "jack_ok jack"
    and u: "u = word_of_int (num_resampled_samples_d (sint (jack_sample_rate jack)) (uint OSC_SAMPLE_RATE) (sint (jack_buffer_size jack)))"
    and v: "v = word_of_int (num_resampled_samples_d (uint OSC_SAMPLE_RATE) (uint FMMOD_OUTPUT_SAMPLERATE) (sint u))"
  shows "unat (u :: 32 word) < 2 ^ 30" "unat (v :: 32 word) < 2 ^ 30"
proof -
  define p where "p = int (unat (jack_buffer_size jack))"
  define r where "r = int (unat (jack_sample_rate jack))"
  have b: "0 \<le> p" "p < 16384" "8000 \<le> r" using assms(1) by (simp_all add: jack_ok_def p_def r_def del: of_nat_unat)
  have s: "sint (jack_buffer_size jack) = p" "sint (jack_sample_rate jack) = r"
    unfolding p_def r_def by (rule sint_small, use assms(1) in \<open>simp add: jack_ok_def\<close>)+
  define k where "k = num_resampled_samples_d r 228000 p"
  have k: "0 \<le> k" "k \<le> 29 * p" using num_resampled_bounds [of r 228000 29 p] b by (simp_all add: k_def)
  then have uk: "unat u = nat k" using b u s by (simp add: k_def [symmetric] unat_word_of_int)
  then show "unat u < 2 ^ 30" using k b by simp
  have su: "sint u = k" using k b uk by (subst sint_small) (simp_all del: of_nat_unat)
  define m where "m = num_resampled_samples_d 228000 192000 k"
  have "0 \<le> m" "m \<le> k" using num_resampled_bounds [of 228000 192000 1 k] k b by (simp_all add: m_def)
  then show "unat v < 2 ^ 30" using v su k b by (simp add: m_def [symmetric] unat_word_of_int)
qed

lemma fmmod_initialize_establishes:
  assumes run: "fmmod_initialize ld dft False eexist jack os = Some ((r, c), os')" "0 \<le> r" and jack: "jack_ok jack"
    and env: "lpf_env ld dft AFLT_CUTOFF_FREQ (jack_sample_rate jack) AFLT_LPF_OVERLAP_FACTOR"
  shows "fmmod_ok (\<lambda>_. True) c"
proof -
  note shape = fmmod_initialize_shape [OF run]
  have p: "unat (jack_buffer_size jack) < 2 ^ 14" using jack by (simp add: jack_ok_def)
  have "fm_upsampled_num_samples c = jack_buffer_size jack" if "jack_sample_rate jack = OSC_SAMPLE_RATE"
    using shape(3) num_resampled_period [OF p] that by simp
  then have "bypass_ok c" using shape(2,4) by (auto simp: bypass_ok_def)
  moreover have "buffers_ok c"
    using shape(2) p fmmod_sizes_bounded [OF jack] shape(3) by (intro buffers_sized_ok) simp_all
  moreover have "audio_lpf_ok c" using shape(2,5) env p by (intro filters_ready_ok) simp_all
  ultimately show ?thesis using shape(2) by (simp add: fmmod_ok_def)
qed

text \<open>When no request fails and the names of the segments are free, the modulator starts.\<close>

definition calm :: "string list \<Rightarrow> os \<Rightarrow> os \<Rightarrow> bool" where
  "calm names os os' \<longleftrightarrow> no_fail os' \<and> os_shm os' = names @ os_shm os"

lemma shm_init_calm:
  assumes "no_fail os" "name \<notin> set (os_shm os)"
  shows "\<exists>m os'. utils_shm_init name sz os = (Some m, os') \<and> shm_mem m \<noteq> Mem_Null \<and> calm [name] os os'"
  using assms by (simp add: shm_defs no_fail_def calm_def)

lemma fmmod_connect_calm:
  assumes "no_fail os" "\<not> jack_name_not_unique jack"
  shows "\<exists>c os'. fmmod_connect jack fmmod os = ((0, c), os') \<and> calm [] os os'"
  using assms by (simp add: fmmod_connect_def fmmod_connect_cleanup_def acquire_def no_fail_def calm_def Let_def)

lemma fmmod_init_buffers_calm:
  assumes "no_fail os"
  shows "\<exists>c os'. fmmod_init_buffers rate fmmod os = ((0, c), os') \<and> calm [] os os'"
  using assms
  by (simp add: fmmod_init_buffers_def fmmod_init_upsampled_buffers_def fmmod_init_out_buffer_def malloc_into_def
      acquire_def no_fail_def calm_def Let_def)

lemma fmmod_init_osc_calm: "\<exists>c. fmmod_init_osc fmmod = (0, c)"
  by (simp add: fmmod_init_osc_def osc_initialize_def Let_def)

lemma resampler_init_calm:
  assumes "no_fail os"
  shows "\<exists>c os'. resampler_init False rate osc out os = ((0, c), os') \<and> calm [] os os'"
  using assms
  by (simp add: resampler_init_def resampler_init_rds_mpx_def resampler_init_upsampler_threads_def acquire_def
      no_fail_def calm_def Let_def)

lemma hilbert_init_calm:
  assumes "no_fail os"
  shows "\<exists>c os'. hilbert_transformer_init ht n os = ((0, c), os') \<and> calm [] os os'"
  using assms
  by (simp add: hilbert_transformer_init_def hilbert_cleanup_def fftwf_alloc_def acquire_def no_fail_def calm_def Let_def)

lemma fmmod_init_ctl_calm:
  assumes "no_fail os" "FMMOD_CTL_SHM_NAME \<notin> set (os_shm os)"
  shows "\<exists>c os'. fmmod_init_ctl fmmod os = Some ((0, c), os') \<and> calm [FMMOD_CTL_SHM_NAME] os os'"
proof -
  obtain m os' where "utils_shm_init FMMOD_CTL_SHM_NAME sizeof_fmmod_control os = (Some m, os')" "shm_mem m \<noteq> Mem_Null"
    "calm [FMMOD_CTL_SHM_NAME] os os'" using shm_init_calm [OF assms] by blast
  then show ?thesis by (simp add: fmmod_init_ctl_def)
qed

lemma rds_encoder_init_calm:
  assumes "no_fail os" "RDS_ENC_SHM_NAME \<notin> set (os_shm os)"
  shows "\<exists>c os'. rds_encoder_init rsmpl os = Some ((0, c), os') \<and> calm [RDS_ENC_SHM_NAME] os os'"
proof -
  obtain m os1 where "utils_shm_init RDS_ENC_SHM_NAME sizeof_rds_encoder_state os = (Some m, os1)" "shm_mem m \<noteq> Mem_Null"
    "calm [RDS_ENC_SHM_NAME] os os1" using shm_init_calm [OF assms] by blast
  then show ?thesis
    by (simp add: rds_encoder_init_def rds_encoder_init_rest_def acquire_def no_fail_def calm_def Let_def)
qed

lemma fmpreemph_init_calm: "\<exists>c. fmpreemph_filter_init ld fmprf rate = (0, c)"
  by (simp add: fmpreemph_filter_init_def fmpreemph_filter_init_mode_def Let_def case_prod_beta)

lemma fmmod_init_filters_calm:
  assumes nf: "no_fail os" and env: "lpf_env ld dft AFLT_CUTOFF_FREQ rate AFLT_LPF_OVERLAP_FACTOR"
    "lpf_env ld dft 38000 OSC_SAMPLE_RATE SSB_LPF_OVERLAP_FACTOR" and zero: "flts_zero flts"
  shows "\<exists>c os'. fmmod_init_filters ld dft rate n m flts os = Some ((0, c), os') \<and> calm [] os os'"
proof -
  obtain l r where pre: "fmpreemph_filter_init ld (fmprf_l flts) (f32 (of_nat (unat rate))) = (0, l)"
    "fmpreemph_filter_init ld (fmprf_r flts) (f32 (of_nat (unat rate))) = (0, r)"
    using fmpreemph_init_calm by metis
  obtain c1 os1 where 1: "lpf_filter_init ld dft lpf_zero AFLT_CUTOFF_FREQ rate (ucast n) AFLT_LPF_OVERLAP_FACTOR os = Some ((0, c1), os1)"
    "no_fail os1" "os_shm os1 = os_shm os" using lpf_init_no_fail [OF nf env(1)] by blast
  obtain c2 os2 where 2: "lpf_filter_init ld dft lpf_zero AFLT_CUTOFF_FREQ rate (ucast n) AFLT_LPF_OVERLAP_FACTOR os1 = Some ((0, c2), os2)"
    "no_fail os2" "os_shm os2 = os_shm os1" using lpf_init_no_fail [OF 1(2) env(1)] by blast
  obtain c3 os3 where 3: "lpf_filter_init ld dft lpf_zero 38000 OSC_SAMPLE_RATE (ucast m) SSB_LPF_OVERLAP_FACTOR os2 = Some ((0, c3), os3)"
    "no_fail os3" "os_shm os3 = os_shm os2" using lpf_init_no_fail [OF 2(2) env(2)] by blast
  obtain c4 os4 where 4: "hilbert_transformer_init hilbert_zero (ucast m) os3 = ((0, c4), os4)" "calm [] os3 os4"
    using hilbert_init_calm [OF 3(2)] by blast
  show ?thesis
    using zero 1 2 3 4 by (simp add: fmmod_init_filters_def fmmod_filters_cleanup_def flts_zero_def Let_def
        pre [unfolded of_nat_unat] calm_def)
qed

lemma fmmod_init_run_calm:
  assumes "no_fail os" "FMMOD_CTL_SHM_NAME \<notin> set (os_shm os)"
  shows "\<exists>c os'. fmmod_init_run fmmod os = Some ((0, c), os')"
proof -
  obtain c os1 where "fmmod_init_ctl fmmod os = Some ((0, c), os1)" "calm [FMMOD_CTL_SHM_NAME] os os1"
    using fmmod_init_ctl_calm [OF assms] by blast
  then show ?thesis by (simp add: fmmod_init_run_def acquire_def attempt_def no_fail_def calm_def Let_def)
qed

lemma shm_names_distinct: "FMMOD_CTL_SHM_NAME \<noteq> RDS_ENC_SHM_NAME" "FMMOD_CTL_SHM_NAME \<noteq> RTP_SRV_SHM_NAME" "RDS_ENC_SHM_NAME \<noteq> RTP_SRV_SHM_NAME"
  by (simp_all add: FMMOD_CTL_SHM_NAME_def RDS_ENC_SHM_NAME_def RTP_SRV_SHM_NAME_def)

lemma fmmod_init_outputs_calm:
  assumes nf: "no_fail os" and free: "set (os_shm os) \<inter> {FMMOD_CTL_SHM_NAME, RDS_ENC_SHM_NAME, RTP_SRV_SHM_NAME} = {}"
    and zero: "fm_rtpsrv fmmod = rtp_zero"
  shows "\<exists>c os'. fmmod_init_outputs eexist fmmod os = Some ((0, c), os')"
proof -
  obtain e os1 where e: "rds_encoder_init (fm_rsmpl fmmod) os = Some ((0, e), os1)" "calm [RDS_ENC_SHM_NAME] os os1"
    using rds_encoder_init_calm [OF nf] free by blast
  obtain os2 where sock: "fmmod_init_outsock eexist os1 = (0, os2)" "calm [] os1 os2"
    using e(2) by (simp add: fmmod_init_outsock_def attempt_def calm_def no_fail_def)
  have os2: "no_fail os2" "RTP_SRV_SHM_NAME \<notin> set (os_shm os2)" "FMMOD_CTL_SHM_NAME \<notin> set (os_shm os2)"
    using free sock(2) e(2) shm_names_distinct by (auto simp: calm_def)
  obtain s os3 where s: "rtp_server_init rtp_zero (fm_num_out_samples fmmod * 4) (uint FMMOD_OUTPUT_SAMPLERATE) 5000 os2 = Some ((0, s), os3)"
    "no_fail os3" "os_shm os3 = RTP_SRV_SHM_NAME # os_shm os2" using rtp_server_init_no_fail [OF os2(1,2)] by blast
  have "FMMOD_CTL_SHM_NAME \<notin> set (os_shm os3)" using s(3) os2(3) shm_names_distinct by simp
  from fmmod_init_run_calm [OF s(2) this] zero e(1) sock(1) s(1) show ?thesis by (simp add: fmmod_init_outputs_def Let_def)
qed

lemma fmmod_initialize_calm:
  assumes nf: "no_fail os" and free: "set (os_shm os) \<inter> {FMMOD_CTL_SHM_NAME, RDS_ENC_SHM_NAME, RTP_SRV_SHM_NAME} = {}"
    and jack: "\<not> jack_name_not_unique jack" "jack_sample_rate jack \<noteq> 0" "jack_buffer_size jack \<noteq> 0"
    and env: "lpf_env ld dft AFLT_CUTOFF_FREQ (jack_sample_rate jack) AFLT_LPF_OVERLAP_FACTOR"
      "lpf_env ld dft 38000 OSC_SAMPLE_RATE SSB_LPF_OVERLAP_FACTOR"
  shows "\<exists>c os'. fmmod_initialize ld dft False eexist jack os = Some ((0, c), os')"
proof -
  let ?rate = "jack_sample_rate jack"
  obtain f1 os1 where con: "fmmod_connect jack (fmmod_zero rds_encoder_zero) os = ((0, f1), os1)" "calm [] os os1"
    using fmmod_connect_calm [OF nf jack(1)] by blast
  define f2 where "f2 = f1\<lparr>fm_num_in_samples := jack_buffer_size jack\<rparr>"
  have "no_fail os1" using con(2) by (simp add: calm_def)
  then obtain f3 os3 where buf: "fmmod_init_buffers ?rate f2 os1 = ((0, f3), os3)" "calm [] os1 os3"
    using fmmod_init_buffers_calm by blast
  obtain h l k b1 b2 b3 b4 b5 b6 n m where f3: "f3 = (fmmod_zero rds_encoder_zero)\<lparr>fm_client := Some h, fm_inL := Some l, fm_inR := Some k,
      fm_num_in_samples := jack_buffer_size jack, fm_inbuf_l := b1, fm_inbuf_r := b2, fm_upsampled_num_samples := n, fm_uaudio_buf_0 := b3,
      fm_uaudio_buf_1 := b4, fm_umpxbuf := b5, fm_num_out_samples := m, fm_outbuf := b6\<rparr>"
    using fmmod_connect_ok [OF con(1)] fmmod_init_buffers_ok [OF buf(1) _ refl refl] by (metis f2_def order_refl)
  obtain f4 where osc: "fmmod_init_osc f3 = (0, f4)" using fmmod_init_osc_calm by blast
  obtain s t where f4: "f4 = f3\<lparr>fm_sin_osc := s, fm_cos_osc := t\<rparr>" using osc by (rule fmmod_init_osc_keeps)
  have "no_fail os3" using buf(2) by (simp add: calm_def)
  then obtain rs os5 where rs: "resampler_init False ?rate OSC_SAMPLE_RATE FMMOD_OUTPUT_SAMPLERATE os3 = ((0, rs), os5)" "calm [] os3 os5"
    using resampler_init_calm by blast
  have z: "flts_zero (fm_flts f4)" "fm_rtpsrv f4 = rtp_zero" by (simp_all add: f4 f3 fmmod_zero_def flts_zero_def)
  have "no_fail os5" using rs(2) by (simp add: calm_def)
  then obtain fl os6 where fl: "fmmod_init_filters ld dft ?rate (fm_num_in_samples f4) (fm_upsampled_num_samples f4) (fm_flts f4) os5 = Some ((0, fl), os6)"
    "calm [] os5 os6" using fmmod_init_filters_calm [OF _ env z(1)] by blast
  have os6: "no_fail os6" "os_shm os6 = os_shm os" using fl(2) rs(2) buf(2) con(2) by (simp_all add: calm_def)
  obtain c os' where "fmmod_init_outputs eexist (f4\<lparr>fm_rsmpl := rs, fm_flts := fl\<rparr>) os6 = Some ((0, c), os')"
    using fmmod_init_outputs_calm [OF os6(1), of "f4\<lparr>fm_rsmpl := rs, fm_flts := fl\<rparr>" eexist] free z(2) os6(2) by auto
  then have "fmmod_init_processing ld dft False eexist ?rate f3 os3 = Some ((0, c), os')"
    using osc rs(1) fl(1) by (simp add: fmmod_init_processing_def)
  then show ?thesis using con(1) jack buf(1) by (simp add: fmmod_initialize_def f2_def)
qed


definition example_jack :: jack_info where
  "example_jack = \<lparr>jack_name_not_unique = False, jack_sample_rate = 228000, jack_buffer_size = 1024\<rparr>"

lemma example_lpf_env: "lpf_env f64 zero_dft AFLT_CUTOFF_FREQ 228000 3"
proof -
  have "f32 16750 = 16750" "f32 228000 = 228000" using f32_of_int [of 16750] f32_of_int [of 228000] by simp_all
  then show ?thesis by (simp add: lpf_env_def long_double_f64 zero_dft_def power_int_minus)
qed


subsection \<open>A start that fails\<close>

text \<open>The modulator before its oscillators are initialised.\<close>

definition unstarted :: "modulator \<Rightarrow> bool" where
  "unstarted fmmod \<longleftrightarrow> fm_ctl_map fmmod = None \<and> fm_rds_enc fmmod = rds_encoder_zero \<and> fm_rtpsrv fmmod = rtp_zero \<and>
     fm_rsmpl fmmod = resampler_zero \<and> flts_zero (fm_flts fmmod)"

lemma destroy_zero:
  "utils_shm_destroy None u os = os" "snd (rds_encoder_destroy rds_encoder_zero os) = os"
  "snd (rtp_server_destroy rtp_zero os) = os" "snd (resampler_destroy resampler_zero os) = os"
  "lpf_filter_destroy lpf_zero os = os" "hilbert_transformer_destroy hilbert_zero os = os"
  by (simp_all add: utils_shm_destroy_def rds_encoder_destroy_def rds_encoder_cleanup_def rds_encoder_zero_def ug_zero_def
      release_opt_def rtp_server_destroy_def rtp_zero_def resampler_destroy_def resampler_zero_def lpf_filter_destroy_def
      lpf_handles_def lpf_zero_def hilbert_transformer_destroy_def hilbert_handles_def hilbert_zero_def Let_def)

lemma destroy_unstarted:
  assumes "unstarted fmmod"
  shows "snd (fmmod_destroy False fmmod os) = fmmod_free_buffers fmmod (fmmod_disconnect fmmod os)"
proof -
  have keep: "fmmod_free_buffers (fmmod\<lparr>fm_active := False, fm_rds_enc := e, fm_rtpsrv := t, fm_rsmpl := r\<rparr>) os1 = fmmod_free_buffers fmmod os1"
    for e t r os1 by (simp add: fmmod_free_buffers_def fmmod_buffer_handles_def)
  have flts: "fmmod_destroy_filters (fmmod\<lparr>fm_active := False, fm_rds_enc := e, fm_rtpsrv := t, fm_rsmpl := r\<rparr>) os1 = os1"
    for e t r os1 using assms by (simp add: fmmod_destroy_filters_def unstarted_def flts_zero_def Let_def destroy_zero)
  have u: "fm_ctl_map fmmod = None" "fm_rds_enc fmmod = rds_encoder_zero" "fm_rtpsrv fmmod = rtp_zero" "fm_rsmpl fmmod = resampler_zero"
    using assms by (simp_all add: unstarted_def)
  show ?thesis by (simp add: fmmod_destroy_def Let_def case_prod_beta u destroy_zero keep flts)
qed

lemma release_all_mono:
  "os_live (release_all xs os) \<subseteq># os_live os \<and> (os_fault os \<longrightarrow> os_fault (release_all xs os))"
proof (induction xs arbitrary: os)
  case (Cons x xs)
  let ?os = "release_opt (fst x) (snd x) os"
  have "os_live ?os \<subseteq># os_live os" "os_fault os \<longrightarrow> os_fault ?os"
    by (simp_all add: release_opt_def release_def split: option.splits)
  then show ?case using Cons.IH [of ?os] subset_mset.order_trans by auto
qed simp

lemma release_all_gone:
  assumes "(k, Some h) \<in> set xs" "count (os_live os) (k, h) \<le> 1"
  shows "(k, h) \<notin># os_live (release_all xs os)"
  using assms
proof (induction xs arbitrary: os)
  case (Cons x xs)
  let ?os = "release_opt (fst x) (snd x) os"
  have le: "count (os_live ?os) (k, h) \<le> 1"
    using Cons.prems(2) by (auto simp: release_opt_def release_def split: option.splits)
  show ?case
  proof (cases "x = (k, Some h)")
    case True
    then have "(k, h) \<notin># os_live ?os"
      using Cons.prems(2) by (auto simp: release_opt_def release_def not_in_iff)
    then show ?thesis using release_all_mono [of xs ?os] mset_subset_eqD by fastforce
  next
    case False
    then show ?thesis using Cons.IH [OF _ le] Cons.prems(1) by auto
  qed
qed simp

lemma release_all_twice:
  assumes "(k, Some h) \<in> set xs" "(k, h) \<notin># os_live os"
  shows "os_fault (release_all xs os)"
  using assms
proof (induction xs arbitrary: os)
  case (Cons x xs)
  let ?os = "release_opt (fst x) (snd x) os"
  have "(k, h) \<notin># os_live ?os"
    using Cons.prems(2) by (auto simp: release_opt_def release_def dest: in_diffD split: option.splits)
  moreover have "os_fault ?os" if "x = (k, Some h)" using Cons.prems(2) that by (simp add: release_opt_def release_def)
  ultimately show ?case using Cons release_all_mono [of xs ?os] by auto
qed simp

text \<open>A cleanup after the cleanup of the buffers frees them again.\<close>

lemma fmmod_init_fail_twice:
  assumes "unstarted fmmod" "(Heap, Some h) \<in> set (fmmod_buffer_handles fmmod)" "count (os_live os) (Heap, h) \<le> 1"
  shows "\<exists>c os'. fmmod_init_fail ret fmmod (fmmod_free_buffers fmmod os) = Some ((ret, c), os') \<and> os_fault os'"
proof -
  let ?os1 = "fmmod_free_buffers fmmod os" and ?os2 = "fmmod_disconnect fmmod (fmmod_free_buffers fmmod os)"
  have "(Heap, h) \<notin># os_live ?os1" using release_all_gone [OF assms(2,3)] by (simp add: fmmod_free_buffers_def)
  then have "(Heap, h) \<notin># os_live ?os2"
    using release_all_mono mset_subset_eqD unfolding fmmod_disconnect_def by metis
  then have "os_fault (snd (fmmod_destroy False fmmod ?os1))"
    using release_all_twice [OF assms(2)] unfolding destroy_unstarted [OF assms(1)] fmmod_free_buffers_def by blast
  then show ?thesis by (simp add: fmmod_init_fail_def split: prod.splits) (metis prod.collapse snd_conv)
qed

lemma malloc_into_cases:
  "os_fail os (os_next os) \<Longrightarrow>
     malloc_into upd n rest fmmod os = ((FMMOD_ERR_NOMEM, upd None fmmod), fmmod_free_buffers (upd None fmmod) (os\<lparr>os_next := Suc (os_next os)\<rparr>))"
  "\<not> os_fail os (os_next os) \<Longrightarrow>
     malloc_into upd n rest fmmod os = rest (upd (Some (os_next os, zeros n)) fmmod)
       (os\<lparr>os_next := Suc (os_next os), os_live := add_mset (Heap, os_next os) (os_live os)\<rparr>)"
  by (simp_all add: malloc_into_def acquire_def Let_def)

text \<open>
  A step that allocates: when one of its next \<open>j\<close> requests fails it cleans up, and the modulator
  still points to the block \<open>h\<close> that it has just freed.
\<close>

definition frees :: "nat \<Rightarrow> nat \<Rightarrow> init_step \<Rightarrow> bool" where
  "frees h j step \<longleftrightarrow>
     (\<forall>fmmod os. unstarted fmmod \<and> map_option fst (fm_inbuf_l fmmod) = Some h \<and> count (os_live os) (Heap, h) \<le> 1 \<and> h < os_next os \<and>
        (\<exists>i < j. os_fail os (os_next os + i)) \<longrightarrow>
        (\<exists>c os1. step fmmod os = ((FMMOD_ERR_NOMEM, c), fmmod_free_buffers c os1) \<and> unstarted c \<and>
           map_option fst (fm_inbuf_l c) = Some h \<and> count (os_live os1) (Heap, h) \<le> 1))"

lemma malloc_into_frees:
  assumes "frees h j rest"
    and "\<And>b f. unstarted (upd b f) = unstarted f" "\<And>b f. fm_inbuf_l (upd b f) = fm_inbuf_l f"
  shows "frees h (Suc j) (malloc_into upd n rest)"
  unfolding frees_def
proof (intro allI impI, elim conjE exE)
  fix fmmod :: modulator and os :: os and i
  assume a: "unstarted fmmod" "map_option fst (fm_inbuf_l fmmod) = Some h" "count (os_live os) (Heap, h) \<le> 1" "h < os_next os"
    "i < Suc j" "os_fail os (os_next os + i)"
  show "\<exists>c os1. malloc_into upd n rest fmmod os = ((FMMOD_ERR_NOMEM, c), fmmod_free_buffers c os1) \<and> unstarted c \<and>
      map_option fst (fm_inbuf_l c) = Some h \<and> count (os_live os1) (Heap, h) \<le> 1"
  proof (cases "os_fail os (os_next os)")
    case True
    show ?thesis
      unfolding malloc_into_cases(1) [OF True]
      by (intro exI [of _ "upd None fmmod"] exI [of _ "os\<lparr>os_next := Suc (os_next os)\<rparr>"]) (use a assms in simp)
  next
    case False
    let ?f = "upd (Some (os_next os, zeros n)) fmmod"
    let ?os = "os\<lparr>os_next := Suc (os_next os), os_live := add_mset (Heap, os_next os) (os_live os)\<rparr>"
    obtain i' where "i = Suc i'" using a False by (cases i) auto
    then have "\<exists>i < j. os_fail ?os (os_next ?os + i)" using a by auto
    then show ?thesis
      using assms(1) [unfolded frees_def, rule_format, of ?f ?os] a assms(2,3) unfolding malloc_into_cases(2) [OF False] by simp
  qed
qed

lemma fmmod_init_buffers_fails:
  assumes "unstarted fmmod" "(Heap, os_next os) \<notin># os_live os" "\<not> os_fail os (os_next os)"
    and "\<exists>i < 5. os_fail os (os_next os + 1 + i)"
  shows "\<exists>c os1. fmmod_init_buffers rate fmmod os = ((FMMOD_ERR_NOMEM, c), fmmod_free_buffers c os1) \<and> unstarted c \<and>
    map_option fst (fm_inbuf_l c) = Some (os_next os) \<and> count (os_live os1) (Heap, os_next os) \<le> 1"
proof -
  have keep: "frees h 0 step" for h step by (simp add: frees_def)
  have upd: "unstarted (f\<lparr>fm_outbuf := b\<rparr>) = unstarted f" "unstarted (f\<lparr>fm_umpxbuf := b\<rparr>) = unstarted f"
    "unstarted (f\<lparr>fm_uaudio_buf_0 := b\<rparr>) = unstarted f" "unstarted (f\<lparr>fm_uaudio_buf_1 := b\<rparr>) = unstarted f"
    "unstarted (f\<lparr>fm_inbuf_r := b\<rparr>) = unstarted f" "unstarted (f\<lparr>fm_inbuf_l := b\<rparr>) = unstarted f"
    "unstarted (f\<lparr>fm_num_out_samples := n\<rparr>) = unstarted f" "unstarted (f\<lparr>fm_upsampled_num_samples := n\<rparr>) = unstarted f" for f b n
    by (simp_all add: unstarted_def)
  have out: "frees (os_next os) 1 fmmod_init_out_buffer"
    using malloc_into_frees [OF keep, of "\<lambda>b f. f\<lparr>fm_outbuf := b\<rparr>" "os_next os" _ "\<lambda>f os. ((0, f), os)"]
    by (simp add: frees_def fmmod_init_out_buffer_def Let_def upd)
  have ups: "frees (os_next os) 4 (fmmod_init_upsampled_buffers rate)"
  proof -
    have "frees (os_next os) (Suc (Suc (Suc 1))) (malloc_into (\<lambda>b f. f\<lparr>fm_uaudio_buf_0 := b\<rparr>) n
        (malloc_into (\<lambda>b f. f\<lparr>fm_uaudio_buf_1 := b\<rparr>) n (malloc_into (\<lambda>b f. f\<lparr>fm_umpxbuf := b\<rparr>) n fmmod_init_out_buffer)))" for n
      by (intro malloc_into_frees out) (simp_all add: upd)
    then show ?thesis
      by (simp add: frees_def fmmod_init_upsampled_buffers_def Let_def upd numeral_eq_Suc)
  qed
  have "frees (os_next os) (Suc 4) (malloc_into (\<lambda>b f. f\<lparr>fm_inbuf_r := b\<rparr>) (fm_num_in_samples fmmod) (fmmod_init_upsampled_buffers rate))"
    by (intro malloc_into_frees ups) (simp_all add: upd)
  from this [unfolded frees_def, rule_format, of "fmmod\<lparr>fm_inbuf_l := Some (os_next os, zeros (fm_num_in_samples fmmod))\<rparr>"
      "os\<lparr>os_next := Suc (os_next os), os_live := add_mset (Heap, os_next os) (os_live os)\<rparr>"]
  show ?thesis
    using assms by (simp add: fmmod_init_buffers_def Let_def malloc_into_cases(2) upd not_in_iff)
qed

text \<open>
  C39: When the memory for one of the five later buffers cannot be allocated, the start fails with
  \<^verbatim>\<open>FMMOD_ERR_NOMEM\<close> and frees memory twice: \<^verbatim>\<open>fmmod_init_buffers\<close> frees what it has allocated without
  clearing the pointers, and the cleanup of \<^verbatim>\<open>fmmod_initialize\<close> frees it again.
\<close>

theorem fmmod_buffer_failure_double_free:
  assumes "\<forall>i < 4. \<not> f i" "\<exists>i < 5. f (4 + i)"
    and "\<not> jack_name_not_unique jack" "jack_sample_rate jack \<noteq> 0" "jack_buffer_size jack \<noteq> 0"
  shows "\<exists>fmmod os'. fmmod_initialize ld dft mt eexist jack (os_start f) = Some ((FMMOD_ERR_NOMEM, fmmod), os') \<and> os_fault os'"
proof -
  have f: "\<not> f 0" "\<not> f 1" "\<not> f 2" "\<not> f 3" using assms(1) by simp_all
  define f1 where "f1 = (fmmod_zero rds_encoder_zero)\<lparr>fm_client := Some 0, fm_inL := Some 1, fm_inR := Some 2\<rparr>"
  define os1 where "os1 = (os_start f)\<lparr>os_next := 3, os_live := {#(Jack_Port, 2), (Jack_Port, 1), (Jack_Client, 0)#}\<rparr>"
  have con: "fmmod_connect jack (fmmod_zero rds_encoder_zero) (os_start f) = ((0, f1), os1)"
    using f assms(3) by (simp add: fmmod_connect_def fmmod_connect_cleanup_def acquire_def os_start_def Let_def f1_def os1_def
        numeral_2_eq_2 numeral_3_eq_3)
  define f2 where "f2 = f1\<lparr>fm_num_in_samples := jack_buffer_size jack\<rparr>"
  have "unstarted f2" by (simp add: f2_def f1_def fmmod_zero_def unstarted_def flts_zero_def)
  from fmmod_init_buffers_fails [OF this, of os1 "jack_sample_rate jack"] obtain c os2 where
    buf: "fmmod_init_buffers (jack_sample_rate jack) f2 os1 = ((FMMOD_ERR_NOMEM, c), fmmod_free_buffers c os2)" "unstarted c"
      "map_option fst (fm_inbuf_l c) = Some 3" "count (os_live os2) (Heap, 3) \<le> 1"
    using f assms(2) by (auto simp: os1_def os_start_def)
  have "(Heap, Some 3) \<in> set (fmmod_buffer_handles c)" using buf(3) by (auto simp: fmmod_buffer_handles_def)
  from fmmod_init_fail_twice [OF buf(2) this buf(4), of FMMOD_ERR_NOMEM] con buf(1) assms(4,5) show ?thesis
    by (simp add: fmmod_initialize_def f2_def)
qed

theorem fmmod_buffer_failure_double_free_witness:
  "\<exists>fmmod os'. fmmod_initialize f64 zero_dft False False example_jack (os_start (\<lambda>i. i = 6)) =
     Some ((FMMOD_ERR_NOMEM, fmmod), os') \<and> os_fault os'"
proof (rule fmmod_buffer_failure_double_free)
  show "\<exists>i < 5. 4 + i = (6 :: nat)" by (rule exI [of _ 2]) simp
qed (simp_all add: example_jack_def)

end
