(* ===== verification/Cli.thy ===== *)
theory Cli
  imports Prelude Utils
begin

text \<open>
  What the command-line tools use of the C library: \<^verbatim>\<open>snprintf\<close> with \<^verbatim>\<open>%s\<close>, \<^verbatim>\<open>%X\<close> and \<^verbatim>\<open>%i\<close>, and
  \<^verbatim>\<open>strtol\<close>, on the bytes of the arguments. A \<^verbatim>\<open>long\<close> has 64 bits; a number that does not fit is
  replaced by the nearest one that does, as \<^verbatim>\<open>strtol\<close> documents. The last part is the frame the
  three tools share: they attach to the segment of a running component, work on it and detach.
\<close>

subsection \<open>The functions\<close>

text \<open>\<^verbatim>\<open>snprintf(buf, n, "%s", s)\<close>.\<close>

definition snprintf_s :: "cstring \<Rightarrow> nat \<Rightarrow> cstring \<Rightarrow> cstring" where
  "snprintf_s buf n s = (let k = strnlen s (n - 1) in take k s @ 0 # drop (Suc k) buf)"

definition digit_byte :: "nat \<Rightarrow> byte" where
  "digit_byte d = (if d < 10 then of_nat (48 + d) else of_nat (55 + d))"

text \<open>A natural number in a base from 2 to 36, with upper case letters.\<close>

fun show_base :: "nat \<Rightarrow> nat \<Rightarrow> cstring" where
  "show_base b n =
     (if b < 2 \<or> n < b then [digit_byte n] else show_base b (n div b) @ [digit_byte (n mod b)])"

declare show_base.simps [simp del]

definition byte_digit :: "byte \<Rightarrow> nat option" where
  "byte_digit c =
     (let n = unat c in
      if 48 \<le> n \<and> n \<le> 57 then Some (n - 48)
      else if 65 \<le> n \<and> n \<le> 90 then Some (n - 55)
      else if 97 \<le> n \<and> n \<le> 122 then Some (n - 87)
      else None)"

definition is_base_digit :: "nat \<Rightarrow> byte \<Rightarrow> bool" where
  "is_base_digit b c = (case byte_digit c of Some d \<Rightarrow> d < b | None \<Rightarrow> False)"

fun scan_base :: "nat \<Rightarrow> nat \<Rightarrow> cstring \<Rightarrow> nat" where
  "scan_base b acc [] = acc"
| "scan_base b acc (c # cs) =
     (if is_base_digit b c then scan_base b (acc * b + the (byte_digit c)) cs else acc)"

text \<open>The optional \<^verbatim>\<open>0x\<close> of base 16, which only counts when a digit follows.\<close>

fun skip_0x :: "nat \<Rightarrow> cstring \<Rightarrow> cstring" where
  "skip_0x b (z # x # h # cs) =
     (if b = 16 \<and> z = 0x30 \<and> (x = 0x78 \<or> x = 0x58) \<and> is_base_digit 16 h then h # cs else z # x # h # cs)"
| "skip_0x b cs = cs"

definition strtol :: "cstring \<Rightarrow> nat \<Rightarrow> int" where
  "strtol s b =
     (let s = dropWhile isspace s;
          neg = (s \<noteq> [] \<and> hd s = 0x2D);
          s = (if s \<noteq> [] \<and> (hd s = 0x2D \<or> hd s = 0x2B) then tl s else s);
          v = int (scan_base b 0 (skip_0x b s))
      in max (- (2 ^ 63)) (min (2 ^ 63 - 1) (if neg then - v else v)))"

definition atoi :: "cstring \<Rightarrow> int" where "atoi s = sint (word_of_int (strtol s 10) :: 32 word)"

subsection \<open>Numbers read back\<close>

lemma unat_digit_byte: "d < 36 \<Longrightarrow> unat (digit_byte d) = (if d < 10 then 48 + d else 55 + d)"
  by (cases "d < 10") (simp_all add: digit_byte_def unat_of_nat del: of_nat_add)

lemma byte_digit_digit: "d < 36 \<Longrightarrow> byte_digit (digit_byte d) = Some d"
  by (auto simp: byte_digit_def Let_def unat_digit_byte)

lemma is_base_digit_digit: "d < b \<Longrightarrow> b \<le> 36 \<Longrightarrow> is_base_digit b (digit_byte d)"
  by (simp add: is_base_digit_def byte_digit_digit)

lemma scan_base_show:
  assumes "2 \<le> b" "b \<le> 36"
  shows "\<exists>k. \<forall>acc. scan_base b acc (show_base b n @ cs) = scan_base b (acc * b ^ k + n) cs"
proof (induction n arbitrary: cs rule: less_induct)
  case (less n)
  show ?case
  proof (cases "n < b")
    case True
    then have "\<forall>acc. scan_base b acc (show_base b n @ cs) = scan_base b (acc * b ^ 1 + n) cs"
      using assms by (subst show_base.simps) (simp add: is_base_digit_digit byte_digit_digit)
    then show ?thesis by blast
  next
    case False
    let ?r = "n mod b"
    have r: "?r < b" "n div b < n" using False assms by (simp_all add: div_less_dividend)
    obtain k where k: "\<forall>acc. scan_base b acc (show_base b (n div b) @ digit_byte ?r # cs) =
        scan_base b (acc * b ^ k + n div b) (digit_byte ?r # cs)"
      using less.IH [OF r(2)] by blast
    have "(acc * b ^ k + n div b) * b + ?r = acc * b ^ Suc k + n" for acc
      by (simp add: algebra_simps)
    with k r assms False
    have "\<forall>acc. scan_base b acc (show_base b n @ cs) = scan_base b (acc * b ^ Suc k + n) cs"
      by (subst show_base.simps) (simp add: is_base_digit_digit byte_digit_digit)
    then show ?thesis by blast
  qed
qed

text \<open>The digits are printable, and there are as many as the value needs.\<close>

lemma show_base_digits: "2 \<le> b \<Longrightarrow> b \<le> 36 \<Longrightarrow> list_all (is_base_digit b) (show_base b n)"
proof (induction n rule: less_induct)
  case (less n)
  then show ?case
    by (subst show_base.simps) (auto simp: is_base_digit_digit div_less_dividend)
qed

lemma show_base_not_Nil [simp]: "show_base b n \<noteq> []"
  by (subst show_base.simps) simp

lemma length_show_base: "2 \<le> b \<Longrightarrow> n < b ^ Suc k \<Longrightarrow> length (show_base b n) \<le> Suc k"
proof (induction k arbitrary: n)
  case 0
  then show ?case by (subst show_base.simps) simp
next
  case (Suc k)
  have "n div b < b ^ Suc k" using Suc.prems by (simp add: less_mult_imp_div_less mult.commute)
  with Suc show ?case by (subst show_base.simps) simp
qed

lemma base_digit_plain: "is_base_digit b c \<Longrightarrow> \<not> isspace c \<and> c \<noteq> 0x2D \<and> c \<noteq> 0x2B \<and> c \<noteq> 0"
  by (auto simp: is_base_digit_def byte_digit_def Let_def isspace_def word_le_nat_alt split: if_splits)

lemma scan_base_stop: "\<not> is_base_digit b c \<Longrightarrow> scan_base b acc (c # cs) = acc"
  by simp

lemma not_digit_0 [simp]: "\<not> is_base_digit b 0"
  by (simp add: is_base_digit_def byte_digit_def)

text \<open>\<^verbatim>\<open>%i\<close> of a number that is not negative, and \<^verbatim>\<open>0x%X\<close>.\<close>

definition show_dec :: "nat \<Rightarrow> cstring" where "show_dec n = show_base 10 n"
definition show_0x :: "nat \<Rightarrow> cstring" where "show_0x n = [0x30, 0x78] @ show_base 16 n"

lemma strtol_plain:
  assumes "cs \<noteq> []" "is_base_digit 36 (hd cs)" "scan_base b 0 (skip_0x b cs) = n" "n < 2 ^ 63"
  shows "strtol cs b = int n"
proof -
  obtain c cs' where cs: "cs = c # cs'" using assms(1) by (cases cs) auto
  then have "\<not> isspace c" "c \<noteq> 0x2D" "c \<noteq> 0x2B" using assms(2) base_digit_plain by auto
  moreover have "int n < 2 ^ 63" using assms(4) by simp
  ultimately show ?thesis using assms(3) cs by (simp add: strtol_def Let_def)
qed

lemma skip_0x_other: "b \<noteq> 16 \<Longrightarrow> skip_0x b cs = cs"
  by (cases "(b, cs)" rule: skip_0x.cases) auto

lemma is_base_digit_mono: "is_base_digit b c \<Longrightarrow> b \<le> b' \<Longrightarrow> is_base_digit b' c"
  by (auto simp: is_base_digit_def split: option.splits)

lemma hd_show_base: "2 \<le> b \<Longrightarrow> b \<le> 36 \<Longrightarrow> is_base_digit b (hd (show_base b n))"
  using show_base_digits [of b n] by (simp add: list_all_iff)

lemma scan_base_show_0:
  assumes "2 \<le> b" "b \<le> 36"
  shows "scan_base b 0 (show_base b n @ 0 # rest) = n"
proof -
  obtain k where "\<forall>acc. scan_base b acc (show_base b n @ 0 # rest) = scan_base b (acc * b ^ k + n) (0 # rest)"
    using scan_base_show [OF assms] by blast
  then show ?thesis by simp
qed

lemma strtol_show_dec: "n < 2 ^ 63 \<Longrightarrow> strtol (show_dec n @ 0 # rest) 10 = int n"
  using hd_show_base [of 10 n] scan_base_show_0 [of 10 n rest]
  by (intro strtol_plain) (auto simp: show_dec_def skip_0x_other intro: is_base_digit_mono)

lemma strtol_show_0x:
  assumes "n < 2 ^ 63"
  shows "strtol (show_0x n @ 0 # rest) 16 = int n"
proof (rule strtol_plain [OF _ _ _ assms])
  obtain h cs where h: "show_base 16 n = h # cs" by (cases "show_base 16 n") auto
  have "is_base_digit 16 h" using hd_show_base [of 16 n] h by simp
  then have "skip_0x 16 (show_0x n @ 0 # rest) = show_base 16 n @ 0 # rest"
    by (simp add: show_0x_def h)
  then show "scan_base 16 0 (skip_0x 16 (show_0x n @ 0 # rest)) = n"
    using scan_base_show_0 [of 16 n rest] by simp
qed (simp_all add: show_0x_def is_base_digit_def byte_digit_def Let_def)

text \<open>A copied argument that fits is the argument.\<close>

lemma snprintf_fits:
  assumes "0 \<notin> set s" "length s < n"
  shows "snprintf_s buf n (s @ 0 # rest) = s @ 0 # drop (Suc (length s)) buf"
proof -
  have "takeWhile (\<lambda>c. c \<noteq> 0) (take (n - 1) (s @ 0 # rest)) = s"
  proof (cases "length s = n - 1")
    case True
    then show ?thesis using assms by (auto simp: takeWhile_eq_all_conv)
  next
    case False
    then obtain m where "n - 1 - length s = Suc m" using assms(2) by (metis Suc_diff_Suc Suc_pred' less_Suc_eq not_less0 linorder_neqE_nat zero_less_iff_neq_zero)
    then show ?thesis using assms by (subst take_append, subst takeWhile_append2) auto
  qed
  then show ?thesis by (simp add: snprintf_s_def strnlen_def)
qed

lemma base_digits_nonzero: "list_all (is_base_digit b) s \<Longrightarrow> 0 \<notin> set s"
  by (auto simp: list_all_iff)

lemma show_0x_nonzero: "0 \<notin> set (show_0x n)" and show_dec_nonzero: "0 \<notin> set (show_dec n)"
  using base_digits_nonzero [OF show_base_digits [of 16 n]] base_digits_nonzero [OF show_base_digits [of 10 n]]
  by (simp_all add: show_0x_def show_dec_def)

text \<open>A short text is a small number.\<close>

lemma scan_base_less:
  "2 \<le> b \<Longrightarrow> scan_base b acc (xs @ 0 # ys) < (acc + 1) * b ^ length xs"
proof (induction xs arbitrary: acc)
  case (Cons c xs)
  have "1 \<le> b ^ Suc (length xs)" using Cons.prems by (intro one_le_power) simp
  from mult_le_mono2 [OF this, of "acc + 1"] have le: "acc < (acc + 1) * b ^ Suc (length xs)"
    by (simp only: mult_1_right Suc_eq_plus1 [symmetric] Suc_le_eq)
  show ?case
  proof (cases "is_base_digit b c")
    case True
    then have d: "the (byte_digit c) < b" by (auto simp: is_base_digit_def split: option.splits)
    have "scan_base b (acc * b + the (byte_digit c)) (xs @ 0 # ys) < (acc * b + the (byte_digit c) + 1) * b ^ length xs"
      using Cons by blast
    also have "\<dots> \<le> (acc + 1) * b * b ^ length xs" using d by (intro mult_right_mono) simp_all
    finally show ?thesis using True by (simp add: algebra_simps)
  next
    case False
    with le show ?thesis by simp
  qed
qed simp

lemma strtol_less:
  assumes "2 \<le> b" "b \<noteq> 16" "length xs \<le> k"
  shows "\<bar>strtol (xs @ 0 # ys) b\<bar> < int b ^ k"
proof -
  define zs where "zs = dropWhile isspace xs"
  have zs: "dropWhile isspace (xs @ 0 # ys) = zs @ 0 # ys" "length zs \<le> k"
    using assms(3) length_dropWhile_le [of isspace xs] by (simp_all add: zs_def dropWhile_append3 dropWhile_append2 dropWhile_append)
  let ?s = "zs @ 0 # ys"
  define ws where "ws = (if zs \<noteq> [] \<and> (hd zs = 0x2D \<or> hd zs = 0x2B) then tl zs else zs)"
  have ws: "(if ?s \<noteq> [] \<and> (hd ?s = 0x2D \<or> hd ?s = 0x2B) then tl ?s else ?s) = ws @ 0 # ys" "length ws \<le> k"
    using zs(2) by (cases zs; simp add: ws_def)+
  define v where "v = scan_base b 0 (ws @ 0 # ys)"
  have "v < b ^ length ws" using scan_base_less [OF assms(1), of 0 ws ys] by (simp add: v_def)
  also have "\<dots> \<le> b ^ k" using ws(2) assms(1) by (intro power_increasing) simp_all
  finally have "int v < int b ^ k" by (simp flip: of_nat_power)
  moreover have "\<bar>max (- (2 ^ 63)) (min (2 ^ 63 - 1) (if neg then - int v else int v))\<bar> \<le> int v" for neg
    by (cases neg) (auto simp: max_def min_def)
  ultimately have clamp: "\<bar>max (- (2 ^ 63)) (min (2 ^ 63 - 1) (if neg then - int v else int v))\<bar> < int b ^ k" for neg
    using order_le_less_trans by blast
  show ?thesis
    unfolding strtol_def Let_def zs(1) ws(1) skip_0x_other [OF assms(2)] v_def [symmetric] by (rule clamp)
qed

lemma snprintf_split: "\<exists>xs ys. snprintf_s buf n s = xs @ 0 # ys \<and> length xs \<le> n - 1"
  using strnlen_le [of s "n - 1"] strnlen_le_length [of s "n - 1"]
  by (intro exI [of _ "take (strnlen s (n - 1)) s"] exI [of _ "drop (Suc (strnlen s (n - 1))) buf"])
    (simp add: snprintf_s_def Let_def)

subsection \<open>Clients of a shared segment\<close>

definition shm_client :: "string \<Rightarrow> int \<Rightarrow> os \<Rightarrow> ((int \<times> shm_mapping option) \<times> os) option" where
  "shm_client name sz os =
     (case utils_shm_attach name sz os of
        (None, os) \<Rightarrow> Some ((- 1, None), os)
      | (Some m, os) \<Rightarrow> Some ((0, Some m), os))"

lemma utils_shm_attach_cases:
  assumes "utils_shm_attach name sz os = (res, os')"
  shows "os_fault os' = os_fault os"
    and "res = None \<Longrightarrow> os_live os' = os_live os"
    and "res = Some m \<Longrightarrow> os_live os' = os_live os + map_held (Some m)"
  using assms by (auto simp: shm_defs map_held_def shm_held_def split: if_splits)

interpretation client: lifecycle "\<lambda>_. True" "shm_client name sz" "\<lambda>m. utils_shm_destroy m False" map_held
  for name sz
proof (unfold_locales, goal_cases)
  case 4
  then show ?case by (rule utils_shm_destroy_map)
qed (auto simp: shm_client_def map_held_def dest: utils_shm_attach_cases split: prod.splits option.splits)

lemma attach_detach:
  assumes "utils_shm_attach name sz os = (Some m, os')"
  shows "os_live (utils_shm_destroy (Some m) False os') = os_live os"
    and "os_fault (utils_shm_destroy (Some m) False os') = os_fault os"
  using client.start_stop [of name sz os 0 "Some m" os'] assms by (simp_all add: shm_client_def)

end
