(* ===== verification/Rds_Tool.thy ===== *)
theory Rds_Tool
  imports Cli Rds_Dyn Rds_Encoder "HOL-Library.Monad_Syntax"
begin

text \<open>
  The command-line tool of the RDS encoder (\<^verbatim>\<open>rds_tool.c\<close>). The successive results of
  \<^verbatim>\<open>getopt_long_only\<close> are a list of options with their arguments; what the system answers to the
  requests of \<^verbatim>\<open>-dps\<close> and \<^verbatim>\<open>-drt\<close> comes with the option. The threads these two start run while the
  remaining options are processed and while \<^verbatim>\<open>main\<close> waits for a signal, so a run of the tool is a
  sequence of options and of iterations of the threads. Messages are not modelled, except for the
  configuration that \<^verbatim>\<open>-g\<close> prints.
\<close>

subsection \<open>State\<close>

abbreviation (input) TEMP_BUF_LEN :: nat where "TEMP_BUF_LEN \<equiv> 65"

datatype rds_opt =
    Opt_Get | Opt_Enable | Opt_Disable
  | Opt_Rt cstring | Opt_Ps cstring | Opt_Pi cstring | Opt_Pty cstring | Opt_Ptyn cstring
  | Opt_Ecc cstring | Opt_Lic cstring | Opt_Tp cstring | Opt_Ta cstring | Opt_Ms cstring | Opt_Di cstring
  | Opt_Dps cstring | Opt_Drt cstring | Opt_Dt cstring
  | Opt_Unknown

text \<open>The results of \<^verbatim>\<open>inotify_init\<close>, \<^verbatim>\<open>inotify_add_watch\<close> and of the two \<^verbatim>\<open>pthread_create\<close>.\<close>

type_synonym dyn_results = "int \<times> int \<times> (int \<times> nat) \<times> (int \<times> nat)"

datatype tool_event =
    Dps_Consumer | Dps_File "byte list option" | Drt_Consumer | Drt_File "byte list option"
  | Other_Client rds_cmd

datatype tool_step = Option_Step dyn_results rds_opt | Thread_Step tool_event

text \<open>
  The variables of \<^verbatim>\<open>main\<close>, and the static variable \<^verbatim>\<open>active\<close>. \<open>tl_st\<close> is the encoder state in the shared segment; \<open>tl_dps_on\<close> and
  \<open>tl_drt_on\<close> say that \<^verbatim>\<open>dps\<close> and \<^verbatim>\<open>drt\<close> have been initialised: their \<^verbatim>\<open>st\<close> is the segment and no
  longer \<^verbatim>\<open>NULL\<close>, and their threads run.
\<close>

record rds_tool =
  tl_st :: rds_encoder_state
  tl_ret :: int
  tl_dps :: rds_dynps_state
  tl_dps_on :: bool
  tl_drt :: rds_dynrt_state
  tl_drt_on :: bool
  tl_timeout :: uint32
  tl_loop :: bool
  tl_calls :: "os_call list"
  tl_active :: bool

datatype tool_next = Next_Option | Goto_Cleanup | Return_Usage

definition rds_tool_zero :: "rds_encoder_state \<Rightarrow> rds_tool" where
  "rds_tool_zero st =
     \<lparr>tl_st = st, tl_ret = 0, tl_dps = rds_dynps_zero, tl_dps_on = False, tl_drt = rds_dynrt_zero,
      tl_drt_on = False, tl_timeout = 0, tl_loop = False, tl_calls = [], tl_active = False\<rparr>"

subsection \<open>The options\<close>

text \<open>The buffer after \<^verbatim>\<open>memset(temp, 0, TEMP_BUF_LEN)\<close> and \<^verbatim>\<open>snprintf(temp, n, "%s", optarg)\<close>.\<close>

definition temp_arg :: "nat \<Rightarrow> cstring \<Rightarrow> cstring" where
  "temp_arg n optarg = snprintf_s (replicate TEMP_BUF_LEN 0) n optarg"

definition st_of :: "rds_encoder_state \<Rightarrow> st_ptr \<Rightarrow> rds_encoder_state" where
  "st_of st p = (case p of None \<Rightarrow> st | Some st' \<Rightarrow> st')"

text \<open>What every option that sets a field does with the result of the setter.\<close>

definition tool_set :: "int \<times> st_ptr \<Rightarrow> rds_tool \<Rightarrow> tool_next \<times> rds_tool" where
  "tool_set r s =
     (if fst r < 0 then Goto_Cleanup else Next_Option, s\<lparr>tl_ret := fst r, tl_st := st_of (tl_st s) (snd r)\<rparr>)"

definition tool_flag :: "cstring \<Rightarrow> uint8" where
  "tool_flag optarg = (if strtol (temp_arg 2 optarg) 2 \<noteq> 0 then 1 else 0)"

definition tool_dps :: "char_abi \<Rightarrow> dyn_results \<Rightarrow> rds_tool \<Rightarrow> tool_next \<times> rds_tool" where
  "tool_dps abi io s =
     (case io of (ifd, wfd, c1, c2) \<Rightarrow>
        case rds_dynps_init abi ifd wfd c1 c2 (tl_dps s) (tl_st s) of
          (ret, (dps, p), calls) \<Rightarrow>
            let s = s\<lparr>tl_ret := ret, tl_dps := dps, tl_st := st_of (tl_st s) p, tl_calls := tl_calls s @ calls\<rparr>
            in if ret < 0 then (Goto_Cleanup, s) else (Next_Option, s\<lparr>tl_dps_on := True, tl_loop := True\<rparr>))"

definition tool_drt :: "char_abi \<Rightarrow> dyn_results \<Rightarrow> rds_tool \<Rightarrow> tool_next \<times> rds_tool" where
  "tool_drt abi io s =
     (case io of (ifd, wfd, c1, c2) \<Rightarrow>
        case rds_dynrt_init abi ifd wfd c1 c2 (tl_drt s) (tl_st s) of
          (ret, (drt, p), calls) \<Rightarrow>
            let s = s\<lparr>tl_ret := ret, tl_drt := drt, tl_st := st_of (tl_st s) p, tl_calls := tl_calls s @ calls\<rparr>
            in if ret < 0 then (Goto_Cleanup, s) else (Next_Option, s\<lparr>tl_drt_on := True, tl_loop := True\<rparr>))"

fun rds_tool_option :: "char_abi \<Rightarrow> dyn_results \<Rightarrow> rds_opt \<Rightarrow> rds_tool \<Rightarrow> tool_next \<times> rds_tool" where
  "rds_tool_option abi io Opt_Get s = (Next_Option, s)"
| "rds_tool_option abi io Opt_Enable s = (Next_Option, s\<lparr>tl_st := (tl_st s)\<lparr>st_enabled := 1\<rparr>\<rparr>)"
| "rds_tool_option abi io Opt_Disable s = (Next_Option, s\<lparr>tl_st := (tl_st s)\<lparr>st_enabled := 0\<rparr>\<rparr>)"
| "rds_tool_option abi io (Opt_Rt a) s =
     tool_set (rds_set_rt abi (Some (tl_st s)) (Some (temp_arg (RDS_RT_LENGTH + 1) a)) 1) s"
| "rds_tool_option abi io (Opt_Ps a) s =
     tool_set (rds_set_ps abi (Some (tl_st s)) (Some (temp_arg (RDS_PS_LENGTH + 1) a))) s"
| "rds_tool_option abi io (Opt_Pi a) s =
     tool_set (rds_set_pi (Some (tl_st s)) (word_of_int (strtol (temp_arg 7 a) 16))) s"
| "rds_tool_option abi io (Opt_Pty a) s =
     tool_set (rds_set_pty (Some (tl_st s)) (word_of_int (atoi (temp_arg 4 a)))) s"
| "rds_tool_option abi io (Opt_Ptyn a) s =
     tool_set (rds_set_ptyn abi (Some (tl_st s)) (Some (temp_arg (RDS_PTYN_LENGTH + 1) a))) s"
| "rds_tool_option abi io (Opt_Ecc a) s =
     tool_set (rds_set_ecc (Some (tl_st s)) (word_of_int (strtol (temp_arg 5 a) 16))) s"
| "rds_tool_option abi io (Opt_Lic a) s =
     tool_set (rds_set_lic (Some (tl_st s)) (word_of_int (strtol (temp_arg 6 a) 16) AND 0xFFF)) s"
| "rds_tool_option abi io (Opt_Tp a) s = tool_set (rds_set_tp (Some (tl_st s)) (tool_flag a)) s"
| "rds_tool_option abi io (Opt_Ta a) s = tool_set (rds_set_ta (Some (tl_st s)) (tool_flag a)) s"
| "rds_tool_option abi io (Opt_Ms a) s = tool_set (rds_set_ms (Some (tl_st s)) (tool_flag a)) s"
| "rds_tool_option abi io (Opt_Di a) s =
     tool_set (rds_set_di (Some (tl_st s)) (word_of_int (strtol (temp_arg 2 a) 16) AND 0xF)) s"
| "rds_tool_option abi io (Opt_Dps a) s = tool_dps abi io s"
| "rds_tool_option abi io (Opt_Drt a) s = tool_drt abi io s"
| "rds_tool_option abi io (Opt_Dt a) s = (Next_Option, s\<lparr>tl_timeout := word_of_int (strtol (temp_arg 4 a) 10)\<rparr>)"
| "rds_tool_option abi io Opt_Unknown s = (Return_Usage, s)"

text \<open>The lines that \<^verbatim>\<open>-g\<close> prints, label and value.\<close>

definition rds_tool_get :: "rds_encoder_state \<Rightarrow> (string \<times> cstring) list" where
  "rds_tool_get st =
     (let bytes = map (\<lambda>c. of_char c);
          text = takeWhile (\<lambda>c. c \<noteq> 0)
      in [(''Status'', bytes (if st_enabled st \<noteq> 0 then ''Enabled'' else ''Disabled'')),
          (''PI'', show_0x (unat (rds_get_pi (Some st)))),
          (''ECC'', show_0x (unat (rds_get_ecc (Some st)))),
          (''LIC'', show_0x (unat (rds_get_lic (Some st)))),
          (''PTY'', show_dec (unat (the (rds_get_pty (Some st))))),
          (''PSN'', text (the (rds_get_ps (Some st)))),
          (''RT'', if st_rt_set st \<noteq> 0 then text (the (the (rds_get_rt (Some st)))) else bytes ''<Not set>''),
          (''PTYN'', if st_ptyn_set st \<noteq> 0 then text (the (rds_get_ptyn (Some st))) else bytes ''<Not set>''),
          (''TP'', show_0x (unat (rds_get_tp (Some st)))),
          (''TA'', show_0x (unat (rds_get_ta (Some st)))),
          (''MS'', show_0x (unat (rds_get_ms (Some st)))),
          (''DI'', show_0x (unat (rds_get_di (Some st))))])"

subsection \<open>The threads\<close>

fun run_event :: "char_abi \<Rightarrow> tool_event \<Rightarrow> rds_tool \<Rightarrow> rds_tool" where
  "run_event abi Dps_Consumer s =
     (if tl_dps_on s then
        case dynps_consume abi (tl_dps s, Some (tl_st s)) of
          (dps, p) \<Rightarrow> s\<lparr>tl_dps := dps, tl_st := st_of (tl_st s) p\<rparr>
      else s)"
| "run_event abi (Dps_File content) s =
     (if tl_dps_on s then s\<lparr>tl_dps := dynps_filemon content (tl_dps s)\<rparr> else s)"
| "run_event abi Drt_Consumer s =
     (if tl_drt_on s then
        case dynrt_consume abi (tl_drt s, Some (tl_st s)) of
          (drt, p) \<Rightarrow> s\<lparr>tl_drt := drt, tl_st := st_of (tl_st s) p\<rparr>
      else s)"
| "run_event abi (Drt_File content) s =
     (if tl_drt_on s then
        case dynrt_filemon abi content (tl_drt s, Some (tl_st s)) of
          (drt, p) \<Rightarrow> s\<lparr>tl_drt := drt, tl_st := st_of (tl_st s) p\<rparr>
      else s)"
| "run_event abi (Other_Client c) s = s\<lparr>tl_st := st_of (tl_st s) (snd (rds_apply abi c (Some (tl_st s))))\<rparr>"

primrec run_events :: "char_abi \<Rightarrow> tool_event list \<Rightarrow> rds_tool \<Rightarrow> rds_tool" where
  "run_events abi [] s = s"
| "run_events abi (e # es) s = run_events abi es (run_event abi e s)"

subsection \<open>The whole run\<close>

fun rds_tool_options :: "char_abi \<Rightarrow> tool_step list \<Rightarrow> rds_tool \<Rightarrow> tool_next \<times> rds_tool" where
  "rds_tool_options abi [] s = (Next_Option, s)"
| "rds_tool_options abi (Thread_Step e # xs) s = rds_tool_options abi xs (run_event abi e s)"
| "rds_tool_options abi (Option_Step io opt # xs) s =
     (case rds_tool_option abi io opt s of
        (Next_Option, s) \<Rightarrow> rds_tool_options abi xs s
      | r \<Rightarrow> r)"

text \<open>
  Stopping the feeders. \<^verbatim>\<open>dps->st\<close> is \<^verbatim>\<open>NULL\<close> when \<^verbatim>\<open>-dps\<close> was not given. The radio text threads and
  other clients may still run between the two calls: \<open>late\<close>.
\<close>

definition tool_stop_dps :: "char_abi \<Rightarrow> rds_tool \<Rightarrow> rds_tool" where
  "tool_stop_dps abi s =
     (case rds_dynps_destroy abi (tl_dps s, if tl_dps_on s then Some (tl_st s) else None) of
        ((dps, p), calls) \<Rightarrow>
          s\<lparr>tl_dps := dps, tl_dps_on := False, tl_st := st_of (tl_st s) p, tl_calls := tl_calls s @ calls\<rparr>)"

definition tool_stop_drt :: "char_abi \<Rightarrow> rds_tool \<Rightarrow> rds_tool" where
  "tool_stop_drt abi s =
     (case rds_dynrt_destroy abi (tl_drt s, if tl_drt_on s then Some (tl_st s) else None) of
        ((drt, p), calls) \<Rightarrow>
          s\<lparr>tl_drt := drt, tl_drt_on := False, tl_st := st_of (tl_st s) p, tl_calls := tl_calls s @ calls\<rparr>)"

definition tool_stop :: "char_abi \<Rightarrow> tool_event list \<Rightarrow> rds_tool \<Rightarrow> rds_tool" where
  "tool_stop abi late s = tool_stop_drt abi (run_events abi late (tool_stop_dps abi s))"

text \<open>
  The loop \<^verbatim>\<open>while(active);\<close>. While it runs the threads and other clients work, until a signal
  arrives; \<open>None\<close> when the events end before that.
\<close>

datatype wait_event = Work tool_event | Tool_Signal

definition tool_signal :: "rds_tool \<Rightarrow> rds_tool" where
  "tool_signal s = s\<lparr>tl_active := False\<rparr>"

fun wait_step :: "char_abi \<Rightarrow> wait_event \<Rightarrow> rds_tool \<Rightarrow> rds_tool" where
  "wait_step abi (Work e) s = run_event abi e s"
| "wait_step abi Tool_Signal s = tool_signal s"

fun tool_wait :: "char_abi \<Rightarrow> wait_event list \<Rightarrow> rds_tool \<Rightarrow> rds_tool option" where
  "tool_wait abi [] s = (if tl_active s then None else Some s)"
| "tool_wait abi (w # ws) s = (if tl_active s then tool_wait abi ws (wait_step abi w s) else Some s)"

text \<open>
  \<^verbatim>\<open>main\<close>. \<open>early\<close> is what happens between the installation of the handler and \<^verbatim>\<open>active = 1\<close>, \<open>waiting\<close>
  what happens afterwards. The result is the exit status, the encoder state left in the segment and
  the system; \<open>None\<close> when the tool still waits.
\<close>

definition rds_tool_main ::
  "char_abi \<Rightarrow> int \<Rightarrow> int \<Rightarrow> tool_step list \<Rightarrow> wait_event list \<Rightarrow> wait_event list \<Rightarrow> tool_event list \<Rightarrow>
   rds_encoder_state \<Rightarrow> os \<Rightarrow> (int \<times> rds_encoder_state \<times> os) option" where
  "rds_tool_main abi argc optind steps early waiting late st os =
     (case utils_shm_attach RDS_ENC_SHM_NAME sizeof_rds_encoder_state os of
        (None, os) \<Rightarrow> Some (- 1, st, os)
      | (Some shmem, os) \<Rightarrow>
          (case rds_tool_options abi steps (rds_tool_zero st) of
             (Return_Usage, s) \<Rightarrow> Some (- 1, tl_st s, utils_shm_destroy (Some shmem) False os)
           | (Goto_Cleanup, s) \<Rightarrow> Some (tl_ret s, tl_st s, utils_shm_destroy (Some shmem) False os)
           | (Next_Option, s) \<Rightarrow>
               let s = (if argc < 2 \<or> argc > 1 \<and> optind = 1 then s\<lparr>tl_ret := - 1\<rparr> else s)
               in do {
                    s \<leftarrow> (if tl_loop s
                         then map_option (tool_stop abi late)
                                (tool_wait abi waiting ((fold (wait_step abi) early s)\<lparr>tl_active := True\<rparr>))
                         else Some s);
                    Some (tl_ret s, tl_st s, utils_shm_destroy (Some shmem) False os)
                  }))"

subsection \<open>The shared state stays well typed\<close>

definition tool_ok :: "char_abi \<Rightarrow> rds_tool \<Rightarrow> bool" where
  "tool_ok abi s \<longleftrightarrow>
     rds_state_wf abi (tl_st s) \<and> (tl_dps_on s \<longrightarrow> dynps_wf (tl_dps s)) \<and> (tl_drt_on s \<longrightarrow> dynrt_wf (tl_drt s))"

lemma tool_ok_wf: "tool_ok abi s \<Longrightarrow> rds_state_wf abi (tl_st s)"
  by (simp add: tool_ok_def)

lemma st_of_simps [simp]: "st_of st None = st" "st_of st (Some st') = st'"
  by (simp_all add: st_of_def)

lemma st_of_apply: "rds_state_wf abi st \<Longrightarrow> rds_state_wf abi (st_of st (snd (rds_apply abi c (Some st))))"
  using rds_apply_wf [of abi st c] by auto

lemma tool_set_ok:
  assumes "tool_ok abi s" "r = rds_apply abi c (Some (tl_st s))" "tool_set r s = (k, s')"
  shows "tool_ok abi s'"
  using assms st_of_apply [of abi "tl_st s" c] by (auto simp: tool_set_def tool_ok_def)

lemma dynps_destroy_wf:
  "rds_dynps_destroy abi (d, Some st) = ((d', p), calls) \<Longrightarrow> rds_state_wf abi st \<Longrightarrow> rds_state_wf abi (st_of st p)"
  using rds_set_ps_wf [of abi st "Some (dps_fixed_ps d)"] by (auto simp: rds_dynps_destroy_def)

lemma dynrt_destroy_wf:
  "rds_dynrt_destroy abi (d, Some st) = ((d', p), calls) \<Longrightarrow> rds_state_wf abi st \<Longrightarrow> rds_state_wf abi (st_of st p)"
  using rds_set_rt_wf [of abi st "Some (drt_fixed_rt d)" 1] by (auto simp: rds_dynrt_destroy_def)

lemma rds_dynps_init_wf:
  assumes "rds_dynps_init abi ifd wfd c1 c2 d st = (ret, (d', p), calls)" "rds_state_wf abi st"
  shows "rds_state_wf abi (st_of st p)" "ret \<le> 0"
  using assms by (auto simp: rds_dynps_init_def Let_def dest: dynps_destroy_wf split: if_splits)

lemma rds_dynrt_init_wf:
  assumes "rds_dynrt_init abi ifd wfd c1 c2 d st = (ret, (d', p), calls)" "rds_state_wf abi st"
  shows "rds_state_wf abi (st_of st p)" "ret \<le> 0"
  using assms by (auto simp: rds_dynrt_init_def Let_def dest: dynrt_destroy_wf split: if_splits)

lemma tool_dps_ok:
  assumes "tool_ok abi s" "tool_dps abi io s = (k, s')"
  shows "rds_state_wf abi (tl_st s') \<and> (k = Next_Option \<longrightarrow> tool_ok abi s')"
proof -
  obtain ifd wfd c1 c2 where io: "io = (ifd, wfd, c1, c2)" by (cases io) auto
  obtain ret d p calls where i: "rds_dynps_init abi ifd wfd c1 c2 (tl_dps s) (tl_st s) = (ret, (d, p), calls)"
    by (metis prod.collapse)
  have "rds_state_wf abi (tl_st s)" using assms(1) by (simp add: tool_ok_def)
  note w = rds_dynps_init_wf [OF i this]
  show ?thesis
  proof (cases "ret < 0")
    case False
    then have "ret = 0" using w(2) by simp
    with rds_dynps_init_ok i have "dynps_wf d" "p = Some (tl_st s)" by (metis prod.inject)+
    with False w i io assms show ?thesis by (auto simp: tool_dps_def tool_ok_def Let_def)
  qed (use w i io assms in \<open>auto simp: tool_dps_def Let_def\<close>)
qed

lemma tool_drt_ok:
  assumes "tool_ok abi s" "tool_drt abi io s = (k, s')"
  shows "rds_state_wf abi (tl_st s') \<and> (k = Next_Option \<longrightarrow> tool_ok abi s')"
proof -
  obtain ifd wfd c1 c2 where io: "io = (ifd, wfd, c1, c2)" by (cases io) auto
  obtain ret d p calls where i: "rds_dynrt_init abi ifd wfd c1 c2 (tl_drt s) (tl_st s) = (ret, (d, p), calls)"
    by (metis prod.collapse)
  have "rds_state_wf abi (tl_st s)" using assms(1) by (simp add: tool_ok_def)
  note w = rds_dynrt_init_wf [OF i this]
  show ?thesis
  proof (cases "ret < 0")
    case False
    then have "ret = 0" using w(2) by simp
    with rds_dynrt_init_ok i have "dynrt_wf d" "p = Some (tl_st s)" by (metis prod.inject)+
    with False w i io assms show ?thesis by (auto simp: tool_drt_def tool_ok_def Let_def)
  qed (use w i io assms in \<open>auto simp: tool_drt_def Let_def\<close>)
qed

text \<open>The setter an option calls, as a command of the encoder state.\<close>

fun opt_cmd :: "rds_opt \<Rightarrow> rds_cmd option" where
  "opt_cmd (Opt_Rt a) = Some (Set_Rt (Some (temp_arg (RDS_RT_LENGTH + 1) a)) 1)"
| "opt_cmd (Opt_Ps a) = Some (Set_Ps (Some (temp_arg (RDS_PS_LENGTH + 1) a)))"
| "opt_cmd (Opt_Pi a) = Some (Set_Pi (word_of_int (strtol (temp_arg 7 a) 16)))"
| "opt_cmd (Opt_Pty a) = Some (Set_Pty (word_of_int (atoi (temp_arg 4 a))))"
| "opt_cmd (Opt_Ptyn a) = Some (Set_Ptyn (Some (temp_arg (RDS_PTYN_LENGTH + 1) a)))"
| "opt_cmd (Opt_Ecc a) = Some (Set_Ecc (word_of_int (strtol (temp_arg 5 a) 16)))"
| "opt_cmd (Opt_Lic a) = Some (Set_Lic (word_of_int (strtol (temp_arg 6 a) 16) AND 0xFFF))"
| "opt_cmd (Opt_Tp a) = Some (Set_Tp (tool_flag a))"
| "opt_cmd (Opt_Ta a) = Some (Set_Ta (tool_flag a))"
| "opt_cmd (Opt_Ms a) = Some (Set_Ms (tool_flag a))"
| "opt_cmd (Opt_Di a) = Some (Set_Di (word_of_int (strtol (temp_arg 2 a) 16) AND 0xF))"
| "opt_cmd opt = None"

lemma option_cmd: "opt_cmd opt = Some c \<Longrightarrow> rds_tool_option abi io opt s = tool_set (rds_apply abi c (Some (tl_st s))) s"
  by (cases opt) auto

lemma rds_tool_option_ok:
  assumes "tool_ok abi s" "rds_tool_option abi io opt s = (k, s')"
  shows "rds_state_wf abi (tl_st s') \<and> (k = Next_Option \<longrightarrow> tool_ok abi s')"
proof (cases "opt_cmd opt")
  case (Some c)
  have "tool_set (rds_apply abi c (Some (tl_st s))) s = (k, s')"
    using assms(2) unfolding option_cmd [OF Some] .
  then have "tool_ok abi s'" by (rule tool_set_ok [OF assms(1) refl])
  then show ?thesis by (simp add: tool_ok_def)
next
  case None
  have e: "rds_state_wf abi ((tl_st s)\<lparr>st_enabled := v\<rparr>)" for v
    using assms(1) by (rule rds_state_wf_frame [OF tool_ok_wf]) simp_all
  from None consider "opt \<in> {Opt_Enable, Opt_Disable}" | "opt \<in> {Opt_Get, Opt_Unknown}" | a where "opt = Opt_Dt a"
    | a where "opt = Opt_Dps a" | a where "opt = Opt_Drt a" by (cases opt) auto
  then show ?thesis
  proof cases
    case 1
    with assms e [of 0] e [of 1] show ?thesis by (auto simp: tool_ok_def)
  next
    case 4
    with assms(2) have "tool_dps abi io s = (k, s')" by simp
    then show ?thesis by (rule tool_dps_ok [OF assms(1)])
  next
    case 5
    with assms(2) have "tool_drt abi io s = (k, s')" by simp
    then show ?thesis by (rule tool_drt_ok [OF assms(1)])
  qed (use assms in \<open>auto simp: tool_ok_def\<close>)
qed

lemma keepsD:
  assumes "keeps abi ok f" "ok d" "rds_state_wf abi st"
  obtains d' st' where "f (d, Some st) = (d', Some st')" "ok d'" "rds_state_wf abi st'"
  using assms unfolding keeps_def by blast

lemma run_event_ok:
  assumes "tool_ok abi s"
  shows "tool_ok abi (run_event abi e s)"
proof (cases e)
  case Dps_Consumer
  show ?thesis
  proof (cases "tl_dps_on s")
    case True
    with assms have "dynps_wf (tl_dps s)" "rds_state_wf abi (tl_st s)" by (simp_all add: tool_ok_def)
    from keepsD [OF dynps_consume_wf this] obtain d st where
      "dynps_consume abi (tl_dps s, Some (tl_st s)) = (d, Some st)" "dynps_wf d" "rds_state_wf abi st" .
    with Dps_Consumer assms True show ?thesis by (simp add: tool_ok_def)
  qed (use Dps_Consumer assms in simp)
next
  case (Dps_File content)
  show ?thesis
  proof (cases "tl_dps_on s")
    case True
    with assms have "dynps_wf (tl_dps s)" "rds_state_wf abi (tl_st s)" by (simp_all add: tool_ok_def)
    from keepsD [OF dynps_filemon_wf [where fc = content] this] have "dynps_wf (dynps_filemon content (tl_dps s))"
      by fastforce
    with Dps_File assms True show ?thesis by (simp add: tool_ok_def)
  qed (use Dps_File assms in simp)
next
  case Drt_Consumer
  show ?thesis
  proof (cases "tl_drt_on s")
    case True
    with assms have "dynrt_wf (tl_drt s)" "rds_state_wf abi (tl_st s)" by (simp_all add: tool_ok_def)
    from keepsD [OF dynrt_consume_wf this] obtain d st where
      "dynrt_consume abi (tl_drt s, Some (tl_st s)) = (d, Some st)" "dynrt_wf d" "rds_state_wf abi st" .
    with Drt_Consumer assms True show ?thesis by (simp add: tool_ok_def)
  qed (use Drt_Consumer assms in simp)
next
  case (Drt_File content)
  show ?thesis
  proof (cases "tl_drt_on s")
    case True
    with assms have "dynrt_wf (tl_drt s)" "rds_state_wf abi (tl_st s)" by (simp_all add: tool_ok_def)
    from keepsD [OF dynrt_filemon_wf this] obtain d st where
      "dynrt_filemon abi content (tl_drt s, Some (tl_st s)) = (d, Some st)" "dynrt_wf d" "rds_state_wf abi st" .
    with Drt_File assms True show ?thesis by (simp add: tool_ok_def)
  qed (use Drt_File assms in simp)
next
  case (Other_Client c)
  with assms show ?thesis by (simp add: tool_ok_def st_of_apply)
qed

lemma run_events_ok: "tool_ok abi s \<Longrightarrow> tool_ok abi (run_events abi es s)"
  by (induction es arbitrary: s) (simp_all add: run_event_ok)

lemma rds_tool_options_ok:
  "tool_ok abi s \<Longrightarrow> rds_tool_options abi steps s = (k, s') \<Longrightarrow>
   rds_state_wf abi (tl_st s') \<and> (k = Next_Option \<longrightarrow> tool_ok abi s')"
proof (induction abi steps s rule: rds_tool_options.induct)
  case (3 abi io opt xs s)
  obtain k1 s1 where "rds_tool_option abi io opt s = (k1, s1)" by (cases "rds_tool_option abi io opt s")
  with 3 rds_tool_option_ok [OF "3.prems"(1) this] show ?case by (cases k1) auto
qed (auto simp: run_event_ok tool_ok_wf)

lemma tool_stop_dps_ok:
  assumes "tool_ok abi s"
  shows "tool_ok abi (tool_stop_dps abi s)"
proof (cases "tl_dps_on s")
  case True
  obtain d p calls where d: "rds_dynps_destroy abi (tl_dps s, Some (tl_st s)) = ((d, p), calls)"
    by (metis prod.collapse)
  from dynps_destroy_wf [OF this tool_ok_wf [OF assms]] True assms d show ?thesis
    by (simp add: tool_stop_dps_def tool_ok_def)
qed (use assms in \<open>simp add: tool_stop_dps_def rds_dynps_destroy_def rds_set_ps_def tool_ok_def\<close>)

lemma tool_stop_drt_ok:
  assumes "tool_ok abi s"
  shows "tool_ok abi (tool_stop_drt abi s)"
proof (cases "tl_drt_on s")
  case True
  obtain d p calls where d: "rds_dynrt_destroy abi (tl_drt s, Some (tl_st s)) = ((d, p), calls)"
    by (metis prod.collapse)
  from dynrt_destroy_wf [OF this tool_ok_wf [OF assms]] True assms d show ?thesis
    by (simp add: tool_stop_drt_def tool_ok_def)
qed (use assms in \<open>simp add: tool_stop_drt_def rds_dynrt_destroy_def rds_set_rt_def tool_ok_def\<close>)

lemma tool_stop_ok: "tool_ok abi s \<Longrightarrow> tool_ok abi (tool_stop abi late s)"
  by (simp add: tool_stop_def tool_stop_dps_ok tool_stop_drt_ok run_events_ok)

lemma tool_ok_upd: "tool_ok abi (s\<lparr>tl_ret := r\<rparr>) = tool_ok abi s" "tool_ok abi (s\<lparr>tl_active := b\<rparr>) = tool_ok abi s"
  by (simp_all add: tool_ok_def)

lemma wait_event_ok: "tool_ok abi s \<Longrightarrow> tool_ok abi (wait_step abi w s)"
  by (cases w) (simp_all add: run_event_ok tool_signal_def tool_ok_upd)

lemma wait_events_ok: "tool_ok abi s \<Longrightarrow> tool_ok abi (fold (wait_step abi) ws s)"
  by (induction ws arbitrary: s) (simp_all add: wait_event_ok)

lemma tool_wait_ok: "tool_wait abi ws s = Some s' \<Longrightarrow> tool_ok abi s \<Longrightarrow> tool_ok abi s'"
  by (induction abi ws s rule: tool_wait.induct) (auto simp: wait_event_ok split: if_splits)


text \<open>Setting a radio text in dynamic mode on an encoder with a name; the text thread reads one line.\<close>

definition tool_example_st :: rds_encoder_state where
  "tool_example_st = rds_state_zero\<lparr>st_rt := 0x41 # replicate 63 0, st_rt_set := 1, st_rt_segments := 1\<rparr>"

definition tool_example_os :: os where
  "tool_example_os = (os_start (\<lambda>_. False))\<lparr>os_shm := [RDS_ENC_SHM_NAME]\<rparr>"

lemma tool_wait_signal: "Tool_Signal \<in> set ws \<Longrightarrow> \<exists>s'. tool_wait abi ws s = Some s'"
proof (induction ws arbitrary: s)
  case (Cons w ws)
  show ?case
  proof (cases "w = Tool_Signal")
    case True
    then show ?thesis by (cases ws) (auto simp: tool_signal_def)
  qed (use Cons in auto)
qed simp

lemma rds_tool_main_ends:
  assumes "Tool_Signal \<in> set waiting"
  shows "rds_tool_main abi argc optind steps early waiting late st os \<noteq> None"
proof -
  have "tool_wait abi waiting s \<noteq> None" for s using tool_wait_signal [OF assms] by fastforce
  then have "(map_option f (tool_wait abi waiting s) \<bind> (\<lambda>s. Some (g s))) \<noteq> None"
    for f :: "rds_tool \<Rightarrow> rds_tool" and g :: "rds_tool \<Rightarrow> int \<times> rds_encoder_state \<times> os" and s
    by (auto simp: bind_eq_None_conv)
  then show ?thesis
    by (simp add: rds_tool_main_def Let_def del: not_None_eq split: option.split prod.split tool_next.split)
qed


subsection \<open>The name after a dynamic run\<close>

lemma rds_set_rt_keeps_ps:
  "st_ps (st_of st (snd (rds_set_rt abi (Some st) p f))) = st_ps st \<and>
   st_ps_set (st_of st (snd (rds_set_rt abi (Some st) p f))) = st_ps_set st"
  by (auto simp: rds_set_rt_def Let_def split: option.splits prod.splits)

text \<open>The name feeder runs and has remembered the name \<open>F\<close>.\<close>

definition remembers :: "cstring \<Rightarrow> rds_tool \<Rightarrow> bool" where
  "remembers F s \<longleftrightarrow> tl_dps_on s \<and> tl_loop s \<and> dps_fixed_ps (tl_dps s) = F"

lemma dynps_consume_fixed: "dps_fixed_ps (fst (dynps_consume abi (d, p))) = dps_fixed_ps d"
  by (simp add: dynps_consume_def Let_def)

lemma dynps_filemon_fixed: "dps_fixed_ps (dynps_filemon content d) = dps_fixed_ps d"
  by (auto simp: dynps_filemon_def split: option.splits prod.splits)

lemma run_event_remembers: "remembers F s \<Longrightarrow> remembers F (run_event abi e s)"
  using dynps_consume_fixed [of abi "tl_dps s" "Some (tl_st s)"]
  by (cases e) (auto simp: remembers_def dynps_filemon_fixed split: prod.splits)

lemma run_events_remembers: "remembers F s \<Longrightarrow> remembers F (run_events abi es s)"
  by (induction es arbitrary: s) (simp_all add: run_event_remembers)

lemma wait_event_remembers: "remembers F s \<Longrightarrow> remembers F (wait_step abi w s)"
proof (cases w)
  case (Work e)
  then show "remembers F s \<Longrightarrow> ?thesis" by (simp add: run_event_remembers)
qed (simp add: tool_signal_def remembers_def)

lemma wait_events_remembers: "remembers F s \<Longrightarrow> remembers F (fold (wait_step abi) ws s)"
  by (induction ws arbitrary: s) (simp_all add: wait_event_remembers)

lemma tool_wait_remembers: "tool_wait abi ws s = Some s' \<Longrightarrow> remembers F s \<Longrightarrow> remembers F s'"
  by (induction abi ws s rule: tool_wait.induct) (auto simp: wait_event_remembers split: if_splits)

lemma rds_tool_option_remembers:
  assumes "remembers F s" "rds_tool_option abi io opt s = (Next_Option, s')" "\<nexists>f. opt = Opt_Dps f"
  shows "remembers F s'"
proof (cases "opt_cmd opt")
  case (Some c)
  from assms(1,2) show ?thesis
    unfolding option_cmd [OF Some] by (auto simp: tool_set_def remembers_def split: if_splits)
next
  case None
  with assms show ?thesis
    by (cases opt) (auto simp: remembers_def tool_drt_def Let_def split: prod.splits if_splits)
qed

lemma rds_tool_options_remembers:
  "remembers F s \<Longrightarrow> rds_tool_options abi steps s = (Next_Option, s') \<Longrightarrow>
   \<forall>io f. Option_Step io (Opt_Dps f) \<notin> set steps \<Longrightarrow> remembers F s'"
proof (induction abi steps s rule: rds_tool_options.induct)
  case (3 abi io opt xs s)
  obtain k s1 where k: "rds_tool_option abi io opt s = (k, s1)" by (cases "rds_tool_option abi io opt s")
  with "3.prems"(2) have "k = Next_Option" by (cases k) auto
  moreover have "\<nexists>f. opt = Opt_Dps f" using "3.prems"(3) by (metis list.set_intros(1))
  ultimately have "remembers F s1" using rds_tool_option_remembers "3.prems"(1) k by blast
  with 3 k \<open>k = Next_Option\<close> show ?case by auto
qed (auto simp: run_event_remembers)

text \<open>What \<^verbatim>\<open>-dps\<close> remembers, and what restoring it stores.\<close>

lemma tool_dps_remembers:
  assumes "tool_dps abi io s = (Next_Option, s')"
  shows "remembers (strncpy (replicate 9 0) (st_ps (tl_st s)) RDS_PS_LENGTH) s'"
proof -
  obtain ifd wfd c1 c2 where io: "io = (ifd, wfd, c1, c2)" by (cases io) auto
  show ?thesis
    using assms unfolding io tool_dps_def rds_dynps_init_def
    by (auto simp: Let_def remembers_def rds_dynps_zero_def split: if_splits prod.splits)
qed

lemma strnlen_strncpy:
  assumes "length ps = 8"
  shows "strnlen (strncpy (replicate 9 0) ps 8) 8 = strnlen ps 8"
    and "take (strnlen ps 8) (strncpy (replicate 9 0) ps 8) = take (strnlen ps 8) ps"
proof -
  let ?n = "strnlen ps 8"
  show t: "take ?n (strncpy (replicate 9 0) ps 8) = take ?n ps" using assms by (simp add: strncpy_def)
  have nz: "0 \<notin> set (take ?n ps)" by (auto simp: take_strnlen dest: set_takeWhileD)
  have "strncpy (replicate 9 0) ps 8 = take ?n ps @ replicate (8 - ?n) 0 @ [0]"
    by (simp add: strncpy_def)
  also have "replicate (8 - ?n) 0 @ [0] = 0 # replicate (8 - ?n) (0 :: byte)" by (simp add: replicate_append_same)
  finally have F: "strncpy (replicate 9 0) ps 8 = take ?n ps @ 0 # replicate (8 - ?n) 0" .
  show "strnlen (strncpy (replicate 9 0) ps 8) 8 = ?n"
  proof (cases "?n = 8")
    case True
    with F assms strnlen_full [OF nz] show ?thesis by simp
  next
    case False
    then have "?n < 8" by (metis le_neq_implies_less strnlen_le)
    with F assms strnlen_prefix [OF nz, of 8] show ?thesis by simp
  qed
qed

lemma tool_stop_dps_restores:
  assumes "remembers (strncpy (replicate 9 0) ps RDS_PS_LENGTH) s" "length ps = 8" "list_all (char_ok abi) ps"
    and "strnlen ps RDS_PS_LENGTH = n" "n \<noteq> 0"
  shows "st_ps (tl_st (tool_stop_dps abi s)) = take n ps @ replicate (8 - n) 0 \<and>
    st_ps_set (tl_st (tool_stop_dps abi s)) = 1 \<and> \<not> tl_dps_on (tool_stop_dps abi s)"
proof -
  let ?F = "strncpy (replicate 9 0) ps 8"
  have F: "strnlen ?F 8 = n" "take n ?F = take n ps" using strnlen_strncpy [OF assms(2)] assms(4) by auto
  have "ps_char abi c = c" if "c \<in> set (take n ps)" for c
  proof -
    have "char_ok abi c" using that assms(3) by (auto simp: list_all_iff dest: in_set_takeD)
    moreover have "c \<noteq> 0" using that assms(4) by (auto simp: take_strnlen dest: set_takeWhileD)
    ultimately show ?thesis by (simp add: ps_char_def char_ok_def)
  qed
  then have "map (ps_char abi) (take n ps) = take n ps" by (simp add: map_idI)
  with assms(1) F show ?thesis
    by (simp add: tool_stop_dps_def remembers_def rds_dynps_destroy_def rds_set_ps_eq [OF F(1) assms(5)])
qed

text \<open>The radio text threads leave the name alone.\<close>

lemma dynrt_keeps_ps:
  "st_ps (st_of st (snd (dynrt_consume abi (d, Some st)))) = st_ps st \<and>
   st_ps_set (st_of st (snd (dynrt_consume abi (d, Some st)))) = st_ps_set st"
  "st_ps (st_of st (snd (dynrt_filemon abi fc (d, Some st)))) = st_ps st \<and>
   st_ps_set (st_of st (snd (dynrt_filemon abi fc (d, Some st)))) = st_ps_set st"
  by (simp_all add: dynrt_consume_def dynrt_filemon_def Let_def rds_set_rt_keeps_ps split: option.split)

lemma late_keeps_ps:
  assumes "\<not> tl_dps_on s" "\<nexists>c. e = Other_Client c"
  shows "\<not> tl_dps_on (run_event abi e s) \<and> st_ps (tl_st (run_event abi e s)) = st_ps (tl_st s) \<and>
    st_ps_set (tl_st (run_event abi e s)) = st_ps_set (tl_st s)"
  using assms by (cases e) (simp_all add: case_prod_beta dynrt_keeps_ps)

lemma lates_keep_ps:
  "\<not> tl_dps_on s \<Longrightarrow> \<forall>c. Other_Client c \<notin> set late \<Longrightarrow>
   st_ps (tl_st (run_events abi late s)) = st_ps (tl_st s) \<and>
   st_ps_set (tl_st (run_events abi late s)) = st_ps_set (tl_st s)"
proof (induction late arbitrary: s)
  case (Cons e late)
  have "\<nexists>c. e = Other_Client c" using Cons.prems(2) by auto
  from late_keeps_ps [OF Cons.prems(1) this, of abi] Cons show ?case by simp
qed simp

lemma tool_stop_drt_keeps_ps:
  "st_ps (tl_st (tool_stop_drt abi s)) = st_ps (tl_st s) \<and> st_ps_set (tl_st (tool_stop_drt abi s)) = st_ps_set (tl_st s)"
  using rds_set_rt_keeps_ps [of "tl_st s" abi "Some (drt_fixed_rt (tl_drt s))" 1]
  by (simp add: tool_stop_drt_def rds_dynrt_destroy_def) (simp add: rds_set_rt_def)

text \<open>
  C15: when the tool feeds the name from a file (\<^verbatim>\<open>-dps\<close>, with any further options that succeed) it ends
  when a signal arrives while it waits, and the encoder has the station's name again that it had
  before, up to the first zero byte, whatever the file contained, however often it changed, and
  whatever other clients set in between.
\<close>

theorem rds_tool_restores_name:
  assumes "rds_state_wf abi st" "strnlen (st_ps st) RDS_PS_LENGTH = n" "n \<noteq> 0" "Tool_Signal \<in> set waiting"
    and attach: "utils_shm_attach RDS_ENC_SHM_NAME sizeof_rds_encoder_state os = (Some m, os1)"
    and opts: "rds_tool_options abi (Option_Step io (Opt_Dps f) # steps) (rds_tool_zero st) = (Next_Option, s)"
    and once: "\<forall>io f. Option_Step io (Opt_Dps f) \<notin> set steps" and late: "\<forall>c. Other_Client c \<notin> set late"
  shows "\<exists>ret st' os'.
    rds_tool_main abi argc optind (Option_Step io (Opt_Dps f) # steps) early waiting late st os = Some (ret, st', os') \<and>
    st_ps st' = take n (st_ps st) @ replicate (8 - n) 0 \<and> st_ps_set st' = 1"
proof -
  let ?F = "strncpy (replicate 9 0) (st_ps st) RDS_PS_LENGTH"
  obtain k s1 where k: "tool_dps abi io (rds_tool_zero st) = (k, s1)" by (cases "tool_dps abi io (rds_tool_zero st)")
  with opts have "k = Next_Option" "rds_tool_options abi steps s1 = (Next_Option, s)" by (cases k; simp)+
  moreover from this k have "remembers ?F s1"
    using tool_dps_remembers [of abi io "rds_tool_zero st" s1] by (simp add: rds_tool_zero_def)
  ultimately have s: "remembers ?F s" using rds_tool_options_remembers once by blast
  define s2 where "s2 = (if argc < 2 \<or> argc > 1 \<and> optind = 1 then s\<lparr>tl_ret := - 1\<rparr> else s)"
  define s3 where "s3 = (fold (wait_step abi) early s2)\<lparr>tl_active := True\<rparr>"
  have "remembers ?F s2" using s by (simp add: s2_def remembers_def)
  from wait_events_remembers [OF this] have s3: "remembers ?F s3" by (simp add: s3_def remembers_def)
  obtain s4 where s4: "tool_wait abi waiting s3 = Some s4" using tool_wait_signal [OF assms(4)] by blast
  have "length (st_ps st) = 8" "list_all (char_ok abi) (st_ps st)"
    using assms(1) by (simp_all add: rds_state_wf_def)
  then have "st_ps (tl_st (tool_stop abi late s4)) = take n (st_ps st) @ replicate (8 - n) 0 \<and>
      st_ps_set (tl_st (tool_stop abi late s4)) = 1"
    using tool_stop_dps_restores [OF tool_wait_remembers [OF s4 s3], of abi n] assms(2,3) lates_keep_ps [OF _ late]
    by (simp add: tool_stop_def tool_stop_drt_keeps_ps)
  moreover have "tl_loop s2" using s by (simp add: s2_def remembers_def)
  ultimately show ?thesis
    using attach opts s4 by (simp add: rds_tool_main_def s2_def [symmetric] s3_def [symmetric])
qed

text \<open>The name A, a file with the text HI, and a consumer that has shown it.\<close>

theorem rds_tool_restores_name_witness:
  "\<exists>ret st' os'. rds_tool_main Signed_Char 3 3 [Option_Step (3, 1, (0, 7), (0, 8)) (Opt_Dps [0x66, 0])]
       [] [Work (Dps_File (Some [0x48, 0x49, 0x0A])), Work Dps_Consumer, Tool_Signal] [] example_st tool_example_os =
         Some (ret, st', os') \<and>
     st_ps st' = 0x41 # replicate 7 0 \<and> st_ps_set st' = 1"
proof -
  let ?ws = "[Work (Dps_File (Some [0x48, 0x49, 0x0A])), Work Dps_Consumer, Tool_Signal]"
  obtain m os1 where a: "utils_shm_attach RDS_ENC_SHM_NAME sizeof_rds_encoder_state tool_example_os = (Some m, os1)"
    by (simp add: tool_example_os_def os_start_def shm_defs)
  have ps: "st_ps example_st = 0x41 # replicate 7 0" "st_ps_set example_st = 1" by (simp_all add: example_st_def)
  have n: "strnlen (st_ps example_st) RDS_PS_LENGTH = 1" by (simp add: ps strnlen_def)
  have w: "Tool_Signal \<in> set ?ws" by simp
  obtain s where o: "rds_tool_options Signed_Char [Option_Step (3, 1, (0, 7), (0, 8)) (Opt_Dps [0x66, 0])]
      (rds_tool_zero example_st) = (Next_Option, s)"
    by (simp add: tool_dps_def rds_tool_zero_def rds_dynps_init_def ps Let_def)
  from rds_tool_restores_name [OF example_st_wf n _ w a o, of "[]" 3 3 "[]"]
  show ?thesis by (simp add: ps)
qed

text \<open>A signal that arrives before \<^verbatim>\<open>active = 1\<close> is lost: without a second one the tool never ends.\<close>

lemma early_signal_lost: "Tool_Signal \<notin> set ws \<Longrightarrow> tl_active s \<Longrightarrow> tool_wait abi ws s = None"
proof (induction ws arbitrary: s)
  case (Cons w ws)
  then obtain e where "w = Work e" by (cases w) auto
  moreover have "tl_active (run_event abi e s) = tl_active s" by (cases e) (auto split: prod.splits)
  ultimately show ?case using Cons by simp
qed simp

subsection \<open>The configuration given back\<close>

text \<open>An argument that \<^verbatim>\<open>-g\<close> printed arrives unchanged when the buffer of the option is long enough.\<close>

lemma temp_arg_fits:
  "0 \<notin> set t \<Longrightarrow> length t < n \<Longrightarrow> temp_arg n (t @ [0]) = t @ 0 # drop (Suc (length t)) (replicate TEMP_BUF_LEN 0)"
  using snprintf_fits [of t n "replicate TEMP_BUF_LEN 0" "[]"] by (simp add: temp_arg_def)

lemma strtol_printed_0x:
  assumes "v < 16 ^ Suc k" "Suc k + 2 < n" "k < 15"
  shows "strtol (temp_arg n (show_0x v @ [0])) 16 = int v"
proof -
  have "length (show_0x v) < n" using length_show_base [of 16 v k] assms(1,2) by (simp add: show_0x_def)
  moreover have "v < 2 ^ 63"
    using assms(1) power_increasing [of "Suc k" 15 "16 :: nat"] assms(3) by simp
  ultimately show ?thesis by (simp only: temp_arg_fits [OF show_0x_nonzero] strtol_show_0x)
qed

lemma atoi_printed:
  assumes "v < 10 ^ 3"
  shows "atoi (temp_arg 4 (show_dec v @ [0])) = int v"
proof -
  have "length (show_dec v) < 4" using length_show_base [of 10 v 2] assms by (simp add: show_dec_def)
  moreover have "v < 2 ^ 63" using assms by simp
  ultimately have "strtol (temp_arg 4 (show_dec v @ [0])) 10 = int v"
    by (simp only: temp_arg_fits [OF show_dec_nonzero] strtol_show_dec)
  moreover have "sint (word_of_int (int v) :: 32 word) = int v"
    using assms by (simp add: signed_of_nat signed_take_bit_int_eq_self)
  ultimately show ?thesis by (simp only: atoi_def)
qed

text \<open>A single character of \<^verbatim>\<open>0x\<close> is zero.\<close>

lemma strtol_first_0: "strtol (temp_arg 2 (show_0x v @ [0])) b = 0"
proof -
  have "temp_arg 2 (show_0x v @ [0]) = 0x30 # 0 # drop 2 (replicate TEMP_BUF_LEN 0)"
    by (simp add: temp_arg_def snprintf_s_def strnlen_def show_0x_def Let_def)
  moreover have "skip_0x b (0x30 # 0 # cs) = 0x30 # 0 # cs" for cs by (cases cs) simp_all
  moreover have "byte_digit 0x30 = Some 0" by (simp add: byte_digit_def)
  ultimately show ?thesis by (simp add: strtol_def isspace_def Let_def)
qed

text \<open>The line with a given label, as an argument of the tool.\<close>

definition printed :: "rds_encoder_state \<Rightarrow> string \<Rightarrow> cstring" where
  "printed st label = the (map_of (rds_tool_get st) label) @ [0]"

lemma printed_simps:
  "printed st ''PI'' = show_0x (unat (st_pi st)) @ [0]" "printed st ''ECC'' = show_0x (unat (st_ecc st)) @ [0]"
  "printed st ''LIC'' = show_0x (unat (ucast (st_lic st) :: uint16)) @ [0]"
  "printed st ''PTY'' = show_dec (unat (ucast (st_pty st) :: uint8)) @ [0]"
  "printed st ''TP'' = show_0x (unat (ucast (st_tp st) :: uint8)) @ [0]"
  "printed st ''TA'' = show_0x (unat (ucast (st_ta st) :: uint8)) @ [0]"
  "printed st ''MS'' = show_0x (unat (ucast (st_ms st) :: uint8)) @ [0]"
  "printed st ''DI'' = show_0x (unat (ucast (st_di st) :: uint8)) @ [0]"
  by (simp_all add: printed_def rds_tool_get_def Let_def state_defs)

text \<open>The values that the tool reads from what it has printed.\<close>

lemma read_back:
  "word_of_int (strtol (temp_arg 7 (printed st ''PI'')) 16) = st_pi st"
  "word_of_int (strtol (temp_arg 5 (printed st ''ECC'')) 16) = st_ecc st"
  "word_of_int (strtol (temp_arg 6 (printed st ''LIC'')) 16) AND 0xFFF = (ucast (st_lic st) :: uint16)"
  "word_of_int (atoi (temp_arg 4 (printed st ''PTY''))) = (ucast (st_pty st) :: uint8)"
proof -
  have pi: "unat (st_pi st) < 16 ^ Suc 3" using unsigned_less [of "st_pi st", where ?'a = nat] by simp
  have ecc: "unat (st_ecc st) < 16 ^ Suc 1" using unsigned_less [of "st_ecc st", where ?'a = nat] by simp
  have lic: "unat (ucast (st_lic st) :: uint16) < 16 ^ Suc 2"
    using unsigned_less [of "st_lic st", where ?'a = nat] by (simp add: unat_ucast_up)
  have pty: "unat (ucast (st_pty st) :: uint8) < 10 ^ 3"
    using unsigned_less [of "ucast (st_pty st) :: uint8", where ?'a = nat] by simp
  show "word_of_int (strtol (temp_arg 7 (printed st ''PI'')) 16) = st_pi st"
    unfolding printed_simps by (subst strtol_printed_0x [OF pi]) simp_all
  show "word_of_int (strtol (temp_arg 5 (printed st ''ECC'')) 16) = st_ecc st"
    unfolding printed_simps by (subst strtol_printed_0x [OF ecc]) simp_all
  show "word_of_int (strtol (temp_arg 6 (printed st ''LIC'')) 16) AND 0xFFF = (ucast (st_lic st) :: uint16)"
    unfolding printed_simps by (subst strtol_printed_0x [OF lic]) (simp_all add: and_4095_take_bit take_bit_ucast)
  show "word_of_int (atoi (temp_arg 4 (printed st ''PTY''))) = (ucast (st_pty st) :: uint8)"
    unfolding printed_simps by (subst atoi_printed [OF pty]) simp
qed

text \<open>
  C31: the PI, ECC, LIC and PTY that \<^verbatim>\<open>-g\<close> prints are accepted by the options of the same name and set
  the printed values on any encoder. The flags and the decoder information, which are printed with
  \<^verbatim>\<open>0x\<close> as well, are not: their options read one character, so that the printed text always sets them
  to zero.
\<close>

theorem rds_tool_config_roundtrip:
  "\<exists>s'. rds_tool_options abi
      [Option_Step io (Opt_Pi (printed st ''PI'')), Option_Step io (Opt_Ecc (printed st ''ECC'')),
       Option_Step io (Opt_Lic (printed st ''LIC'')), Option_Step io (Opt_Pty (printed st ''PTY''))] s = (Next_Option, s') \<and>
    st_pi (tl_st s') = st_pi st \<and> st_ecc (tl_st s') = st_ecc st \<and> st_lic (tl_st s') = st_lic st \<and>
    st_pty (tl_st s') = st_pty st \<and>
    (\<exists>s''. rds_tool_options abi
      [Option_Step io (Opt_Tp (printed st ''TP'')), Option_Step io (Opt_Ta (printed st ''TA'')),
       Option_Step io (Opt_Ms (printed st ''MS'')), Option_Step io (Opt_Di (printed st ''DI''))] s' = (Next_Option, s'') \<and>
     st_tp (tl_st s'') = 0 \<and> st_ta (tl_st s'') = 0 \<and> st_ms (tl_st s'') = 0 \<and> st_di (tl_st s'') = 0)"
proof -
  have pty: "(ucast (st_pty st) :: uint8) \<le> 31"
    using unsigned_less [of "st_pty st", where ?'a = nat] by (simp add: word_le_nat_alt unat_ucast_up)
  have flags: "tool_flag (printed st ''TP'') = 0" "tool_flag (printed st ''TA'') = 0" "tool_flag (printed st ''MS'') = 0"
    by (simp_all add: tool_flag_def printed_simps strtol_first_0)
  have di: "strtol (temp_arg 2 (printed st ''DI'')) 16 = 0" by (simp add: printed_simps strtol_first_0)
  have "ucast ((ucast (st_lic st) :: uint16) AND 0xFFF) = st_lic st"
    by (simp add: and_4095_take_bit take_bit_ucast ucast_ucast_up)
  moreover have "ucast (ucast (st_pty st) :: uint8) = st_pty st" by (simp add: ucast_ucast_up)
  ultimately show ?thesis
    by (simp add: read_back flags di tool_set_def rds_set_pi_def rds_set_ecc_def rds_set_lic_def rds_set_pty_def
        rds_set_tp_def rds_set_ta_def rds_set_ms_def rds_set_di_def Let_def pty)
qed

end
