(* ===== verification/Fmmod_Tool.thy ===== *)
theory Fmmod_Tool
  imports Cli Fmmod_Init
begin

text \<open>
  The command-line tool of the modulator (\<^verbatim>\<open>fmmod_tool.c\<close>). The successive results of \<^verbatim>\<open>getopt\<close> are a
  list of options with their arguments. Messages are not modelled, except for what \<^verbatim>\<open>-g\<close> prints.
\<close>

subsection \<open>The options\<close>

datatype fmmod_opt =
    Fm_Get | Fm_Audio cstring | Fm_Mpx cstring | Fm_Pilot cstring | Fm_Rds cstring | Fm_Carrier cstring
  | Fm_Stereo cstring | Fm_Lpf cstring | Fm_Preemph cstring | Fm_Unknown

abbreviation (input) FM_TEMP_BUF_LEN :: nat where "FM_TEMP_BUF_LEN \<equiv> 4"
abbreviation (input) LPF_PREEMPH_MAX :: int where "LPF_PREEMPH_MAX \<equiv> 3"

text \<open>The number in the first \<open>n - 1\<close> characters of an argument.\<close>

definition fm_arg :: "nat \<Rightarrow> cstring \<Rightarrow> int" where
  "fm_arg n optarg = strtol (snprintf_s (replicate FM_TEMP_BUF_LEN 0) n optarg) 10"

text \<open>
  \<^verbatim>\<open>(float)(strtol(temp, NULL, 10)) / 100.0\<close>, a division in double precision, stored as a \<^verbatim>\<open>float\<close>.
\<close>

definition fm_gain :: "cstring \<Rightarrow> real" where
  "fm_gain optarg = f32 (f64 (f32 (of_int (fm_arg 4 optarg)) / 100))"

definition fm_stereo :: "cstring \<Rightarrow> int" where
  "fm_stereo optarg =
     (let tmp = fm_arg 2 optarg AND 7 in
      if tmp = FMMOD_DSB \<or> tmp > FMMOD_MONO then FMMOD_DSB
      else if tmp = FMMOD_SSB_HARTLEY then FMMOD_SSB_HARTLEY
      else if tmp = FMMOD_SSB_LPF then FMMOD_SSB_LPF
      else FMMOD_MONO)"

definition fm_preemph :: "int \<Rightarrow> int" where
  "fm_preemph ret =
     (if ret = 0 \<or> ret \<ge> LPF_PREEMPH_MAX then LPF_PREEMPH_50US
      else if ret = 1 then LPF_PREEMPH_75US
      else LPF_PREEMPH_NONE)"

text \<open>
  One option; \<open>None\<close> is the return from \<^verbatim>\<open>main\<close> after the usage message. The variable \<^verbatim>\<open>ret\<close>, which
  becomes the exit status, also holds the argument of \<^verbatim>\<open>-e\<close>.
\<close>

fun fmmod_tool_option :: "fmmod_opt \<Rightarrow> int \<times> fmmod_control \<Rightarrow> (int \<times> fmmod_control) option" where
  "fmmod_tool_option Fm_Get (ret, ctl) = Some (ret, ctl)"
| "fmmod_tool_option (Fm_Audio a) (ret, ctl) = Some (ret, ctl\<lparr>audio_gain := fm_gain a\<rparr>)"
| "fmmod_tool_option (Fm_Mpx a) (ret, ctl) = Some (ret, ctl\<lparr>mpx_gain := fm_gain a\<rparr>)"
| "fmmod_tool_option (Fm_Pilot a) (ret, ctl) = Some (ret, ctl\<lparr>pilot_gain := fm_gain a\<rparr>)"
| "fmmod_tool_option (Fm_Rds a) (ret, ctl) = Some (ret, ctl\<lparr>rds_gain := fm_gain a\<rparr>)"
| "fmmod_tool_option (Fm_Carrier a) (ret, ctl) = Some (ret, ctl\<lparr>stereo_carrier_gain := fm_gain a\<rparr>)"
| "fmmod_tool_option (Fm_Stereo a) (ret, ctl) = Some (ret, ctl\<lparr>stereo_modulation := fm_stereo a\<rparr>)"
| "fmmod_tool_option (Fm_Lpf a) (ret, ctl) = Some (ret, ctl\<lparr>use_audio_lpf := fm_arg 2 a AND 1\<rparr>)"
| "fmmod_tool_option (Fm_Preemph a) (ret, ctl) =
     (let ret = fm_arg 2 a AND 3 in Some (ret, ctl\<lparr>preemph_tau := fm_preemph ret\<rparr>))"
| "fmmod_tool_option Fm_Unknown (ret, ctl) = None"

text \<open>The options up to the first unknown one; what those before it have set stays set.\<close>

fun fmmod_tool_options :: "fmmod_opt list \<Rightarrow> int \<times> fmmod_control \<Rightarrow> bool \<times> int \<times> fmmod_control" where
  "fmmod_tool_options [] s = (True, s)"
| "fmmod_tool_options (opt # opts) s =
     (case fmmod_tool_option opt s of None \<Rightarrow> (False, s) | Some s \<Rightarrow> fmmod_tool_options opts s)"

definition fmmod_tool_main ::
  "int \<Rightarrow> int \<Rightarrow> fmmod_opt list \<Rightarrow> fmmod_control \<Rightarrow> os \<Rightarrow> int \<times> fmmod_control \<times> os" where
  "fmmod_tool_main argc optind opts ctl os =
     (case utils_shm_attach FMMOD_CTL_SHM_NAME sizeof_fmmod_control os of
        (None, os) \<Rightarrow> (- 1, ctl, os)
      | (Some shmem, os) \<Rightarrow>
          (case fmmod_tool_options opts (0, ctl) of
             (False, _, ctl) \<Rightarrow> (- 1, ctl, utils_shm_destroy (Some shmem) False os)
           | (True, ret, ctl) \<Rightarrow>
               let ret = (if argc < 2 \<or> argc > 1 \<and> optind = 1 then - 1 else ret)
               in (ret, ctl, utils_shm_destroy (Some shmem) False os)))"

text \<open>What \<^verbatim>\<open>-g\<close> prints: a percentage is \<^verbatim>\<open>(int)(100 * gain)\<close>, a product in single precision.\<close>

datatype fm_shown = Percent int | Shown_Text string | Shown_Float real

definition fm_percent :: "real \<Rightarrow> int" where "fm_percent g = c_trunc (f32 (100 * g))"

definition fmmod_tool_get :: "fmmod_control \<Rightarrow> (string \<times> fm_shown) list" where
  "fmmod_tool_get ctl =
     [(''Audio'', Percent (fm_percent (audio_gain ctl))),
      (''MPX'', Percent (fm_percent (mpx_gain ctl))),
      (''Pilot'', Percent (fm_percent (pilot_gain ctl))),
      (''RDS'', Percent (fm_percent (rds_gain ctl))),
      (''Stereo gain'', Percent (fm_percent (stereo_carrier_gain ctl))),
      (''Stereo mode'', Shown_Text (if stereo_modulation ctl = FMMOD_MONO then ''Mono''
         else if stereo_modulation ctl = FMMOD_SSB_HARTLEY then ''SSB (Hartley)''
         else if stereo_modulation ctl = FMMOD_SSB_LPF then ''SSB (LP Filter)'' else ''DSBSC'')),
      (''Audio LPF'', Shown_Text (if use_audio_lpf ctl \<noteq> 0 then ''Enabled'' else ''Disabled'')),
      (''FM Pre-emph tau'', Shown_Text (if preemph_tau ctl = 0 then ''50us (World)''
         else if preemph_tau ctl = 1 then ''75us (U.S.A.)'' else ''Disabled'')),
      (''Audio Left'', Shown_Float (peak_audio_in_l ctl)),
      (''Audio Right'', Shown_Float (peak_audio_in_r ctl)),
      (''Current MPX'', Shown_Float (peak_mpx_out ctl))]"

subsection \<open>What an invocation can do\<close>

text \<open>The values the modulator distinguishes, and the range of the gains: three characters.\<close>

definition is_stereo :: "int \<Rightarrow> bool" where
  "is_stereo k \<longleftrightarrow> k \<in> {FMMOD_DSB, FMMOD_SSB_HARTLEY, FMMOD_SSB_LPF, FMMOD_MONO}"

definition is_preemph :: "int \<Rightarrow> bool" where
  "is_preemph k \<longleftrightarrow> k \<in> {LPF_PREEMPH_50US, LPF_PREEMPH_75US, LPF_PREEMPH_NONE}"

definition is_switch :: "int \<Rightarrow> bool" where "is_switch k \<longleftrightarrow> k \<in> {0, 1}"

definition is_gain :: "real \<Rightarrow> bool" where "is_gain g \<longleftrightarrow> \<bar>g\<bar> \<le> 10"

definition ctl_typed :: "fmmod_control \<Rightarrow> bool" where
  "ctl_typed ctl \<longleftrightarrow>
     is_stereo (stereo_modulation ctl) \<and> is_preemph (preemph_tau ctl) \<and> is_switch (use_audio_lpf ctl) \<and>
     is_gain (audio_gain ctl) \<and> is_gain (pilot_gain ctl) \<and> is_gain (rds_gain ctl) \<and>
     is_gain (stereo_carrier_gain ctl) \<and> is_gain (mpx_gain ctl)"

lemma fm_arg_less: "\<bar>fm_arg (Suc k) a\<bar> < 10 ^ k"
proof -
  obtain xs ys where "snprintf_s (replicate FM_TEMP_BUF_LEN 0) (Suc k) a = xs @ 0 # ys" "length xs \<le> k"
    using snprintf_split [of "replicate FM_TEMP_BUF_LEN 0" "Suc k" a] by auto
  with strtol_less [of 10 xs k ys] show ?thesis by (simp add: fm_arg_def)
qed

lemma fm_gain_exact: "fm_gain a = f32 (f64 (of_int (fm_arg 4 a) / 100))"
proof -
  have "\<bar>fm_arg 4 a\<bar> \<le> 2 ^ 24" using fm_arg_less [of 3 a] by simp
  then show ?thesis by (simp add: fm_gain_def f32_of_int)
qed

lemma fm_gain_bound: "\<bar>fm_gain a\<bar> \<le> 10"
proof -
  have "\<bar>of_int (fm_arg 4 a) / 100 :: real\<bar> \<le> 10" using fm_arg_less [of 3 a] by simp
  moreover have "f64 10 = 10" "f32 10 = 10" using f64_of_int [of 10] f32_of_int [of 10] by simp_all
  ultimately show ?thesis unfolding fm_gain_exact by (intro rnd32.bound rnd64.bound) simp_all
qed

lemma fm_gain_percent:
  assumes "0 \<le> fm_arg 4 a" "fm_arg 4 a \<le> 100"
  shows "0 \<le> fm_gain a" "fm_gain a \<le> 1"
proof -
  have v: "0 \<le> (of_int (fm_arg 4 a) / 100 :: real)" "(of_int (fm_arg 4 a) / 100 :: real) \<le> 1"
    using assms by simp_all
  show "0 \<le> fm_gain a" unfolding fm_gain_exact using v by (intro rnd32.nonneg rnd64.nonneg)
  have "f64 (of_int (fm_arg 4 a) / 100) \<le> 1" using rnd64.mono [OF v(2)] rnd64.one by simp
  then show "fm_gain a \<le> 1" unfolding fm_gain_exact using rnd32.mono rnd32.one by metis
qed

text \<open>A percentage from 0 to 100 for the gains that \<open>gains_ok\<close> speaks about.\<close>

fun percent :: "fmmod_opt \<Rightarrow> bool" where
  "percent (Fm_Mpx a) = (0 \<le> fm_arg 4 a \<and> fm_arg 4 a \<le> 100)"
| "percent (Fm_Pilot a) = (0 \<le> fm_arg 4 a \<and> fm_arg 4 a \<le> 100)"
| "percent (Fm_Rds a) = (0 \<le> fm_arg 4 a \<and> fm_arg 4 a \<le> 100)"
| "percent (Fm_Carrier a) = (0 \<le> fm_arg 4 a \<and> fm_arg 4 a \<le> 100)"
| "percent opt = True"

lemma values_typed:
  "is_stereo (fm_stereo a)" "is_preemph (fm_preemph r)" "is_switch (k AND 1)" "is_gain (fm_gain a)"
  by (simp_all add: is_stereo_def fm_stereo_def is_preemph_def fm_preemph_def is_switch_def is_gain_def Let_def
      and_one_eq mod2_eq_if fm_gain_bound)

lemma option_typed:
  assumes "fmmod_tool_option opt (ret, ctl) = Some (ret', ctl')" "ctl_typed ctl"
  shows "ctl_typed ctl'"
  using assms by (cases opt) (auto simp: ctl_typed_def Let_def values_typed)

lemma option_gains:
  assumes "fmmod_tool_option opt (ret, ctl) = Some (ret', ctl')" "gains_ok ctl" "percent opt"
  shows "gains_ok ctl'"
  using assms by (cases opt) (auto simp: gains_ok_def Let_def fm_gain_percent)

lemma options_keep:
  "fmmod_tool_options opts (ret, ctl) = (b, ret', ctl') \<Longrightarrow>
   (ctl_typed ctl \<longrightarrow> ctl_typed ctl') \<and> (gains_ok ctl \<and> (\<forall>opt \<in> set opts. percent opt) \<longrightarrow> gains_ok ctl')"
proof (induction opts arbitrary: ret ctl)
  case (Cons opt opts)
  show ?case
  proof (cases "fmmod_tool_option opt (ret, ctl)")
    case (Some s)
    obtain ret1 ctl1 where s: "s = (ret1, ctl1)" by (cases s)
    have "fmmod_tool_options opts (ret1, ctl1) = (b, ret', ctl')" using Cons.prems Some s by simp
    from Cons.IH [OF this] option_typed [OF Some [unfolded s]] option_gains [OF Some [unfolded s]]
    show ?thesis by simp
  qed (use Cons.prems in simp)
qed simp

text \<open>
  C30: whatever options the tool is given, it leaves a well-typed control block behind: one of the
  four modulations, one of the three time constants, a switch that is 0 or 1, and gains of at most
  ten. When the gains are given as percentages from 0 to 100 they keep the range on which the bound
  of the multiplex signal relies; and the tool holds nothing that it did not hold before.
\<close>

theorem fmmod_tool_keeps_type:
  assumes "fmmod_tool_main argc optind opts ctl os = (ret, ctl', os')" "ctl_typed ctl"
  shows "ctl_typed ctl' \<and> (gains_ok ctl \<and> (\<forall>opt \<in> set opts. percent opt) \<longrightarrow> gains_ok ctl') \<and>
    os_live os' = os_live os \<and> os_fault os' = os_fault os"
proof -
  obtain res os1 where a: "utils_shm_attach FMMOD_CTL_SHM_NAME sizeof_fmmod_control os = (res, os1)"
    by (cases "utils_shm_attach FMMOD_CTL_SHM_NAME sizeof_fmmod_control os")
  obtain b r c where o: "fmmod_tool_options opts (0, ctl) = (b, r, c)" by (metis prod.collapse)
  show ?thesis
  proof (cases res)
    case None
    with assms a utils_shm_attach_cases [OF a] show ?thesis by (simp add: fmmod_tool_main_def)
  next
    case (Some m)
    with assms(1) a o have "ctl' = c" "os' = utils_shm_destroy (Some m) False os1"
      by (auto simp: fmmod_tool_main_def Let_def split: bool.splits)
    then show ?thesis
      using options_keep [OF o] attach_detach [of _ _ os m os1] a Some assms(2) by simp
  qed
qed

definition fm_tool_os :: os where
  "fm_tool_os = (os_start (\<lambda>_. False))\<lparr>os_shm := [FMMOD_CTL_SHM_NAME]\<rparr>"

text \<open>\<^verbatim>\<open>-p 9 -s 3\<close>.\<close>

theorem fmmod_tool_keeps_type_witness:
  "\<exists>ret ctl' os'. fmmod_tool_main 5 5 [Fm_Pilot [0x39, 0], Fm_Stereo [0x33, 0]] ctl_zero fm_tool_os = (ret, ctl', os') \<and>
     ctl_typed ctl' \<and> gains_ok ctl' \<and> os_live os' = {#}"
proof -
  have "\<forall>opt \<in> set [Fm_Pilot [0x39, 0], Fm_Stereo [0x33, 0]]. percent opt"
    by (simp add: fm_arg_def snprintf_s_def strnlen_def strtol_def isspace_def is_base_digit_def byte_digit_def skip_0x_other)
  moreover have "ctl_typed ctl_zero" "gains_ok ctl_zero" 
    by (simp_all add: ctl_typed_def gains_ok_def ctl_zero_def is_stereo_def is_preemph_def is_switch_def is_gain_def)
  moreover obtain ret ctl' os' where
    r: "fmmod_tool_main 5 5 [Fm_Pilot [0x39, 0], Fm_Stereo [0x33, 0]] ctl_zero fm_tool_os = (ret, ctl', os')"
    by (metis prod.collapse)
  ultimately show ?thesis
    using fmmod_tool_keeps_type [OF r] r by (simp add: fm_tool_os_def os_start_def)
qed

subsection \<open>The exit status\<close>

lemma option_status:
  "fmmod_tool_option opt (ret, ctl) = Some (ret', ctl') \<Longrightarrow> \<nexists>a. opt = Fm_Preemph a \<Longrightarrow> ret' = ret"
  by (cases opt) auto

lemma options_status:
  "Fm_Unknown \<notin> set opts \<Longrightarrow> \<forall>a. Fm_Preemph a \<notin> set opts \<Longrightarrow>
   \<exists>ctl'. fmmod_tool_options opts (ret, ctl) = (True, ret, ctl')"
proof (induction opts arbitrary: ctl)
  case (Cons opt opts)
  have "fmmod_tool_option opt (ret, ctl) \<noteq> None" using Cons.prems(1) by (cases opt) (auto simp: Let_def)
  then obtain ret1 ctl1 where s: "fmmod_tool_option opt (ret, ctl) = Some (ret1, ctl1)" by auto
  have "ret1 = ret" using option_status [OF s] Cons.prems(2) by (metis list.set_intros(1))
  with s Cons show ?case by auto
qed simp

lemma options_append:
  "Fm_Unknown \<notin> set xs \<Longrightarrow> \<exists>s'. \<forall>ys. fmmod_tool_options (xs @ ys) s = fmmod_tool_options ys s'"
proof (induction xs arbitrary: s)
  case (Cons opt xs)
  obtain ret ctl where "s = (ret, ctl)" by (cases s)
  then have "fmmod_tool_option opt s \<noteq> None" using Cons.prems by (cases opt) (auto simp: Let_def)
  then obtain s1 where "fmmod_tool_option opt s = Some s1" by auto
  with Cons show ?case by simp
qed auto

text \<open>
  C40: an invocation that sets the pre-emphasis and succeeds does not return 0 but the number of the
  last mode it was given: setting 75 us or switching the filter off is reported as a failure to the
  caller.
\<close>

theorem fmmod_tool_preemph_status:
  assumes "Fm_Unknown \<notin> set (before @ Fm_Preemph a # after)" "\<forall>b. Fm_Preemph b \<notin> set after"
    and "utils_shm_attach FMMOD_CTL_SHM_NAME sizeof_fmmod_control os = (Some m, os1)" "2 \<le> argc" "optind \<noteq> 1"
  shows "fst (fmmod_tool_main argc optind (before @ Fm_Preemph a # after) ctl os) = fm_arg 2 a AND 3"
proof -
  obtain s where s: "\<forall>ys. fmmod_tool_options (before @ ys) (0, ctl) = fmmod_tool_options ys s"
    using options_append [of before "(0, ctl)"] assms(1) by auto
  obtain ret c where "s = (ret, c)" by (cases s)
  with s options_status [of after "fm_arg 2 a AND 3" "c\<lparr>preemph_tau := fm_preemph (fm_arg 2 a AND 3)\<rparr>"] assms(1,2)
  obtain c' where "fmmod_tool_options (before @ Fm_Preemph a # after) (0, ctl) = (True, fm_arg 2 a AND 3, c')"
    by (auto simp: Let_def)
  with assms(3-5) show ?thesis by (simp add: fmmod_tool_main_def)
qed

theorem fmmod_tool_preemph_status_witness:
  "fst (fmmod_tool_main 3 3 [Fm_Preemph [0x31, 0]] ctl_zero fm_tool_os) = 1"
proof -
  obtain m os1 where "utils_shm_attach FMMOD_CTL_SHM_NAME sizeof_fmmod_control fm_tool_os = (Some m, os1)"
    by (simp add: fm_tool_os_def os_start_def shm_defs)
  moreover have "fm_arg 2 [0x31, 0] = 1"
    by (simp add: fm_arg_def snprintf_s_def strnlen_def strtol_def isspace_def is_base_digit_def byte_digit_def skip_0x_other)
  ultimately show ?thesis using fmmod_tool_preemph_status [of "[]" "[0x31, 0]" "[]" fm_tool_os m os1 3 3 ctl_zero] by simp
qed

text \<open>The percentage that is printed is truncated: after \<^verbatim>\<open>-m 53\<close> the tool reports 52.\<close>

lemma fm_gain_53: "fm_arg 4 a = 53 \<Longrightarrow> fm_gain a = 8891924 / 2 ^ 24"
proof -
  have 1: "f64 (53 / 100) = 4773815605012726 / 2 ^ 53"
    unfolding f64_def using float_round_eval [of "- 1" "53 / 100" "- 1074" 53 4773815605012726]
    by (simp add: power_int_minus field_simps)
  have 2: "f32 (4773815605012726 / 2 ^ 53) = 8891924 / 2 ^ 24"
    unfolding f32_def using float_round_eval [of "- 1" "4773815605012726 / 2 ^ 53" "- 149" 24 8891924]
    by (simp add: power_int_minus field_simps)
  assume "fm_arg 4 a = 53"
  then show ?thesis by (simp only: fm_gain_exact of_int_numeral 1 2)
qed

lemma fm_percent_53: "fm_arg 4 a = 53 \<Longrightarrow> fm_percent (fm_gain a) = 52"
proof -
  have "f32 (100 * (8891924 / 2 ^ 24)) = 13893631 / 2 ^ 18"
    unfolding f32_def using float_round_eval [of 5 "100 * (8891924 / 2 ^ 24)" "- 149" 24 13893631]
    by (simp add: power_int_minus field_simps)
  moreover have "\<lfloor>13893631 / 2 ^ 18 :: real\<rfloor> = 52" by (simp add: floor_eq_iff)
  moreover assume "fm_arg 4 a = 53"
  ultimately show ?thesis by (simp only: fm_percent_def fm_gain_53) (simp add: c_trunc_def)
qed

end
