(* ===== verification/Daemon.thy ===== *)
theory Daemon
  imports Cli Fmmod_Init
begin

text \<open>
  The daemon (\<^verbatim>\<open>main.c\<close>) and the tool that adds and removes receivers of the RTP stream
  (\<^verbatim>\<open>rtp_tool.c\<close>), which talks to the daemon with signals. The results of \<^verbatim>\<open>getopt\<close> are a list of
  options. The daemon's signals and the end of JACK arrive while it sleeps; what arrives during one
  \<^verbatim>\<open>sleep(1)\<close> is a list of events. Messages, backtraces and the scheduling class are not modelled.
\<close>

subsection \<open>Signals\<close>

text \<open>
  The signals for which the daemon installs its handler. The address in \<^verbatim>\<open>sival_int\<close> is the
  \<^verbatim>\<open>in_addr\<close> of the sender, bit for bit.
\<close>

datatype dsignal =
    SIGPIPE | SIGUSR1 ipv4 | SIGUSR2 ipv4 | SIGABRT | SIGSEGV | SIGQUIT | SIGTERM | SIGHUP | SIGINT

subsection \<open>The tool\<close>

datatype rtp_opt = Rtp_Get | Rtp_Add string | Rtp_Remove string | Rtp_Unknown

text \<open>The signals sent so far with the process they are sent to; \<open>None\<close> is the usage message.\<close>

fun rtp_tool_option ::
  "int \<Rightarrow> rtp_opt \<Rightarrow> (int \<times> dsignal) list \<times> os \<Rightarrow> ((int \<times> dsignal) list \<times> os) option" where
  "rtp_tool_option pid Rtp_Get (sent, os) = Some (sent, os)"
| "rtp_tool_option pid (Rtp_Add a) (sent, os) =
     (case inet_aton a of
        None \<Rightarrow> Some (sent, os)
      | Some addr \<Rightarrow> (case attempt os of (ok, os) \<Rightarrow> Some (if ok then sent @ [(pid, SIGUSR1 addr)] else sent, os)))"
| "rtp_tool_option pid (Rtp_Remove a) (sent, os) =
     (case inet_aton a of
        None \<Rightarrow> Some (sent, os)
      | Some addr \<Rightarrow> (case attempt os of (ok, os) \<Rightarrow> Some (if ok then sent @ [(pid, SIGUSR2 addr)] else sent, os)))"
| "rtp_tool_option pid Rtp_Unknown (sent, os) = None"

fun rtp_tool_options ::
  "int \<Rightarrow> rtp_opt list \<Rightarrow> (int \<times> dsignal) list \<times> os \<Rightarrow> bool \<times> (int \<times> dsignal) list \<times> os" where
  "rtp_tool_options pid [] s = (True, s)"
| "rtp_tool_options pid (opt # opts) s =
     (case rtp_tool_option pid opt s of None \<Rightarrow> (False, s) | Some s \<Rightarrow> rtp_tool_options pid opts s)"

text \<open>The exit status, the signals sent, and the system.\<close>

definition rtp_tool_main ::
  "int \<Rightarrow> int \<Rightarrow> rtp_opt list \<Rightarrow> rtp_server_control \<Rightarrow> os \<Rightarrow> int \<times> (int \<times> dsignal) list \<times> os" where
  "rtp_tool_main argc optind opts ctl os =
     (case utils_shm_attach RTP_SRV_SHM_NAME sizeof_rtp_server_control os of
        (None, os) \<Rightarrow> (- 1, [], os)
      | (Some shmem, os) \<Rightarrow>
          (case rtp_tool_options (ctl_pid ctl) opts ([], os) of
             (False, sent, os) \<Rightarrow> (- 1, sent, utils_shm_destroy (Some shmem) False os)
           | (True, sent, os) \<Rightarrow>
               (if argc < 2 \<or> argc > 1 \<and> optind = 1 then - 1 else 0, sent, utils_shm_destroy (Some shmem) False os)))"

text \<open>The addresses that \<^verbatim>\<open>-g\<close> prints.\<close>

definition rtp_tool_receivers :: "rtp_server_control \<Rightarrow> string list" where
  "rtp_tool_receivers ctl = map (\<lambda>i. inet_ntoa (receivers ctl ! i)) [0 ..< num_receivers ctl]"

subsection \<open>The daemon\<close>

text \<open>
  \<open>dm_net\<close> is the part of the RTP server that adding and removing receivers uses. After \<^verbatim>\<open>SIGKILL\<close> the
  process is gone.
\<close>

record 'k daemon =
  dm_active :: bool
  dm_fmmod :: modulator
  dm_net :: "'k rtp_net"
  dm_os :: os
  dm_killed :: bool

definition kill_daemon :: "'k daemon \<Rightarrow> 'k daemon" where
  "kill_daemon d = d\<lparr>dm_os := utils_shm_unlink_all (dm_os d), dm_killed := True\<rparr>"

definition signal_handler :: "'k multiudpsink \<Rightarrow> 64 word \<Rightarrow> dsignal \<Rightarrow> 'k daemon \<Rightarrow> 'k daemon option" where
  "signal_handler sink tm sig d =
     (case sig of
        SIGPIPE \<Rightarrow> Some d
      | SIGUSR1 addr \<Rightarrow>
          map_option (\<lambda>(_, srv, os). d\<lparr>dm_net := srv, dm_os := os\<rparr>) (rtp_server_add_receiver sink tm addr (dm_net d) (dm_os d))
      | SIGUSR2 addr \<Rightarrow>
          map_option (\<lambda>(_, srv, os). d\<lparr>dm_net := srv, dm_os := os\<rparr>) (rtp_server_remove_receiver sink tm addr (dm_net d) (dm_os d))
      | SIGABRT \<Rightarrow> Some (kill_daemon d)
      | SIGSEGV \<Rightarrow> Some (kill_daemon d)
      | _ \<Rightarrow> if \<not> dm_active d then Some (kill_daemon d) else Some (d\<lparr>dm_active := False\<rparr>))"

text \<open>What can happen during a sleep. JACK calls \<^verbatim>\<open>fmmod_shutdown\<close> at most once, on an active client.\<close>

datatype dm_event = Got_Signal "64 word" dsignal | Jack_Ends

definition dm_step :: "'k multiudpsink \<Rightarrow> dm_event \<Rightarrow> 'k daemon \<Rightarrow> 'k daemon option" where
  "dm_step sink e d =
     (if dm_killed d then Some d
      else case e of
        Got_Signal tm sig \<Rightarrow> signal_handler sink tm sig d
      | Jack_Ends \<Rightarrow>
          if fm_active (dm_fmmod d) then
            (case fmmod_shutdown (dm_fmmod d) (dm_os d) of ((fmmod, _), os) \<Rightarrow> Some (d\<lparr>dm_fmmod := fmmod, dm_os := os\<rparr>))
          else Some d)"

primrec dm_steps :: "'k multiudpsink \<Rightarrow> dm_event list \<Rightarrow> 'k daemon \<Rightarrow> 'k daemon option" where
  "dm_steps sink [] d = Some d"
| "dm_steps sink (e # es) d = do { d \<leftarrow> dm_step sink e d; dm_steps sink es d }"

text \<open>The end of \<^verbatim>\<open>main\<close>, after the loop.\<close>

definition main_end :: "'k daemon \<Rightarrow> 'k daemon" where
  "main_end d =
     (if \<not> dm_killed d \<and> fm_active (dm_fmmod d) then
        (case fmmod_destroy False (dm_fmmod d) (dm_os d) of ((fmmod, _), os) \<Rightarrow> d\<lparr>dm_fmmod := fmmod, dm_os := os\<rparr>)
      else d)"

text \<open>
  The loop, over what arrives during its sleeps; the flag says that the process has ended.
\<close>

fun main_loop :: "'k multiudpsink \<Rightarrow> dm_event list list \<Rightarrow> 'k daemon \<Rightarrow> (bool \<times> 'k daemon) option" where
  "main_loop sink sleeps d =
     (if dm_killed d \<or> \<not> (dm_active d \<and> fm_active (dm_fmmod d)) then Some (True, main_end d)
      else case sleeps of
        [] \<Rightarrow> Some (False, d)
      | es # sleeps \<Rightarrow> do { d \<leftarrow> dm_steps sink es d; main_loop sink sleeps d })"

declare main_loop.simps [simp del]

text \<open>\<^verbatim>\<open>main\<close>: the exit status, whether the process has ended, and the daemon.\<close>

definition daemon_main ::
  "(real \<Rightarrow> real) \<Rightarrow> dft_fun \<Rightarrow> bool \<Rightarrow> bool \<Rightarrow> jack_info \<Rightarrow> 'k multiudpsink \<Rightarrow> 'k rtp_net \<Rightarrow> dm_event list list \<Rightarrow> os \<Rightarrow>
   (int \<times> bool \<times> 'k daemon) option" where
  "daemon_main ld dft mt eexist jack sink net sleeps os =
     do {
       ((ret, fmmod), os) \<leftarrow> fmmod_initialize ld dft mt eexist jack os;
       let d = \<lparr>dm_active = False, dm_fmmod = fmmod, dm_net = net, dm_os = os, dm_killed = False\<rparr>;
       if ret < 0 then Some (ret, True, d)
       else map_option (\<lambda>(ended, d). (0, ended, d)) (main_loop sink sleeps (d\<lparr>dm_active := True\<rparr>))
     }"

subsection \<open>The segments of a started modulator\<close>

definition has_segment :: "string \<Rightarrow> shm_mapping option \<Rightarrow> bool" where
  "has_segment name sm \<longleftrightarrow> (\<exists>m a. sm = Some m \<and> shm_name m = name \<and> shm_mem m = Mem_At a)"

definition has_segments :: "modulator \<Rightarrow> bool" where
  "has_segments fmmod \<longleftrightarrow>
     has_segment FMMOD_CTL_SHM_NAME (fm_ctl_map fmmod) \<and>
     has_segment RDS_ENC_SHM_NAME (enc_state_map (fm_rds_enc fmmod)) \<and> enc_status (fm_rds_enc fmmod) = RDS_ENC_ACTIVE \<and>
     has_segment RTP_SRV_SHM_NAME (rtp_ctl_map (fm_rtpsrv fmmod)) \<and> gst_up (fm_rtpsrv fmmod) \<and>
     rtp_state (fm_rtpsrv fmmod) = RTP_SERVER_ACTIVE"

lemma shm_init_segment:
  assumes "utils_shm_init name sz os = (Some m, os')" "shm_mem m \<noteq> Mem_Null"
  shows "has_segment name (Some m)"
  using utils_shm_init_cases(4) [OF assms(1) refl] assms(2) by (cases "shm_mem m") (auto simp: has_segment_def)

lemma rds_encoder_init_segment:
  assumes "rds_encoder_init rsmpl os = Some ((r, c), os')" "0 \<le> r"
  shows "has_segment RDS_ENC_SHM_NAME (enc_state_map c) \<and> enc_status c = RDS_ENC_ACTIVE"
proof -
  obtain res os1 where shm: "utils_shm_init RDS_ENC_SHM_NAME sizeof_rds_encoder_state os = (res, os1)"
    by (cases "utils_shm_init RDS_ENC_SHM_NAME sizeof_rds_encoder_state os")
  with assms obtain m where m: "res = Some m" by (cases res) (auto simp: rds_encoder_init_def)
  from assms shm m obtain n enc where rest: "rds_encoder_init_rest n m enc os1 = Some ((r, c), os')"
    and enc: "enc_state_map enc = Some m" by (auto simp: rds_encoder_init_def Let_def)
  have "shm_mem m \<noteq> Mem_Null" using rds_encoder_init_rest_null [OF rest assms(2)] .
  with shm m have "has_segment RDS_ENC_SHM_NAME (Some m)" using shm_init_segment by blast
  moreover have "enc_state_map c = Some m \<and> enc_status c = RDS_ENC_ACTIVE"
    using rest enc assms(2)
    by (auto simp: rds_encoder_init_rest_def rds_encoder_fail_def Let_def split: prod.splits if_splits option.splits)
  ultimately show ?thesis by simp
qed

lemma rtp_server_init_segment:
  assumes "rtp_server_init rtp_zero len rate base os = Some ((r, c), os')" "0 \<le> r"
  shows "has_segment RTP_SRV_SHM_NAME (rtp_ctl_map c) \<and> gst_up c \<and> rtp_state c = RTP_SERVER_ACTIVE"
proof -
  let ?srv = "rtp_zero\<lparr>rtp_mpx_samplerate := rate, rtp_baseport := base, rtp_buf_len := len, rtp_state := RTP_SERVER_INACTIVE\<rparr>"
  obtain res os1 where shm: "utils_shm_init RTP_SRV_SHM_NAME 296 os = (res, os1)" by fastforce
  obtain m where m: "res = Some m"
    using assms shm by (cases res) (auto simp: rtp_server_init_def dest!: rtp_init_fail_neg)
  have mem: "shm_mem m \<noteq> Mem_Null"
    using assms shm m by (cases "shm_mem m = Mem_Null") (simp_all add: rtp_server_init_def)
  obtain h os2 where acq: "acquire Gst_Object os1 = (h, os2)" by fastforce
  obtain bus os3 where bus: "gst_new Gst_Object os2 = (bus, os3)" by fastforce
  let ?s3 = "?srv\<lparr>rtp_ctl_map := Some m, gst_up := True, rtp_pipeline := h, rtp_msgbus := Some bus\<rparr>"
  obtain r4 s4 os4 where audio: "rtp_init_audio_path ?s3 os3 = ((r4, s4), os4)" by (metis surj_pair)
  obtain r5 s5 os5 where net: "rtp_init_network_path s4 os4 = ((r5, s5), os5)" by (metis surj_pair)
  have "(if h = None then rtp_init_fail (- 2) (?srv\<lparr>rtp_ctl_map := Some m, gst_up := True, rtp_pipeline := h\<rparr>) os2
      else if r4 < 0 then rtp_init_fail (- 3) s4 os4
      else if r5 < 0 then rtp_init_fail (- 4) s5 os5 else rtp_server_init_run s5 os5) = Some ((r, c), os')"
    using assms shm m mem acq bus audio net by (simp add: rtp_server_init_def Let_def cong: if_cong)
  then have run: "rtp_server_init_run s5 os5 = Some ((r, c), os')"
    using assms(2) by (auto split: if_splits dest!: rtp_init_fail_neg)
  have "rtp_core s5 = rtp_core ?s3"
    using path_sameD [OF rtp_init_audio_path_same audio] path_sameD [OF rtp_init_network_path_same net] by simp
  then have "rtp_ctl_map s5 = Some m" "gst_up s5" by (simp_all add: rtp_core_def)
  moreover have "rtp_ctl_map c = rtp_ctl_map s5 \<and> gst_up c = gst_up s5 \<and> rtp_state c = RTP_SERVER_ACTIVE"
    using run assms(2) by (auto simp: rtp_server_init_run_def rtp_init_fail_def Let_def split: prod.splits if_splits)
  ultimately show ?thesis using shm_init_segment [of RTP_SRV_SHM_NAME 296 os m os1] shm m mem by simp
qed

lemma fmmod_init_outputs_segments:
  assumes run: "fmmod_init_outputs eexist fmmod os = Some ((r, c), os')" "0 \<le> r" and zero: "fm_rtpsrv fmmod = rtp_zero"
  shows "has_segments c \<and> fm_active c"
proof -
  obtain r1 enc os1 where enc: "rds_encoder_init (fm_rsmpl fmmod) os = Some ((r1, enc), os1)" "0 \<le> r1"
    using run by (auto simp: fmmod_init_outputs_def Let_def bind_eq_Some_conv dest!: fmmod_init_fail_neg split: if_splits)
  obtain r2 os2 where sock: "fmmod_init_outsock eexist os1 = (r2, os2)" by (metis prod.collapse)
  have r2: "0 \<le> r2" using run enc sock
    by (auto simp: fmmod_init_outputs_def Let_def dest!: fmmod_init_fail_neg split: if_splits)
  obtain r3 srv os3 where srv: "rtp_server_init rtp_zero (fm_num_out_samples fmmod * 4) (uint FMMOD_OUTPUT_SAMPLERATE) 5000 os2 =
      Some ((r3, srv), os3)" "0 \<le> r3"
    using run enc sock r2 zero
    by (auto simp: fmmod_init_outputs_def Let_def bind_eq_Some_conv dest!: fmmod_init_fail_neg split: if_splits)
  let ?f = "fmmod\<lparr>fm_rds_enc := enc, fm_rtpsrv := srv\<rparr>"
  have rest: "fmmod_init_run ?f os3 = Some ((r, c), os')"
    using run enc sock r2 zero srv by (simp add: fmmod_init_outputs_def Let_def)
  obtain r4 f4 os4 where ctl: "fmmod_init_ctl ?f os3 = Some ((r4, f4), os4)" "0 \<le> r4"
    using rest run(2) by (auto simp: fmmod_init_run_def bind_eq_Some_conv dest!: fmmod_init_fail_neg split: if_splits)
  have c: "c = f4\<lparr>fm_active := True\<rparr>"
    using rest run(2) ctl by (auto simp: fmmod_init_run_def Let_def dest!: fmmod_init_fail_neg split: if_splits prod.splits)
  obtain res os5 where shm: "utils_shm_init FMMOD_CTL_SHM_NAME sizeof_fmmod_control os3 = (res, os5)" by (metis prod.collapse)
  obtain m where m: "res = Some m" "shm_mem m \<noteq> Mem_Null" "fm_ctl_map f4 = Some m" "fm_rds_enc f4 = enc" "fm_rtpsrv f4 = srv"
    using ctl shm by (cases res) (auto simp: fmmod_init_ctl_def split: if_splits)
  with shm have "has_segment FMMOD_CTL_SHM_NAME (fm_ctl_map c)" using shm_init_segment c by auto
  with rds_encoder_init_segment [OF enc] rtp_server_init_segment [OF srv] m(4,5) c show ?thesis by (simp add: has_segments_def)
qed

lemma fmmod_init_processing_segments:
  assumes run: "fmmod_init_processing ld dft mt eexist rate fmmod os = Some ((r, c), os')" "0 \<le> r"
    and zero: "fm_rtpsrv fmmod = rtp_zero"
  shows "has_segments c \<and> fm_active c"
proof -
  obtain r0 f0 where osc: "fmmod_init_osc fmmod = (r0, f0)" by (metis prod.collapse)
  obtain s t where f0: "f0 = fmmod\<lparr>fm_sin_osc := s, fm_cos_osc := t\<rparr>" using osc by (rule fmmod_init_osc_keeps)
  obtain r1 rs os1 where rs: "resampler_init mt rate OSC_SAMPLE_RATE FMMOD_OUTPUT_SAMPLERATE os = ((r1, rs), os1)"
    by (metis prod.collapse)
  note start = run(1) [unfolded fmmod_init_processing_def Let_def osc rs prod.case]
  obtain fl os2 where "fmmod_init_outputs eexist (f0\<lparr>fm_rsmpl := rs, fm_flts := fl\<rparr>) os2 = Some ((r, c), os')"
    using start run(2) by (auto simp: bind_eq_Some_conv dest!: fmmod_init_fail_neg split: if_splits)
  from fmmod_init_outputs_segments [OF this run(2)] zero show ?thesis by (simp add: f0)
qed

lemma fmmod_initialize_segments:
  assumes run: "fmmod_initialize ld dft mt eexist jack os = Some ((r, c), os')" "0 \<le> r"
  shows "has_segments c \<and> fm_active c"
proof -
  obtain r1 f1 os1 where con: "fmmod_connect jack (fmmod_zero rds_encoder_zero) os = ((r1, f1), os1)" by (metis prod.collapse)
  define f2 where "f2 = f1\<lparr>fm_num_in_samples := jack_buffer_size jack\<rparr>"
  obtain r3 f3 os3 where buf: "fmmod_init_buffers (jack_sample_rate jack) f2 os1 = ((r3, f3), os3)" by (metis prod.collapse)
  note start = run(1) [unfolded fmmod_initialize_def Let_def con prod.case f2_def [symmetric] buf]
  have pos: "0 \<le> r1" "0 \<le> r3" and rest: "fmmod_init_processing ld dft mt eexist (jack_sample_rate jack) f3 os3 = Some ((r, c), os')"
    using start run(2) by (auto dest!: fmmod_init_fail_neg split: if_splits)
  obtain h l k where f1: "f1 = (fmmod_zero rds_encoder_zero)\<lparr>fm_client := Some h, fm_inL := Some l, fm_inR := Some k\<rparr>"
    using fmmod_connect_ok [OF con pos(1)] by blast
  have "fm_rtpsrv f3 = fm_rtpsrv f2" by (rule fmmod_init_buffers_ok [OF buf pos(2) refl refl]) simp
  then show ?thesis using fmmod_init_processing_segments [OF rest run(2)] by (simp add: f2_def f1 fmmod_zero_def)
qed

subsection \<open>What the end leaves in the name space\<close>

text \<open>The segments of the program.\<close>

definition own_segments :: "string set" where
  "own_segments = {FMMOD_CTL_SHM_NAME, RDS_ENC_SHM_NAME, RTP_SRV_SHM_NAME}"

lemma release_shm [simp]:
  "os_shm (release k h os) = os_shm os" "os_shm (release_opt k h' os) = os_shm os"
  "os_shm (release_all xs os) = os_shm os" "os_shm (raise_sigterm os) = os_shm os"
proof -
  show r: "os_shm (release k h os) = os_shm os" for k h os by (simp add: release_def)
  show o: "os_shm (release_opt k h' os) = os_shm os" for k h' os by (simp add: release_opt_def r split: option.split)
  show "os_shm (release_all xs os) = os_shm os" by (induction xs arbitrary: os) (simp_all add: o)
  show "os_shm (raise_sigterm os) = os_shm os" by (simp add: raise_sigterm_def)
qed

lemma shm_destroy_shm:
  "set (os_shm (utils_shm_destroy sm u os)) \<subseteq> set (os_shm os)"
  "has_segment name sm \<Longrightarrow> set (os_shm (utils_shm_destroy sm True os)) = set (os_shm os) - {name}"
  by (auto simp: utils_shm_destroy_def has_segment_def shm_unlink_def Let_def split: option.splits mem_ptr.splits)

lemma encoder_destroy_shm:
  assumes "has_segment RDS_ENC_SHM_NAME (enc_state_map enc)" "enc_status enc = RDS_ENC_ACTIVE"
  shows "set (os_shm (snd (rds_encoder_destroy enc os))) = set (os_shm os) - {RDS_ENC_SHM_NAME}"
  using shm_destroy_shm(2) [OF assms(1)] assms(2)
  by (simp add: rds_encoder_destroy_def rds_encoder_cleanup_def Let_def utils_shm_destroy_def [of None] split: option.split)

lemma rtp_destroy_shm:
  assumes "has_segment RTP_SRV_SHM_NAME (rtp_ctl_map srv)" "gst_up srv" "rtp_state srv = RTP_SERVER_ACTIVE"
  shows "set (os_shm (snd (rtp_server_destroy srv os))) = set (os_shm os) - {RTP_SRV_SHM_NAME}"
  using shm_destroy_shm(2) [OF assms(1)] assms(2,3)
  by (simp add: rtp_server_destroy_def rtp_server_release_def Let_def)

lemma fmmod_destroy_shm:
  assumes "has_segments fmmod"
  shows "set (os_shm (snd (fmmod_destroy sd fmmod os))) \<inter> own_segments = {}"
    and "\<not> fm_active (fst (fst (fmmod_destroy sd fmmod os)))"
proof -
  have s: "has_segment FMMOD_CTL_SHM_NAME (fm_ctl_map fmmod)" "has_segment RDS_ENC_SHM_NAME (enc_state_map (fm_rds_enc fmmod))"
    "enc_status (fm_rds_enc fmmod) = RDS_ENC_ACTIVE" "has_segment RTP_SRV_SHM_NAME (rtp_ctl_map (fm_rtpsrv fmmod))"
    "gst_up (fm_rtpsrv fmmod)" "rtp_state (fm_rtpsrv fmmod) = RTP_SERVER_ACTIVE"
    using assms by (simp_all add: has_segments_def)
  note d = shm_destroy_shm(2) [OF s(1)] encoder_destroy_shm [OF s(2,3)] rtp_destroy_shm [OF s(4-6)]
  show "set (os_shm (snd (fmmod_destroy sd fmmod os))) \<inter> own_segments = {}"
    by (auto simp: fmmod_destroy_def Let_def case_prod_beta fmmod_free_buffers_def fmmod_destroy_filters_def
        lpf_filter_destroy_def hilbert_transformer_destroy_def resampler_destroy_def d own_segments_def)
  show "\<not> fm_active (fst (fst (fmmod_destroy sd fmmod os)))"
    by (simp add: fmmod_destroy_def Let_def case_prod_beta)
qed

lemma attach_shm: "utils_shm_attach name sz os = (res, os') \<Longrightarrow> set (os_shm os') \<subseteq> set (os_shm os)"
  by (auto simp: shm_defs split: if_splits)

lemma remove_receiver_shm:
  assumes "rtp_server_remove_receiver sink tm addr srv os = Some (r, srv', os')"
  shows "set (os_shm os') \<subseteq> set (os_shm os)"
proof -
  obtain res os1 where a: "utils_shm_attach RTP_SRV_SHM_NAME sizeof_rtp_server_control os = (res, os1)" by (metis prod.collapse)
  have "set (os_shm os') \<subseteq> set (os_shm os1)"
    using assms a shm_destroy_shm(1) [of _ False os1]
    by (auto simp: rtp_server_remove_receiver_def Let_def split: option.splits if_splits)
  with attach_shm [OF a] show ?thesis by blast
qed

lemma add_receiver_shm:
  assumes "rtp_server_add_receiver sink tm addr srv os = Some (r, srv', os')"
  shows "set (os_shm os') \<subseteq> set (os_shm os)"
proof -
  obtain res os1 where a: "utils_shm_attach RTP_SRV_SHM_NAME sizeof_rtp_server_control os = (res, os1)" by (metis prod.collapse)
  have "set (os_shm os') \<subseteq> set (os_shm os1)"
    using assms a shm_destroy_shm(1) [of _ False os1]
    unfolding rtp_server_add_receiver_def Let_def
    by (cases res) (fastforce split: if_splits dest: remove_receiver_shm shm_destroy_shm(1) [THEN subsetD])+
  with attach_shm [OF a] show ?thesis by blast
qed

text \<open>Either the modulator runs and has its segments, or no segment is left.\<close>

definition clean :: "'k daemon \<Rightarrow> bool" where "clean d \<longleftrightarrow> set (os_shm (dm_os d)) \<inter> own_segments = {}"

definition dm_inv :: "'k daemon \<Rightarrow> bool" where
  "dm_inv d \<longleftrightarrow> (if dm_killed d \<or> \<not> fm_active (dm_fmmod d) then clean d else has_segments (dm_fmmod d))"

lemma kill_daemon_clean: "clean (kill_daemon d)" "dm_killed (kill_daemon d)"
  by (auto simp: clean_def kill_daemon_def utils_shm_unlink_all_def shm_unlink_def own_segments_def)

lemma dm_inv_shrink:
  assumes "dm_inv d" "set (os_shm os) \<subseteq> set (os_shm (dm_os d))" "\<not> dm_killed d"
  shows "dm_inv (d\<lparr>dm_net := srv, dm_os := os\<rparr>)"
  using assms by (auto simp: dm_inv_def clean_def split: if_splits)

lemma signal_handler_inv:
  assumes "signal_handler sink tm sig d = Some d'" "dm_inv d" "\<not> dm_killed d"
  shows "dm_inv d'"
proof -
  have "dm_inv (kill_daemon d)" using kill_daemon_clean [of d] by (simp add: dm_inv_def)
  moreover have "dm_inv (d\<lparr>dm_active := False\<rparr>)" using assms(2) by (auto simp: dm_inv_def clean_def split: if_splits)
  ultimately show ?thesis
    using assms by (cases sig) (auto simp: signal_handler_def intro: dm_inv_shrink dest: add_receiver_shm remove_receiver_shm split: if_splits)
qed

lemma dm_step_inv:
  assumes "dm_step sink e d = Some d'" "dm_inv d"
  shows "dm_inv d'"
proof (cases "dm_killed d")
  case False
  show ?thesis
  proof (cases e)
    case (Got_Signal tm sig)
    with assms False signal_handler_inv show ?thesis by (auto simp: dm_step_def)
  next
    case Jack_Ends
    show ?thesis
    proof (cases "fm_active (dm_fmmod d)")
      case True
      then have "has_segments (dm_fmmod d)" using assms(2) False by (simp add: dm_inv_def)
      from fmmod_destroy_shm [OF this, of True "dm_os d"] show ?thesis
        using assms Jack_Ends False True by (auto simp: dm_step_def fmmod_shutdown_def dm_inv_def clean_def split: prod.splits)
    qed (use assms Jack_Ends False in \<open>simp add: dm_step_def\<close>)
  qed
qed (use assms in \<open>simp add: dm_step_def\<close>)

lemma dm_steps_inv: "dm_steps sink es d = Some d' \<Longrightarrow> dm_inv d \<Longrightarrow> dm_inv d'"
  by (induction es arbitrary: d) (auto simp: bind_eq_Some_conv dest: dm_step_inv)

lemma main_end_clean:
  assumes "dm_inv d"
  shows "clean (main_end d)"
proof (cases "dm_killed d \<or> \<not> fm_active (dm_fmmod d)")
  case True
  with assms show ?thesis by (auto simp: main_end_def dm_inv_def)
next
  case False
  then have "has_segments (dm_fmmod d)" using assms by (simp add: dm_inv_def)
  from fmmod_destroy_shm(1) [OF this, of False "dm_os d"] False show ?thesis
    by (auto simp: main_end_def clean_def split: prod.splits)
qed

lemma main_loop_clean:
  "main_loop sink sleeps d = Some (True, d') \<Longrightarrow> dm_inv d \<Longrightarrow> clean d'"
proof (induction sleeps arbitrary: d)
  case Nil
  then show ?case by (auto simp: main_loop.simps main_end_clean split: if_splits)
next
  case (Cons es sleeps)
  then show ?case
    by (subst (asm) (2) main_loop.simps) (auto simp: bind_eq_Some_conv main_end_clean dest: dm_steps_inv split: if_splits)
qed

subsection \<open>A request to stop is obeyed\<close>

definition stop_signal :: "dsignal \<Rightarrow> bool" where "stop_signal sig \<longleftrightarrow> sig \<in> {SIGQUIT, SIGTERM, SIGHUP, SIGINT}"

definition stopping :: "'k daemon \<Rightarrow> bool" where "stopping d \<longleftrightarrow> dm_killed d \<or> \<not> dm_active d"

lemma signal_handler_stops: "signal_handler sink tm sig d = Some d' \<Longrightarrow> stopping d \<or> stop_signal sig \<Longrightarrow> stopping d'"
  by (cases sig) (auto simp: signal_handler_def stopping_def stop_signal_def kill_daemon_def split: if_splits)

lemma dm_step_stops:
  "dm_step sink e d = Some d' \<Longrightarrow> stopping d \<or> (\<exists>tm sig. e = Got_Signal tm sig \<and> stop_signal sig) \<Longrightarrow> stopping d'"
  by (cases e) (auto simp: dm_step_def stopping_def dest: signal_handler_stops [unfolded stopping_def] split: if_splits prod.splits)

lemma dm_steps_stops:
  "dm_steps sink es d = Some d' \<Longrightarrow> stopping d \<or> (\<exists>tm sig. Got_Signal tm sig \<in> set es \<and> stop_signal sig) \<Longrightarrow> stopping d'"
  by (induction es arbitrary: d) (fastforce simp: bind_eq_Some_conv dest: dm_step_stops)+

lemma main_loop_stopping: "stopping d \<Longrightarrow> main_loop sink sleeps d = Some (True, main_end d)"
  by (subst main_loop.simps) (auto simp: stopping_def)

lemma main_loop_ends:
  "main_loop sink sleeps d = Some (ended, d') \<Longrightarrow>
   \<exists>es \<in> set sleeps. \<exists>tm sig. Got_Signal tm sig \<in> set es \<and> stop_signal sig \<Longrightarrow> ended"
proof (induction sleeps arbitrary: d)
  case (Cons es sleeps)
  show ?case
  proof (cases "dm_killed d \<or> \<not> (dm_active d \<and> fm_active (dm_fmmod d))")
    case True
    with Cons.prems(1) show ?thesis by (subst (asm) main_loop.simps) auto
  next
    case False
    with Cons.prems(1) obtain d1 where d1: "dm_steps sink es d = Some d1" "main_loop sink sleeps d1 = Some (ended, d')"
      by (subst (asm) main_loop.simps) (auto simp: bind_eq_Some_conv)
    show ?thesis
    proof (cases "\<exists>tm sig. Got_Signal tm sig \<in> set es \<and> stop_signal sig")
      case True
      then have "stopping d1" using dm_steps_stops [OF d1(1)] by blast
      with d1(2) main_loop_stopping show ?thesis by fastforce
    next
      case False
      with Cons.prems(2) have "\<exists>es \<in> set sleeps. \<exists>tm sig. Got_Signal tm sig \<in> set es \<and> stop_signal sig" by auto
      with Cons.IH d1(2) show ?thesis by blast
    qed
  qed
qed simp



subsection \<open>Adding a receiver from the command line\<close>

lemma attach_works:
  assumes "no_fail os" "name \<in> set (os_shm os)"
  shows "\<exists>m os'. utils_shm_attach name sz os = (Some m, os') \<and> no_fail os'"
  using assms by (simp add: shm_defs no_fail_def)

lemma receivers_shown:
  assumes "published as srv" "net_ok cl as srv"
  shows "rtp_tool_receivers (net_ctl srv) = map inet_ntoa (take 64 as)"
proof -
  let ?c = "net_ctl srv"
  have "num_receivers ?c \<le> length (receivers ?c)" using assms by (simp add: published_def net_ok_def)
  then have "map (\<lambda>i. receivers ?c ! i) [0 ..< num_receivers ?c] = take (num_receivers ?c) (receivers ?c)"
    by (simp add: list_eq_iff_nth_eq)
  then have "rtp_tool_receivers ?c = map inet_ntoa (take (num_receivers ?c) (receivers ?c))"
    unfolding rtp_tool_receivers_def by (metis (no_types, lifting) map_map comp_def map_cong)
  with assms(1) show ?thesis unfolding published_def by metis
qed



end
