(* ===== verification/Rds_Codes.thy ===== *)
theory Rds_Codes
  imports Prelude
begin

text \<open>
  The names of countries, languages and programme types (\<^verbatim>\<open>gui/rds_codes.c\<close>), with the functions that
  search them. A C string is the list of its characters. An index outside of a table is \<open>None\<close>.
\<close>

subsection \<open>The tables\<close>

type_synonym rds_code_map = "int \<times> string"

definition ctry_codes :: "rds_code_map list" where
  "ctry_codes =
     [(0x09E0, ''Albania''), (0x02E0, ''Algeria''), (0x03E0, ''Andorra''), (0x0AE4, ''Armenia''),
      (0x0AE0, ''Austria''), (0x0BE3, ''Azerbaijan''), (0x08E4, ''Azores (Portugal)''), (0x06E0, ''Belgium''),
      (0x0FE3, ''Belarus''), (0x0FE4, ''Bosnia Herzegovina''), (0x08E1, ''Bulgaria''),
      (0x0EE2, ''Canaries (Spain)''), (0x0CE3, ''Croatia''), (0x02E1, ''Cyprus''),
      (0x02E2, ''Czech Republic''), (0x09E1, ''Denmark''), (0x0FE0, ''Egypt''), (0x02E4, ''Estonia''),
      (0x09E1, ''Faroe (Denmark)''), (0x06E1, ''Finland''), (0x0FE1, ''France''), (0x0CE4, ''Georgia''),
      (0x0DE0, ''Germany (East)''), (0x01E0, ''Germany (West)''), (0x0AE1, ''Gibraltar (United Kingdom)''),
      (0x01E1, ''Greece''), (0x0BE0, ''Hungary''), (0x0AE2, ''Iceland''), (0x0BE1, ''Iraq''),
      (0x02E3, ''Ireland''), (0x04E0, ''Israel''), (0x05E0, ''Italy''), (0x05E1, ''Jordan''),
      (0x09E3, ''Latvia''), (0x0AE3, ''Lebanon''), (0x0DE1, ''Libya''), (0x09E2, ''Liechtenstein''),
      (0x0CE2, ''Lithuania''), (0x07E1, ''Luxembourg''), (0x04E3, ''Macedonia''),
      (0x08E4, ''Madeira (Portugal)''), (0x0CE0, ''Malta''), (0x01E4, ''Moldova''), (0x0BE2, ''Monaco''),
      (0x01E3, ''Montenegro''), (0x01E2, ''Morocco''), (0x08E3, ''Netherlands''), (0x0FE2, ''Norway''),
      (0x08E0, ''Palestine''), (0x03E2, ''Poland''), (0x08E4, ''Portugal''), (0x0EE1, ''Romania''),
      (0x07E0, ''Russian Federation''), (0x03E1, ''San Marino''), (0x0DE2, ''Serbia''), (0x05E2, ''Slovakia''),
      (0x09E4, ''Slovenia''), (0x0EE2, ''Spain''), (0x0EE3, ''Sweden''), (0x04E1, ''Switzerland''),
      (0x06E2, ''Syrian Arab Republic''), (0x07E2, ''Tunisia''), (0x03E3, ''Turkey''), (0x06E4, ''Ukraine''),
      (0x0CE1, ''United Kingdom''), (0x04E2, ''Vatican City State''), (0x06D0, ''Angola''),
      (0x09D1, ''Burundi''), (0x0ED0, ''Benin''), (0x0BD0, ''Burkina Faso''), (0x0BD1, ''Botswana''),
      (0x01D0, ''Cameroon''), (0x06D1, ''Cape Verde''), (0x02D0, ''Central African Republic''),
      (0x09D2, ''Chad''), (0x0CD1, ''Comoros''), (0x0BD2, ''Democratic Republic of Congo''),
      (0x0CD0, ''Congo''), (0x0CD2, ''Cote d'Ivoire''), (0x03D0, ''Djibouti''),
      (0x07D0, ''Equatorial Guinea''), (0x0FD2, ''Eritrea''), (0x0ED1, ''Ethiopia''), (0x08D0, ''Gabon''),
      (0x08D1, ''Gambia''), (0x03D1, ''Ghana''), (0x0AD2, ''Guinea-Bissau''), (0x07D0, ''Equatorial Guinea''),
      (0x09D0, ''Republic of Guinea''), (0x06D2, ''Kenya''), (0x02D1, ''Liberia''), (0x06D3, ''Lesotho''),
      (0x0AD3, ''Mauritius''), (0x04D0, ''Madagascar''), (0x0FD0, ''Malawi''), (0x05D0, ''Mali''),
      (0x04D1, ''Mauritania''), (0x03D2, ''Mozambique''), (0x01D1, ''Namibia''), (0x08D2, ''Niger''),
      (0x0FD1, ''Nigeria''), (0x05D3, ''Rwanda''), (0x05D1, ''Sao Tome & Principe''), (0x08D3, ''Seychelles''),
      (0x07D1, ''Senegal''), (0x01D2, ''Sierra Leone''), (0x07D2, ''Somalia''), (0x0AD0, ''South Africa''),
      (0x0CD3, ''Sudan''), (0x05D2, ''Swaziland''), (0x0DD0, ''Togo''), (0x0DD1, ''Tanzania''),
      (0x04D2, ''Uganda''), (0x03D3, ''Western Sahara''), (0x0ED2, ''Zambia''), (0x02D2, ''Zimbabwe''),
      (0x01A2, ''Anguilla''), (0x02A2, ''Antigua and Barbuda''), (0x0AA2, ''Argentina''), (0x03A4, ''Aruba''),
      (0x0FA2, ''Bahamas''), (0x05A2, ''Barbados''), (0x06A2, ''Belize''), (0x0CA2, ''Bermuda''),
      (0x01A3, ''Bolivia''), (0x0BA2, ''Brazil''), (0x0BA1, ''Canada''), (0x0CA1, ''Canada''),
      (0x0DA1, ''Canada''), (0x0EA1, ''Canada''), (0x07A2, ''Cayman Islands''), (0x0CA3, ''Chile''),
      (0x02A3, ''Colombia''), (0x08A2, ''Costa Rica''), (0x09A2, ''Cuba''), (0x0AA3, ''Dominica''),
      (0x0BA3, ''Dominican Republic''), (0x03A2, ''Ecuador''), (0x0CA4, ''El Salvador''),
      (0x04A2, ''Falkland Islands''), (0x05A3, ''French Guiana''), (0x0FA1, ''Greenland''),
      (0x0DA3, ''Grenada''), (0x0EA2, ''Guadeloupe''), (0x01A4, ''Guatemala''), (0x0FA3, ''Guyana''),
      (0x0DA4, ''Haiti''), (0x02A4, ''Honduras''), (0x03A3, ''Jamaica''), (0x04A3, ''Martinique''),
      (0x0BA5, ''Mexico''), (0x0DA5, ''Mexico''), (0x0EA5, ''Mexico''), (0x0FA5, ''Mexico''),
      (0x05A4, ''Montserrat''), (0x0DA2, ''Netherlands Antilles''), (0x07A3, ''Nicaragua''),
      (0x09A3, ''Panama''), (0x06A3, ''Paraguay''), (0x07A4, ''Peru''), (0x0AA4, ''Saint Kitts''),
      (0x0BA4, ''Saint Lucia''), (0x0FA6, ''St Pierre and Miquelon''), (0x0CA5, ''Saint Vincent''),
      (0x08A4, ''Suriname''), (0x06A4, ''Trinidad and Tobago''), (0x0EA3, ''Turks and Caicos Islands''),
      (0x09A4, ''Uruguay''), (0x0EA4, ''Venezuela''), (0x0FA5, ''Virgin Islands (British)''),
      (0x0AF0, ''Afghanistan''), (0x01A0, ''United States of America''),
      (0x02A0, ''United States of America''), (0x03A0, ''United States of America''),
      (0x04A0, ''United States of America''), (0x05A0, ''United States of America''),
      (0x06A0, ''United States of America''), (0x07A0, ''United States of America''),
      (0x08A0, ''United States of America''), (0x09A0, ''United States of America''),
      (0x0AA0, ''United States of America''), (0x0BA0, ''United States of America''),
      (0x0DA0, ''United States of America''), (0x0EA0, ''United States of America''),
      (0x01F0, ''Australia Capital Territory''), (0x02F0, ''New South Wales''), (0x03F0, ''Victoria''),
      (0x04F0, ''Queensland''), (0x05F0, ''South Australia''), (0x06F0, ''Western Australia''),
      (0x07F0, ''Tasmania''), (0x08F0, ''Northern Territory''), (0x03F1, ''Bangladesh''),
      (0x0EF0, ''Bahrain''), (0x0BF1, ''Brunei Darussalam''), (0x02F1, ''Bhutan''), (0x03F2, ''Cambodia''),
      (0x0CF0, ''China''), (0x05F1, ''Fiji''), (0x0FF1, ''Hong Kong''), (0x05F2, ''India''),
      (0x0CF2, ''Indonesia''), (0x08F1, ''Iran''), (0x09F2, ''Japan''), (0x0DE3, ''Kazakhstan''),
      (0x01F1, ''Kiribati''), (0x0EF1, ''Korea (South)''), (0x0DF0, ''Korea (North)''), (0x01F2, ''Kuwait''),
      (0x03E4, ''Kyrghyzstan''), (0x01F3, ''Laos''), (0x06F2, ''Macao''), (0x0FF0, ''Malaysia''),
      (0x0BF2, ''Maldives''), (0x0EF3, ''Micronesia''), (0x0FF3, ''Mongolia''), (0x0BF0, ''Myanmar (Burma)''),
      (0x0EF2, ''Nepal''), (0x07F1, ''Nauru''), (0x09F1, ''New Zealand''), (0x06F1, ''Oman''),
      (0x04F1, ''Pakistan''), (0x08F2, ''Philippines''), (0x09F3, ''Papua New Guinea''), (0x02F2, ''Qatar''),
      (0x09F0, ''Saudi Arabia''), (0x0AF1, ''Soloman Islands''), (0x04F2, ''Samoa''), (0x0AF2, ''Singapore''),
      (0x0CF1, ''Sri Lanka''), (0x0DF1, ''Taiwan''), (0x05E3, ''Tajikistan''), (0x02F3, ''Thailand''),
      (0x03F3, ''Tonga''), (0x0EE4, ''Turkmenistan''), (0x0DF2, ''United Arab Emirates''),
      (0x0BE4, ''Uzbekistan''), (0x07F2, ''Vietnam''), (0x0FF2, ''Vanuatu''), (0x0BF3, ''Yemen'')]"

definition li_codes :: "rds_code_map list" where
  "li_codes =
     [(0x00, ''Unknown/NA''), (0x01, ''Albanian''), (0x02, ''Breton''), (0x03, ''Catalan''),
      (0x04, ''Croatian''), (0x05, ''Welsh''), (0x06, ''Czech''), (0x07, ''Danish''), (0x08, ''German''),
      (0x09, ''English''), (0x0A, ''Spanish''), (0x0B, ''Esperando''), (0x0C, ''Estonian''),
      (0x0D, ''Basque''), (0x0E, ''Faroese''), (0x0F, ''French''), (0x10, ''Frisian''), (0x11, ''Irish''),
      (0x12, ''Gaelic''), (0x13, ''Galician''), (0x14, ''Icelandic''), (0x15, ''Italian''),
      (0x16, ''Lappish''), (0x17, ''Latin''), (0x18, ''Lativian''), (0x19, ''Lusembourgian''),
      (0x1A, ''Lithuanian''), (0x1B, ''Hungarian''), (0x1C, ''Malteze''), (0x1D, ''Dutch''),
      (0x1E, ''Norwegian''), (0x1F, ''Occitan''), (0x20, ''Polish''), (0x21, ''Portuguese''),
      (0x22, ''Romanian''), (0x23, ''Romansh''), (0x24, ''Serbian''), (0x25, ''Slovak''), (0x26, ''Slovene''),
      (0x27, ''Finnish''), (0x28, ''Swedish''), (0x29, ''Turkish''), (0x2A, ''Flemish''), (0x2B, ''Walloon''),
      (0x7F, ''Amharic''), (0x7E, ''Arabic''), (0x7D, ''Armenian''), (0x7C, ''Assamese''),
      (0x7B, ''Azerbijani''), (0x7A, ''Bambora''), (0x79, ''Belorussian''), (0x78, ''Bengali''),
      (0x77, ''Bulgarian''), (0x76, ''Burmese''), (0x75, ''Chinese''), (0x74, ''Churash''), (0x73, ''Dari''),
      (0x72, ''Funali''), (0x71, ''Georgian''), (0x70, ''Greek''), (0x6F, ''Gujurati''), (0x6E, ''Gurani''),
      (0x6D, ''Hausa''), (0x6C, ''Hebrew''), (0x6B, ''Hindi''), (0x6A, ''Indonesian''), (0x69, ''Japanese''),
      (0x68, ''Kannada''), (0x67, ''Kazakh''), (0x66, ''Khmer''), (0x65, ''Korean''), (0x64, ''Laotian''),
      (0x63, ''Macedonian''), (0x62, ''Malagasay''), (0x61, ''Malaysian''), (0x60, ''Moldavian''),
      (0x5F, ''Marathi''), (0x5E, ''Ndebele''), (0x5D, ''Nepali''), (0x5C, ''Oriya''), (0x5B, ''Papamiento''),
      (0x5A, ''Persian''), (0x59, ''Punjabi''), (0x58, ''Pushtu''), (0x57, ''Quechua''), (0x56, ''Russian''),
      (0x55, ''Ruthenian''), (0x54, ''Serbo-Croat''), (0x53, ''Shoma''), (0x52, ''Sinhalese''),
      (0x51, ''Somali''), (0x50, ''Sranan Tongo''), (0x4F, ''Swahili''), (0x4E, ''Tadzhik''),
      (0x4D, ''Tamil''), (0x4C, ''Tatar''), (0x4B, ''Telugu''), (0x4A, ''Thai''), (0x49, ''Ukranian''),
      (0x48, ''Urdu''), (0x47, ''Uzbek''), (0x46, ''Vietnamese''), (0x45, ''Zulu''),
      (0x40, ''Background sound / Clean feed'')]"

definition pty_codes :: "string list" where
  "pty_codes =
     [''None'', ''News'', ''Current Afairs'', ''Information'', ''Sport'', ''Education'', ''Drama'',
      ''Culture'', ''Science'', ''Varied Speech'', ''Pop Music'', ''Rock Music'', ''Easy Listening'',
      ''Light Classics'', ''Serious Classics'', ''Other Music'', ''Weather'', ''Finance'',
      ''Children's Progs'', ''Social Affairs'', ''Religion'', ''Phone In'', ''Travel & Touring'',
      ''Leisure & Hobby'', ''Jazz Music'', ''Country Music'', ''National Music'', ''Oldies'', ''Folk Music'',
      ''Documentary'', ''Alarm Test'', ''Alarm !'']"

subsection \<open>The functions\<close>

text \<open>\<^verbatim>\<open>strncmp(a, b, n) == 0\<close>.\<close>

definition strn_eq :: "nat \<Rightarrow> string \<Rightarrow> string \<Rightarrow> bool" where "strn_eq n a b \<longleftrightarrow> take n a = take n b"

text \<open>The search loops: the first index from \<open>i\<close> on whose entry satisfies the test, or \<open>- 1\<close>.\<close>

fun find_idx :: "('a \<Rightarrow> bool) \<Rightarrow> 'a list \<Rightarrow> int \<Rightarrow> int" where
  "find_idx P [] i = - 1"
| "find_idx P (x # xs) i = (if P x then i else find_idx P xs (i + 1))"

definition nth_int :: "'a list \<Rightarrow> int \<Rightarrow> 'a option" where
  "nth_int xs i = (if 0 \<le> i \<and> i < int (length xs) then Some (xs ! nat i) else None)"

definition rds_codes_get_ctry_idx :: "string \<Rightarrow> int" where
  "rds_codes_get_ctry_idx name = find_idx (\<lambda>c. strn_eq 32 name (snd c)) ctry_codes 0"

definition rds_codes_get_ctry_name :: "int \<Rightarrow> string option" where
  "rds_codes_get_ctry_name idx =
     (if idx \<ge> int (length ctry_codes) then Some [] else map_option snd (nth_int ctry_codes idx))"

definition rds_codes_get_ctry_code_by_ctry_idx :: "int \<Rightarrow> int option" where
  "rds_codes_get_ctry_code_by_ctry_idx idx =
     (if idx \<ge> int (length ctry_codes) then Some (- 1)
      else if idx < int (length ctry_codes) - 2 \<and> rds_codes_get_ctry_name idx = None then None
      else if idx < int (length ctry_codes) - 2 \<and> rds_codes_get_ctry_name idx = rds_codes_get_ctry_name (idx + 1) then Some (- 2)
      else map_option (\<lambda>c. drop_bit 4 (fst c AND 0x0F00)) (nth_int ctry_codes idx))"

definition rds_codes_get_ecc_by_ctry_idx :: "int \<Rightarrow> int option" where
  "rds_codes_get_ecc_by_ctry_idx idx =
     (if idx \<ge> int (length ctry_codes) then Some (- 1)
      else map_option (\<lambda>c. fst c AND 0x00FF) (nth_int ctry_codes idx))"

definition rds_codes_get_ctry_idx_from_ctry_codes :: "uint8 \<Rightarrow> uint8 \<Rightarrow> int" where
  "rds_codes_get_ctry_idx_from_ctry_codes ctry_code ecc =
     (let ctry_id = push_bit 8 (uint ctry_code AND 0xF) OR uint ecc
      in find_idx (\<lambda>c. fst c = ctry_id) ctry_codes 0)"

definition rds_codes_get_lang_idx :: "string \<Rightarrow> int" where
  "rds_codes_get_lang_idx lang = find_idx (\<lambda>c. strn_eq 32 lang (snd c)) li_codes 0"

definition rds_codes_get_lang_name :: "uint8 \<Rightarrow> string option" where
  "rds_codes_get_lang_name idx =
     (if uint idx \<ge> int (length li_codes) then Some [] else map_option snd (nth_int li_codes (uint idx)))"

definition rds_codes_get_lic_by_lang_idx :: "uint8 \<Rightarrow> int option" where
  "rds_codes_get_lic_by_lang_idx idx =
     (if uint idx \<ge> int (length li_codes) then Some (- 1) else map_option fst (nth_int li_codes (uint idx)))"

definition rds_codes_get_lang_idx_from_lic :: "uint8 \<Rightarrow> int" where
  "rds_codes_get_lang_idx_from_lic lic = find_idx (\<lambda>c. fst c = uint lic) li_codes 0"

definition rds_codes_get_pty_name :: "uint8 \<Rightarrow> string option" where
  "rds_codes_get_pty_name pty =
     (if uint pty \<ge> int (length pty_codes) then Some [] else nth_int pty_codes (uint pty))"

subsection \<open>Searching\<close>

lemma find_idx_bounds:
  "find_idx P xs i = - 1 \<or> i \<le> find_idx P xs i \<and> find_idx P xs i < i + int (length xs)"
  by (induction xs arbitrary: i) (force split: if_splits)+

lemma find_idx_none: "0 \<le> i \<Longrightarrow> find_idx P xs i = - 1 \<longleftrightarrow> (\<forall>x \<in> set xs. \<not> P x)"
  by (induction xs arbitrary: i) auto

lemma find_idx_found:
  "0 \<le> i \<Longrightarrow> find_idx P xs i \<noteq> - 1 \<Longrightarrow> P (xs ! nat (find_idx P xs i - i))"
proof (induction xs arbitrary: i)
  case (Cons x xs)
  show ?case
  proof (cases "P x")
    case False
    with Cons.prems have "find_idx P xs (i + 1) \<noteq> - 1" by simp
    with Cons.IH [of "i + 1"] Cons.prems(1) have "P (xs ! nat (find_idx P xs (i + 1) - (i + 1)))" by simp
    moreover have "i + 1 \<le> find_idx P xs (i + 1)"
      using find_idx_bounds [of P xs "i + 1"] \<open>find_idx P xs (i + 1) \<noteq> - 1\<close> by simp
    then have "nat (find_idx P xs (i + 1) - i) = Suc (nat (find_idx P xs (i + 1) - (i + 1)))" by simp
    ultimately show ?thesis using False by simp
  qed simp
qed simp

lemma find_idx_first:
  assumes "k < length xs" "P (xs ! k)" "\<And>j. j < k \<Longrightarrow> \<not> P (xs ! j)"
  shows "find_idx P xs i = i + int k"
  using assms
proof (induction xs arbitrary: i k)
  case (Cons x xs)
  show ?case
  proof (cases k)
    case (Suc k')
    have "\<not> P x" using Cons.prems(3) [of 0] Suc by simp
    moreover have "find_idx P xs (i + 1) = i + 1 + int k'"
    proof (rule Cons.IH)
      show "\<not> P (xs ! j)" if "j < k'" for j using Cons.prems(3) [of "Suc j"] Suc that by simp
    qed (use Cons.prems Suc in simp_all)
    ultimately show ?thesis using Suc by simp
  qed (use Cons.prems in simp)
qed simp

text \<open>A search for a key that occurs once finds its position.\<close>

lemma find_idx_distinct:
  assumes "distinct (map f xs)" "k < length xs"
  shows "find_idx (\<lambda>x. f x = f (xs ! k)) xs 0 = int k"
proof -
  have "f (xs ! j) \<noteq> f (xs ! k)" if "j < k" for j
    using assms that nth_eq_iff_index_eq [OF assms(1), of j k] by simp
  then show ?thesis using find_idx_first [of k xs "\<lambda>x. f x = f (xs ! k)" 0] assms(2) by simp
qed

subsection \<open>The entries of the tables\<close>

definition code_entry :: "int \<Rightarrow> rds_code_map \<Rightarrow> bool" where
  "code_entry b c \<longleftrightarrow> 0 \<le> fst c \<and> fst c < b \<and> snd c \<noteq> [] \<and> length (snd c) < 32"

lemma length_ctry_codes: "length ctry_codes = 240"
  by (simp add: ctry_codes_def)

lemma length_li_codes: "length li_codes = 104"
  by (simp add: li_codes_def)

lemma length_pty_codes: "length pty_codes = 32"
  by (simp add: pty_codes_def)

lemma ctry_codes_entries: "list_all (code_entry 0x1000) ctry_codes"
  by (simp add: ctry_codes_def code_entry_def)

lemma ctry_codes_nonzero: "list_all (\<lambda>c. fst c \<noteq> 0) ctry_codes"
  by (simp add: ctry_codes_def)

lemma li_codes_entries: "list_all (code_entry 0x100) li_codes"
  by (simp add: li_codes_def code_entry_def)

lemma pty_codes_entries: "list_all (\<lambda>n. n \<noteq> []) pty_codes"
  by (simp add: pty_codes_def)

lemma li_codes_distinct: "distinct (map fst li_codes)" "distinct (map snd li_codes)"
  by code_simp+

lemma nth_int_nth: "k < length xs \<Longrightarrow> nth_int xs (int k) = Some (xs ! k)"
  by (simp add: nth_int_def)

lemma li_codes_nth:
  assumes "k < length li_codes"
  shows "rds_codes_get_lang_name (of_nat k) = Some (snd (li_codes ! k))"
    and "rds_codes_get_lic_by_lang_idx (of_nat k) = Some (fst (li_codes ! k))"
    and "0 \<le> fst (li_codes ! k)" "fst (li_codes ! k) < 256"
proof -
  have "uint (of_nat k :: uint8) = int k"
    using assms by (simp add: length_li_codes unsigned_of_nat take_bit_nat_eq_self)
  with assms show "rds_codes_get_lang_name (of_nat k) = Some (snd (li_codes ! k))"
    and "rds_codes_get_lic_by_lang_idx (of_nat k) = Some (fst (li_codes ! k))"
    by (simp_all add: rds_codes_get_lang_name_def rds_codes_get_lic_by_lang_idx_def nth_int_nth)
  show "0 \<le> fst (li_codes ! k)" "fst (li_codes ! k) < 256"
    using li_codes_entries assms by (simp_all add: list_all_length code_entry_def)
qed

text \<open>A language is found by its code.\<close>

lemma lang_idx_from_lic:
  assumes "k < length li_codes"
  shows "rds_codes_get_lang_idx_from_lic (word_of_int (fst (li_codes ! k))) = int k"
proof -
  have "uint (word_of_int (fst (li_codes ! k)) :: uint8) = fst (li_codes ! k)"
    using li_codes_nth(3,4) [OF assms] by (simp add: unsigned_of_int take_bit_int_eq_self)
  then show ?thesis
    using find_idx_distinct [OF li_codes_distinct(1) assms] by (simp add: rds_codes_get_lang_idx_from_lic_def)
qed

text \<open>A search by country code and extended country code.\<close>

definition ctry_id :: "uint8 \<Rightarrow> uint8 \<Rightarrow> int" where
  "ctry_id cc ecc = push_bit 8 (uint cc AND 0xF) OR uint ecc"

lemma ctry_idx_none:
  "rds_codes_get_ctry_idx_from_ctry_codes cc ecc = - 1 \<longleftrightarrow> ctry_id cc ecc \<notin> fst ` set ctry_codes"
  unfolding rds_codes_get_ctry_idx_from_ctry_codes_def Let_def ctry_id_def
  by (subst find_idx_none) (auto simp: image_iff)

lemma ctry_idx_found:
  assumes "rds_codes_get_ctry_idx_from_ctry_codes cc ecc = i" "i \<noteq> - 1"
  shows "0 \<le> i \<and> i < int (length ctry_codes) \<and> fst (ctry_codes ! nat i) = ctry_id cc ecc"
proof -
  let ?P = "\<lambda>c. fst c = ctry_id cc ecc"
  have i: "i = find_idx ?P ctry_codes 0"
    using assms(1) by (simp add: rds_codes_get_ctry_idx_from_ctry_codes_def ctry_id_def)
  then show ?thesis
    using find_idx_bounds [of ?P ctry_codes 0] find_idx_found [of 0 ?P ctry_codes] assms(2) by simp
qed

text \<open>The name of a country that is not in the table is read before its first entry.\<close>

lemma ctry_name_of_search:
  "(case rds_codes_get_ctry_name (rds_codes_get_ctry_idx_from_ctry_codes cc ecc) of
      None \<Rightarrow> ctry_id cc ecc \<notin> fst ` set ctry_codes
    | Some name \<Rightarrow> (ctry_id cc ecc, name) \<in> set ctry_codes)"
proof (cases "rds_codes_get_ctry_idx_from_ctry_codes cc ecc = - 1")
  case True
  then show ?thesis
    using ctry_idx_none [of cc ecc] by (simp add: rds_codes_get_ctry_name_def nth_int_def)
next
  case False
  let ?i = "rds_codes_get_ctry_idx_from_ctry_codes cc ecc"
  from ctry_idx_found [OF refl False]
  have i: "0 \<le> ?i" "?i < int (length ctry_codes)" "fst (ctry_codes ! nat ?i) = ctry_id cc ecc" by auto
  then have "(ctry_id cc ecc, snd (ctry_codes ! nat ?i)) \<in> set ctry_codes"
    by (metis nat_less_iff nth_mem prod.collapse)
  with i show ?thesis by (simp add: rds_codes_get_ctry_name_def nth_int_def)
qed

end
