(* ===== verification/Gui_Rds.thy ===== *)
theory Gui_Rds
  imports Rds_Codes Rds_Tool "HOL-Library.Monad_Syntax"
begin

text \<open>
  The entries for the country and the language in the RDS panel of the control program, and the
  button that sets a field (\<^verbatim>\<open>gui/jmrg_acentry.c\<close>, \<^verbatim>\<open>jmrg_set_button.c\<close>). What GTK knows of a
  widget (whether the pointer is a widget of the expected type, visible, focused, and its contents) is
  an argument; a polling function returns whether it wants to run again, and the new contents.
\<close>

subsection \<open>Widgets\<close>

record gtk_view =
  gv_valid :: bool
  gv_visible :: bool
  gv_focus :: bool

datatype rds_field =
    RDS_FIELD_PI | RDS_FIELD_ECC | RDS_FIELD_LIC | RDS_FIELD_PTY | RDS_FIELD_TA | RDS_FIELD_TP
  | RDS_FIELD_MS | RDS_FIELD_DI | RDS_FIELD_PS | RDS_FIELD_PTYN | RDS_FIELD_RT

text \<open>The button: the contents of the entry, the state of the check box beside it and the index of the
  completion that was last selected are read when it is clicked.\<close>

definition jmrg_set_button_clicked ::
  "char_abi \<Rightarrow> rds_field \<Rightarrow> int \<Rightarrow> bool \<Rightarrow> cstring \<times> st_ptr \<Rightarrow> (cstring \<times> st_ptr) option" where
  "jmrg_set_button_clicked abi type acentry_match_idx flag s =
     (case s of (txt, st) \<Rightarrow>
      (case type of
         RDS_FIELD_PI \<Rightarrow> Some ([0], snd (rds_set_pi st (word_of_int (strtol txt 16 AND 0xFFFF))))
       | RDS_FIELD_PS \<Rightarrow> Some ([0], snd (rds_set_ps abi st (Some txt)))
       | RDS_FIELD_RT \<Rightarrow> Some ([0], snd (rds_set_rt abi st (Some txt) (if flag then 1 else 0)))
       | RDS_FIELD_PTYN \<Rightarrow> Some ([0], snd (rds_set_ptyn abi st (Some txt)))
       | RDS_FIELD_ECC \<Rightarrow>
           if acentry_match_idx < 0 then Some (txt, st)
           else do {
             tmp \<leftarrow> rds_codes_get_ecc_by_ctry_idx acentry_match_idx;
             if tmp < 0 then Some (txt, st) else Some (txt, snd (rds_set_ecc st (word_of_int tmp)))
           }
       | RDS_FIELD_LIC \<Rightarrow>
           if acentry_match_idx < 0 then Some (txt, st)
           else do {
             tmp \<leftarrow> rds_codes_get_lic_by_lang_idx (word_of_int acentry_match_idx);
             if tmp < 0 then Some (txt, st) else Some (txt, snd (rds_set_lic st (word_of_int tmp)))
           }
       | _ \<Rightarrow> Some (txt, st)))"

text \<open>The entry with completion for the country and the language. \<open>None\<close>: a read outside of a table.\<close>

definition jmrg_acentry_poll ::
  "gtk_view \<Rightarrow> rds_field \<Rightarrow> st_ptr \<Rightarrow> string \<Rightarrow> (bool \<times> string) option" where
  "jmrg_acentry_poll v type st txt =
     (if \<not> gv_valid v then Some (False, txt)
      else if \<not> gv_visible v then Some (True, txt)
      else if gv_focus v then Some (True, txt)
      else
        (case type of
           RDS_FIELD_ECC \<Rightarrow> do {
             let tmp = rds_get_ecc st;
             let tmp2 = drop_bit 12 (rds_get_pi st);
             let idx = rds_codes_get_ctry_idx_from_ctry_codes (ucast tmp2) tmp;
             name \<leftarrow> rds_codes_get_ctry_name idx;
             Some (True, name)
           }
         | RDS_FIELD_LIC \<Rightarrow> do {
             let tmp = rds_get_lic st;
             let idx = rds_codes_get_lang_idx_from_lic (ucast tmp);
             name \<leftarrow> rds_codes_get_lang_name (word_of_int idx);
             Some (True, name)
           }
         | _ \<Rightarrow> Some (False, txt)))"

text \<open>The completions of the entry: pairs of a name and its index.\<close>

partial_function (option) skip_same :: "string \<Rightarrow> int \<Rightarrow> int option" where
  "skip_same prev_name i = do {
     name \<leftarrow> rds_codes_get_ctry_name i;
     if prev_name = name then skip_same prev_name (i + 1) else Some i
   }"

partial_function (option) acentry_countries :: "int \<Rightarrow> (string \<times> int) list option" where
  "acentry_countries i = do {
     name \<leftarrow> rds_codes_get_ctry_name i;
     if name = [] then Some []
     else do {
       j \<leftarrow> skip_same name i;
       rest \<leftarrow> acentry_countries j;
       Some ((name, i) # rest)
     }
   }"

partial_function (option) acentry_languages :: "int \<Rightarrow> (string \<times> int) list option" where
  "acentry_languages i = do {
     name \<leftarrow> rds_codes_get_lang_name (word_of_int i);
     if name = [] then Some []
     else do {
       rest \<leftarrow> acentry_languages (i + 1);
       Some ((name, i) # rest)
     }
   }"

subsection \<open>Completions\<close>

text \<open>The first element of every run of equal elements, with its position.\<close>

function runs :: "'a list \<Rightarrow> int \<Rightarrow> ('a \<times> int) list" where
  "runs [] i = []"
| "runs (x # xs) i = (x, i) # runs (dropWhile ((=) x) xs) (i + 1 + int (length (takeWhile ((=) x) xs)))"
  by pat_completeness auto
termination
  by (relation "measure (\<lambda>(xs, i). length xs)") (auto simp: less_Suc_eq_le length_dropWhile_le)

lemma runs_fst: "map fst (runs xs i) = remdups_adj xs"
proof (induction xs i rule: runs.induct)
  case (2 x xs i)
  moreover have "(\<lambda>y. y = x) = (=) x" by auto
  ultimately show ?case by (simp add: remdups_adj_Cons')
qed simp

lemma runs_nth:
  "(n, k) \<in> set (runs xs i) \<Longrightarrow> i \<le> k \<and> k < i + int (length xs) \<and> xs ! nat (k - i) = n"
proof (induction xs i rule: runs.induct)
  case (2 x xs i)
  let ?t = "length (takeWhile ((=) x) xs)"
  have l: "length xs = ?t + length (dropWhile ((=) x) xs)"
    by (metis length_append takeWhile_dropWhile_id)
  from "2.prems" consider "n = x" "k = i" | "(n, k) \<in> set (runs (dropWhile ((=) x) xs) (i + 1 + int ?t))" by auto
  then show ?case
  proof cases
    case 2
    from "2.IH" [OF this] have k: "i + 1 + int ?t \<le> k" "k < i + 1 + int ?t + int (length (dropWhile ((=) x) xs))"
      "dropWhile ((=) x) xs ! nat (k - (i + 1 + int ?t)) = n" by auto
    have "xs ! (?t + nat (k - (i + 1 + int ?t))) = n"
      using k(3) by (metis nth_append_length_plus takeWhile_dropWhile_id)
    moreover have "nat (k - i) = Suc (?t + nat (k - (i + 1 + int ?t)))" using k(1) by simp
    ultimately show ?thesis using k(1,2) l by simp
  qed simp
qed simp

abbreviation ctry_names :: "string list" where "ctry_names \<equiv> map snd ctry_codes"

lemma ctry_name_nat: "rds_codes_get_ctry_name (int n) = Some (if n < length ctry_names then ctry_names ! n else [])"
  by (simp add: rds_codes_get_ctry_name_def nth_int_def)

lemma ctry_name_not_Nil: "n < length ctry_names \<Longrightarrow> ctry_names ! n \<noteq> []"
  using ctry_codes_entries by (simp add: list_all_length code_entry_def)

lemma skip_same_eq:
  assumes "name \<noteq> []"
  shows "skip_same name (int n) = Some (int n + int (length (takeWhile ((=) name) (drop n ctry_names))))"
proof (induction "length ctry_names - n" arbitrary: n)
  case 0
  then show ?case using assms by (simp add: skip_same.simps [of name] ctry_name_nat)
next
  case (Suc k)
  then have n: "n < length ctry_names" by simp
  have "k = length ctry_names - Suc n" using Suc.hyps(2) by simp
  from Suc.hyps(1) [OF this] have IH: "skip_same name (int n + 1) =
      Some (int n + 1 + int (length (takeWhile ((=) name) (drop (Suc n) ctry_names))))"
    by (simp add: add.commute)
  have "drop n ctry_names = ctry_names ! n # drop (Suc n) ctry_names" using n by (rule Cons_nth_drop_Suc [symmetric])
  with n IH show ?case by (simp add: skip_same.simps [of name "int n"] ctry_name_nat del: drop_map) (metis add.assoc)
qed

lemma acentry_countries_eq: "acentry_countries (int n) = Some (runs (drop n ctry_names) (int n))"
proof (induction "length ctry_names - n" arbitrary: n rule: less_induct)
  case less
  show ?case
  proof (cases "n < length ctry_names")
    case False
    then show ?thesis by (simp add: acentry_countries.simps [of "int n"] ctry_name_nat)
  next
    case True
    let ?x = "ctry_names ! n" and ?xs = "drop (Suc n) ctry_names"
    let ?t = "length (takeWhile ((=) ?x) ?xs)"
    have d: "drop n ctry_names = ?x # ?xs" using True by (rule Cons_nth_drop_Suc [symmetric])
    have "skip_same ?x (int n) = Some (int (Suc n + ?t))"
      using skip_same_eq [OF ctry_name_not_Nil [OF True], of n] d by simp
    moreover have "acentry_countries (int (Suc n + ?t)) = Some (runs (drop (Suc n + ?t) ctry_names) (int (Suc n + ?t)))"
      by (rule less) (use True in simp)
    moreover have "drop (Suc n + ?t) ctry_names = dropWhile ((=) ?x) ?xs"
      by (metis add.commute drop_drop dropWhile_eq_drop)
    ultimately show ?thesis
      using True ctry_name_not_Nil [OF True]
      by (simp add: acentry_countries.simps [of "int n"] ctry_name_nat d algebra_simps del: drop_map)
  qed
qed

text \<open>
  The completions for the country: every country of the table, with a position where the table has
  it, and no name twice in a row. A country whose entries are not neighbours is offered twice.
\<close>

theorem country_completions:
  "\<exists>cs. acentry_countries 0 = Some cs \<and> distinct_adj (map fst cs) \<and> fst ` set cs = snd ` set ctry_codes \<and>
     list_all (\<lambda>(name, i). rds_codes_get_ctry_name i = Some name) cs"
proof -
  let ?cs = "runs ctry_names 0"
  have "acentry_countries 0 = Some ?cs" using acentry_countries_eq [of 0] by simp
  moreover have "distinct_adj (map fst ?cs)" unfolding runs_fst by simp
  moreover have "fst ` set ?cs = snd ` set ctry_codes"
    by (metis list.set_map remdups_adj_set runs_fst)
  moreover have "rds_codes_get_ctry_name i = Some n" if "(n, i) \<in> set ?cs" for n i
    using runs_nth [OF that] by (auto simp: rds_codes_get_ctry_name_def nth_int_def)
  ultimately show ?thesis by (auto simp: list_all_iff)
qed

lemma equatorial_guinea_twice:
  "map_option (filter (\<lambda>c. fst c = ''Equatorial Guinea'')) (acentry_countries 0) =
     Some [(''Equatorial Guinea'', 80), (''Equatorial Guinea'', 87)]"
proof -
  have "filter (\<lambda>c. fst c = ''Equatorial Guinea'') (runs ctry_names 0) =
      [(''Equatorial Guinea'', 80), (''Equatorial Guinea'', 87)]"
    by code_simp
  then show ?thesis using acentry_countries_eq [of 0] by simp
qed

subsection \<open>Country and language\<close>

definition shown :: "gtk_view \<Rightarrow> bool" where
  "shown v \<longleftrightarrow> gv_valid v \<and> gv_visible v \<and> \<not> gv_focus v"

text \<open>A language identification code of eight bits passes through the field of twelve bits.\<close>

lemma lic_field_8:
  fixes w :: uint8
  shows "(ucast (ucast (ucast w AND (0xFFF :: uint16)) :: 12 word) :: uint8) = w"
proof -
  have "(0xFFF :: uint16) = mask 12" by (simp add: mask_numeral)
  then have "bit (0xFFF :: uint16) n" if "n < 8" for n using that by (simp only: bit_mask_iff) simp
  then show ?thesis by (auto intro!: bit_word_eqI simp: bit_simps)
qed

lemma rds_set_lic_8:
  fixes w :: uint8
  shows "\<exists>s'. rds_set_lic (Some s) (ucast w) = (0, Some s') \<and> ucast (rds_get_lic (Some s')) = w"
proof -
  have "ucast (ucast v :: uint16) = (ucast v :: uint8)" for v :: "12 word"
    by (rule bit_word_eqI) (auto simp: bit_simps)
  then show ?thesis by (simp add: rds_set_lic_def rds_get_lic_def Let_def lic_field_8)
qed

text \<open>
  CN: a language that is chosen from the completions and set is the language that the entry shows
  afterwards.
\<close>

theorem gui_language_roundtrip:
  assumes "k < length li_codes" "shown v"
  shows "\<exists>s'. jmrg_set_button_clicked abi RDS_FIELD_LIC (int k) flag (txt, Some s) = Some (txt, Some s') \<and>
    jmrg_acentry_poll v RDS_FIELD_LIC (Some s') old = Some (True, snd (li_codes ! k))"
proof -
  let ?w = "word_of_int (fst (li_codes ! k)) :: uint8"
  note k = li_codes_nth [OF assms(1)]
  have "uint ?w = fst (li_codes ! k)" using k(3,4) by (simp add: unsigned_of_int take_bit_int_eq_self)
  then have w: "word_of_int (fst (li_codes ! k)) = (ucast ?w :: uint16)" by (simp only: ucast_eq)
  obtain s' where s': "rds_set_lic (Some s) (ucast ?w) = (0, Some s')" "ucast (rds_get_lic (Some s')) = ?w"
    using rds_set_lic_8 by blast
  have "jmrg_acentry_poll v RDS_FIELD_LIC (Some s') old = Some (True, snd (li_codes ! k))"
    using assms(2) k(1) s'(2) lang_idx_from_lic [OF assms(1)]
    by (simp add: jmrg_acentry_poll_def shown_def)
  moreover have "jmrg_set_button_clicked abi RDS_FIELD_LIC (int k) flag (txt, Some s) = Some (txt, Some s')"
    using k(2,3) s'(1) w by (simp add: jmrg_set_button_clicked_def)
  ultimately show ?thesis by blast
qed

definition example_view :: gtk_view where
  "example_view = \<lparr>gv_valid = True, gv_visible = True, gv_focus = False\<rparr>"

lemma shown_example: "shown example_view"
  by (simp add: shown_def example_view_def)

theorem gui_language_roundtrip_witness:
  "\<exists>s'. jmrg_set_button_clicked Signed_Char RDS_FIELD_LIC 1 False ([0], Some rds_state_zero) = Some ([0], Some s') \<and>
    jmrg_acentry_poll example_view RDS_FIELD_LIC (Some s') [] = Some (True, ''Albanian'')"
proof -
  have "1 < length li_codes" "snd (li_codes ! 1) = ''Albanian''" by (simp_all add: li_codes_def)
  with gui_language_roundtrip [OF this(1) shown_example, of Signed_Char False "[0]" rds_state_zero "[]"]
  show ?thesis by simp
qed

text \<open>The country that the encoder's programme identification and extended country code stand for.\<close>

definition st_ctry :: "rds_encoder_state \<Rightarrow> int" where
  "st_ctry s = ctry_id (ucast (drop_bit 12 (st_pi s))) (st_ecc s)"

lemma acentry_country:
  assumes "shown v"
  shows "case jmrg_acentry_poll v RDS_FIELD_ECC (Some s) old of
      None \<Rightarrow> st_ctry s \<notin> fst ` set ctry_codes
    | Some r \<Rightarrow> fst r \<and> (st_ctry s, snd r) \<in> set ctry_codes"
  using assms ctry_name_of_search [of "ucast (drop_bit 12 (st_pi s))" "st_ecc s"]
  by (auto simp: jmrg_acentry_poll_def shown_def st_ctry_def rds_get_ecc_def rds_get_pi_def split: option.splits)

text \<open>
  CN: polling the entry for the country is free of reads outside of the table exactly if the table
  has a country with the code that the encoder transmits, and then it shows such a country.
\<close>

theorem gui_country_safe_iff:
  assumes "shown v"
  shows "(st_ctry s \<in> fst ` set ctry_codes \<longleftrightarrow>
    (\<exists>name. jmrg_acentry_poll v RDS_FIELD_ECC (Some s) old = Some (True, name) \<and>
      (st_ctry s, name) \<in> set ctry_codes)) \<and>
    (st_ctry s \<notin> fst ` set ctry_codes \<longleftrightarrow> jmrg_acentry_poll v RDS_FIELD_ECC (Some s) old = None)"
proof (cases "jmrg_acentry_poll v RDS_FIELD_ECC (Some s) old")
  case None
  then show ?thesis using acentry_country [OF assms, of s old] by simp
next
  case (Some r)
  then have "fst r" "(st_ctry s, snd r) \<in> set ctry_codes" using acentry_country [OF assms, of s old] by auto
  then have "st_ctry s \<in> fst ` set ctry_codes" "r = (True, snd r)" by (force, auto simp: prod_eq_iff)
  with Some \<open>(st_ctry s, snd r) \<in> set ctry_codes\<close> show ?thesis by (metis option.distinct(1))
qed

text \<open>With the state that a started encoder has, no country is known.\<close>

theorem gui_country_safe_iff_witness:
  "jmrg_acentry_poll example_view RDS_FIELD_ECC (Some rds_state_zero) [] = None"
proof -
  have "st_ctry rds_state_zero \<notin> fst ` set ctry_codes"
    using ctry_codes_nonzero by (auto simp: list_all_iff st_ctry_def ctry_id_def rds_state_zero_def)
  with gui_country_safe_iff [OF shown_example, of rds_state_zero "[]"] show ?thesis by blast
qed

text \<open>
  A country is set by its extended code only. It is shown afterwards, or another country with the
  same code is, if the programme identification already has its country code.
\<close>

lemma and_255: "(i :: int) AND 0xFF = i mod 256"
  using take_bit_eq_mask [of 8 i] by (simp add: take_bit_eq_mod mask_numeral)

lemma ctry_code_split:
  assumes "k < length ctry_codes"
  defines "c \<equiv> fst (ctry_codes ! k)"
  shows "rds_codes_get_ecc_by_ctry_idx (int k) = Some (c mod 256)" "0 \<le> c" "c < 0x1000"
  using assms ctry_codes_entries
  by (simp_all add: rds_codes_get_ecc_by_ctry_idx_def nth_int_nth list_all_length code_entry_def and_255)

lemma ctry_id_eq: "ctry_id cc ecc = 256 * (uint cc mod 16) + uint ecc"
proof -
  have "\<not> bit (push_bit 8 (uint cc AND 15)) n \<or> \<not> bit (uint ecc) n" for n
    by (auto simp: bit_simps dest: bit_imp_le_length)
  then have "push_bit 8 (uint cc AND 15) OR uint ecc = push_bit 8 (uint cc AND 15) + uint ecc"
    by (rule disjunctive_add [symmetric])
  moreover have "uint cc AND 15 = uint cc mod 16"
    using take_bit_eq_mask [of 4 "uint cc"] by (simp add: take_bit_eq_mod mask_numeral)
  ultimately show ?thesis by (simp add: ctry_id_def push_bit_eq_mult)
qed

lemma st_ctry_eq: "st_ctry s = 256 * (uint (st_pi s) div 0x1000) + uint (st_ecc s)"
proof -
  let ?w = "drop_bit 12 (st_pi s)"
  have "uint ?w = uint (st_pi s) div 0x1000" by (simp add: drop_bit_eq_div uint_div)
  moreover have "uint (st_pi s) < 0x10000" using uint_lt2p [of "st_pi s"] by simp
  then have d: "uint (st_pi s) div 0x1000 < 16" by simp
  then have "take_bit 8 (uint (st_pi s) div 0x1000) = uint (st_pi s) div 0x1000"
    by (intro take_bit_int_eq_self) (auto simp: pos_imp_zdiv_nonneg_iff)
  ultimately have "uint (ucast ?w :: uint8) = uint (st_pi s) div 0x1000" by (simp add: unsigned_ucast_eq)
  moreover have "uint (st_pi s) div 0x1000 mod 16 = uint (st_pi s) div 0x1000"
    using d by (intro mod_pos_pos_trivial) (auto simp: pos_imp_zdiv_nonneg_iff)
  ultimately show ?thesis by (simp add: st_ctry_def ctry_id_eq)
qed

lemma gui_country_set:
  assumes "k < length ctry_codes" "shown v" "uint (st_pi s) div 0x1000 = fst (ctry_codes ! k) div 256"
  shows "\<exists>s' name. jmrg_set_button_clicked abi RDS_FIELD_ECC (int k) flag (txt, Some s) = Some (txt, Some s') \<and>
    jmrg_acentry_poll v RDS_FIELD_ECC (Some s') old = Some (True, name) \<and>
    (fst (ctry_codes ! k), name) \<in> set ctry_codes"
proof -
  let ?c = "fst (ctry_codes ! k)"
  obtain s' where s': "rds_set_ecc (Some s) (word_of_int (?c mod 256)) = (0, Some s')"
    "st_pi s' = st_pi s" "st_ecc s' = word_of_int (?c mod 256)"
    by (simp add: rds_set_ecc_def Let_def)
  have "uint (st_ecc s') = ?c mod 256" by (simp add: s'(3) unsigned_of_int take_bit_eq_mod)
  then have "st_ctry s' = ?c" by (simp add: st_ctry_eq s'(2) assms(3))
  moreover have "ctry_codes ! k \<in> set ctry_codes" using assms(1) by simp
  ultimately obtain name where "jmrg_acentry_poll v RDS_FIELD_ECC (Some s') old = Some (True, name)"
    "(?c, name) \<in> set ctry_codes"
    using acentry_country [OF assms(2), of s' old] by (cases "jmrg_acentry_poll v RDS_FIELD_ECC (Some s') old") auto
  moreover have "jmrg_set_button_clicked abi RDS_FIELD_ECC (int k) flag (txt, Some s) = Some (txt, Some s')"
    using ctry_code_split [OF assms(1)] s'(1) by (simp add: jmrg_set_button_clicked_def)
  ultimately show ?thesis by blast
qed

end
