(* ===== verification/Gui_Panel.thy ===== *)
theory Gui_Panel
  imports Gui_Rds
begin

text \<open>
  The other widgets of the RDS panel (\<^verbatim>\<open>gui/jmrg_checkbox.c\<close>, \<^verbatim>\<open>jmrg_display_field.c\<close>,
  \<^verbatim>\<open>jmrg_cbox_text.c\<close>, \<^verbatim>\<open>jmrg_switch.c\<close>, \<^verbatim>\<open>jmrg_file_chooser.c\<close>) and the end of a widget
  (\<^verbatim>\<open>jmrg_free_vmap\<close> of \<^verbatim>\<open>jmpxrds_gui.c\<close>): what a polling function reads from the encoder state and
  shows, and what a signal handler stores.
\<close>

subsection \<open>Widgets\<close>

text \<open>The names of the programme types, inserted into the combo box in this order.\<close>

partial_function (option) cbox_ptys :: "int \<Rightarrow> string list option" where
  "cbox_ptys i = do {
     name \<leftarrow> rds_codes_get_pty_name (word_of_int i);
     if name = [] then Some []
     else do {
       rest \<leftarrow> cbox_ptys (i + 1);
       Some (name # rest)
     }
   }"

text \<open>The check boxes, with the accessors of a flag and the bits it stands for.\<close>

definition jmrg_checkbox_poll ::
  "(st_ptr \<Rightarrow> uint8) \<Rightarrow> uint8 \<Rightarrow> gtk_view \<Rightarrow> st_ptr \<Rightarrow> bool \<Rightarrow> bool \<times> bool" where
  "jmrg_checkbox_poll getter m v st active =
     (if \<not> gv_valid v then (False, active)
      else if \<not> gv_visible v then (True, active)
      else if gv_focus v then (True, active)
      else
        let tmp = getter st AND m
        in if tmp = 0 \<and> \<not> active \<or> tmp \<noteq> 0 \<and> active then (True, active) else (True, tmp \<noteq> 0))"

definition jmrg_checkbox_toggled ::
  "(st_ptr \<Rightarrow> uint8) \<Rightarrow> (st_ptr \<Rightarrow> uint8 \<Rightarrow> int \<times> st_ptr) \<Rightarrow> uint8 \<Rightarrow> bool \<Rightarrow> st_ptr \<Rightarrow> st_ptr" where
  "jmrg_checkbox_toggled getter setter m active st =
     (let tmp = getter st
      in if tmp AND m = 0 \<and> \<not> active \<or> tmp AND m \<noteq> 0 \<and> active then st
         else if active then snd (setter st (tmp OR m)) else snd (setter st (tmp AND NOT m)))"

definition checkbox_access ::
  "rds_field \<Rightarrow> ((st_ptr \<Rightarrow> uint8) \<times> (st_ptr \<Rightarrow> uint8 \<Rightarrow> int \<times> st_ptr)) option" where
  "checkbox_access type =
     (case type of
        RDS_FIELD_TA \<Rightarrow> Some (rds_get_ta, rds_set_ta)
      | RDS_FIELD_TP \<Rightarrow> Some (rds_get_tp, rds_set_tp)
      | RDS_FIELD_MS \<Rightarrow> Some (rds_get_ms, rds_set_ms)
      | RDS_FIELD_DI \<Rightarrow> Some (rds_get_di, rds_set_di)
      | _ \<Rightarrow> None)"

text \<open>
  The display fields: the label, and whether the file chooser is sensitive. The outer \<open>None\<close> is the
  dereference of a \<^verbatim>\<open>NULL\<close> state.
\<close>

definition str_bytes :: "string \<Rightarrow> cstring" where "str_bytes s = map of_char s"

definition def_ptyn_text :: "string \<Rightarrow> cstring" where
  "def_ptyn_text name = snprintf_s (replicate 24 0) 24 (str_bytes (''( '' @ name @ '' )'') @ [0])"

definition jmrg_display_field_poll ::
  "gtk_view \<Rightarrow> rds_field \<Rightarrow> st_ptr \<Rightarrow> cstring \<times> bool \<Rightarrow> (bool \<times> cstring \<times> bool) option" where
  "jmrg_display_field_poll v type st w =
     (case w of (txt, sensitive) \<Rightarrow>
      if \<not> gv_valid v then Some (False, w)
      else if \<not> gv_visible v then Some (True, w)
      else
        (case type of
           RDS_FIELD_PI \<Rightarrow>
             Some (True, snprintf_s (replicate 8 0) 5 (show_base 16 (unat (rds_get_pi st)) @ [0]), sensitive)
         | RDS_FIELD_PS \<Rightarrow> do {
             s \<leftarrow> st;
             if st_ps_set s = 0 then Some (True, w)
             else Some (True, (case rds_get_ps st of None \<Rightarrow> txt | Some t \<Rightarrow> t), True)
           }
         | RDS_FIELD_RT \<Rightarrow> do {
             s \<leftarrow> st;
             if st_rt_set s = 0 then Some (True, w)
             else do {
               r \<leftarrow> rds_get_rt st;
               Some (True, (case r of None \<Rightarrow> txt | Some t \<Rightarrow> t), True)
             }
           }
         | RDS_FIELD_PTYN \<Rightarrow> do {
             s \<leftarrow> st;
             if st_ptyn_set s = 0 then Some (True, w)
             else
               (case rds_get_ptyn st of
                  Some t \<Rightarrow> Some (True, t, sensitive)
                | None \<Rightarrow> do {
                    tmp \<leftarrow> rds_get_pty st;
                    def_ptyn \<leftarrow> rds_codes_get_pty_name tmp;
                    Some (True, def_ptyn_text def_ptyn, sensitive)
                  })
           }
         | _ \<Rightarrow> Some (False, w)))"

text \<open>The combo box of the programme type: the index of the active entry.\<close>

definition jmrg_cbox_text_poll :: "gtk_view \<Rightarrow> rds_field \<Rightarrow> st_ptr \<Rightarrow> int \<Rightarrow> (bool \<times> int) option" where
  "jmrg_cbox_text_poll v type st active =
     (if \<not> gv_valid v then Some (False, active)
      else if \<not> gv_visible v then Some (True, active)
      else if gv_focus v then Some (True, active)
      else if type = RDS_FIELD_PTY then do { tmp \<leftarrow> rds_get_pty st; Some (True, uint tmp) }
      else Some (True, 0))"

definition jmrg_cbox_text_changed :: "rds_field \<Rightarrow> int \<Rightarrow> st_ptr \<Rightarrow> st_ptr" where
  "jmrg_cbox_text_changed type tmp st =
     (if type = RDS_FIELD_PTY then snd (rds_set_pty st (word_of_int tmp)) else st)"

text \<open>The switch for the encoder, on the byte it points to.\<close>

definition jmrg_switch_poll :: "gtk_view \<Rightarrow> uint8 \<Rightarrow> bool \<Rightarrow> bool \<times> bool" where
  "jmrg_switch_poll v val active =
     (if \<not> gv_valid v then (False, active)
      else if \<not> gv_visible v then (True, active)
      else if gv_focus v then (True, active)
      else if active \<and> val \<noteq> 0 then (True, active)
      else (True, val \<noteq> 0))"

definition jmrg_switch_toggle :: "bool \<Rightarrow> uint8 \<Rightarrow> uint8" where
  "jmrg_switch_toggle on val = (if on then 1 else 0)"

text \<open>
  The dynamic name and radio text of a display field. The file chooser starts and stops them,
  the end of the widget stops them. \<open>io\<close> is what the system answers to the start; \<open>chosen\<close> says that a
  file is selected. The results are the switch beside the chooser and the requests to the system.
\<close>

record value_map =
  vm_type :: rds_field
  vm_dps :: rds_dynps_state
  vm_drt :: rds_dynrt_state
  vm_sw :: bool
  vm_calls :: "os_call list"

definition vm_dps_set :: "(rds_dynps_state \<times> st_ptr) \<times> os_call list \<Rightarrow> value_map \<times> rds_encoder_state \<Rightarrow> value_map \<times> rds_encoder_state" where
  "vm_dps_set r s =
     (case r of ((dps, p), calls) \<Rightarrow> case s of (vm, st) \<Rightarrow>
        (vm\<lparr>vm_dps := dps, vm_calls := vm_calls vm @ calls\<rparr>, st_of st p))"

definition vm_drt_set :: "(rds_dynrt_state \<times> st_ptr) \<times> os_call list \<Rightarrow> value_map \<times> rds_encoder_state \<Rightarrow> value_map \<times> rds_encoder_state" where
  "vm_drt_set r s =
     (case r of ((drt, p), calls) \<Rightarrow> case s of (vm, st) \<Rightarrow>
        (vm\<lparr>vm_drt := drt, vm_calls := vm_calls vm @ calls\<rparr>, st_of st p))"

definition vm_stop_dps :: "char_abi \<Rightarrow> value_map \<times> rds_encoder_state \<Rightarrow> value_map \<times> rds_encoder_state" where
  "vm_stop_dps abi s =
     (if dps_active (vm_dps (fst s)) \<noteq> 0
      then vm_dps_set (rds_dynps_destroy abi (vm_dps (fst s), Some (snd s))) s else s)"

definition vm_stop_drt :: "char_abi \<Rightarrow> value_map \<times> rds_encoder_state \<Rightarrow> value_map \<times> rds_encoder_state" where
  "vm_stop_drt abi s =
     (if drt_active (vm_drt (fst s)) \<noteq> 0
      then vm_drt_set (rds_dynrt_destroy abi (vm_drt (fst s), Some (snd s))) s else s)"

definition jmrg_file_chooser_done ::
  "char_abi \<Rightarrow> dyn_results \<Rightarrow> bool \<Rightarrow> value_map \<times> rds_encoder_state \<Rightarrow> value_map \<times> rds_encoder_state" where
  "jmrg_file_chooser_done abi io chosen s =
     (case io of (ifd, wfd, create1, create2) \<Rightarrow>
      case vm_type (fst s) of
        RDS_FIELD_PS \<Rightarrow>
          (let s = vm_stop_dps abi s
           in if \<not> chosen then s
              else
                let s = vm_dps_set (snd (rds_dynps_init abi ifd wfd create1 create2 (vm_dps (fst s)) (snd s))) s
                in ((fst s)\<lparr>vm_sw := True\<rparr>, snd s))
      | RDS_FIELD_RT \<Rightarrow>
          (let s = vm_stop_drt abi s
           in if \<not> chosen then s
              else
                let s = vm_drt_set (snd (rds_dynrt_init abi ifd wfd create1 create2 (vm_drt (fst s)) (snd s))) s
                in ((fst s)\<lparr>vm_sw := True\<rparr>, snd s))
      | _ \<Rightarrow> s)"

definition jmrg_free_vmap :: "char_abi \<Rightarrow> value_map \<times> rds_encoder_state \<Rightarrow> value_map \<times> rds_encoder_state" where
  "jmrg_free_vmap abi s = vm_stop_drt abi (vm_stop_dps abi s)"

subsection \<open>Check boxes\<close>

context bf_access
begin

text \<open>
  A toggled box sets or clears its bits and no others, and a poll afterwards leaves the box as the
  user has set it.
\<close>

lemma toggled_bits:
  assumes "m AND field_mask = m" "m \<noteq> 0"
  shows "\<exists>s'. jmrg_checkbox_toggled getter setter m active (Some s) = Some s' \<and>
    (getter (Some s') AND m \<noteq> 0 \<longleftrightarrow> active) \<and>
    getter (Some s') AND NOT m = getter (Some s) AND NOT m"
proof (cases "getter (Some s) AND m \<noteq> 0 \<longleftrightarrow> active")
  case True
  then show ?thesis by (auto simp: jmrg_checkbox_toggled_def Let_def)
next
  case False
  have b: "(x OR m) AND m = m" "(x AND NOT m) AND m = 0" "(x OR m) AND NOT m = x AND NOT m"
    "(x AND NOT m) AND NOT m = x AND NOT m" for x :: uint8
    by (auto intro!: bit_word_eqI simp: bit_simps)
  let ?v = "if active then getter (Some s) OR m else getter (Some s) AND NOT m"
  have t: "jmrg_checkbox_toggled getter setter m active (Some s) = snd (setter (Some s) ?v)"
    using False by (auto simp: jmrg_checkbox_toggled_def Let_def)
  obtain s' where s': "snd (setter (Some s) ?v) = Some s'" using set_some by blast
  have "getter (Some s') = ?v"
    using get_set_or [OF assms(1), of s] get_set_and_not [of s m] s' by (auto split: if_splits)
  with t s' assms(2) show ?thesis by (simp add: b)
qed

lemma poll_after_toggle:
  assumes "m AND field_mask = m" "m \<noteq> 0"
  shows "snd (jmrg_checkbox_poll getter m v (jmrg_checkbox_toggled getter setter m active (Some s)) active) = active"
  using toggled_bits [OF assms, of active s] by (auto simp: jmrg_checkbox_poll_def Let_def)

end

definition checkbox_mask :: "rds_field \<Rightarrow> uint8 \<Rightarrow> bool" where
  "checkbox_mask type m \<longleftrightarrow> m \<noteq> 0 \<and> m AND (if type = RDS_FIELD_DI then 0xF else 1) = m"

text \<open>
  CN: toggling a check box makes the bits of its flag what the box shows and leaves the other bits of
  the field alone, and polling it afterwards does not change it.
\<close>

theorem gui_checkbox_toggle:
  assumes "checkbox_access type = Some (getter, setter)" "checkbox_mask type m"
  shows "\<exists>s'. jmrg_checkbox_toggled getter setter m active (Some s) = Some s' \<and>
    (getter (Some s') AND m \<noteq> 0 \<longleftrightarrow> active) \<and>
    getter (Some s') AND NOT m = getter (Some s) AND NOT m \<and>
    snd (jmrg_checkbox_poll getter m v (Some s') active) = active"
proof -
  note toggled = ta.toggled_bits ta.poll_after_toggle tp.toggled_bits tp.poll_after_toggle
    ms.toggled_bits ms.poll_after_toggle di.toggled_bits di.poll_after_toggle
  from assms consider "getter = rds_get_ta" "setter = rds_set_ta" "m AND 1 = m" | "getter = rds_get_tp" "setter = rds_set_tp" "m AND 1 = m"
    | "getter = rds_get_ms" "setter = rds_set_ms" "m AND 1 = m" | "getter = rds_get_di" "setter = rds_set_di" "m AND 0xF = m"
    by (auto simp: checkbox_access_def checkbox_mask_def split: rds_field.splits)
  then show ?thesis
  proof cases
    case 1
    with ta.toggled_bits [of m active s] ta.poll_after_toggle [of m v active s] assms(2)
    show ?thesis by (auto simp: checkbox_mask_def)
  next
    case 2
    with tp.toggled_bits [of m active s] tp.poll_after_toggle [of m v active s] assms(2)
    show ?thesis by (auto simp: checkbox_mask_def)
  next
    case 3
    with ms.toggled_bits [of m active s] ms.poll_after_toggle [of m v active s] assms(2)
    show ?thesis by (auto simp: checkbox_mask_def)
  next
    case 4
    with di.toggled_bits [of m active s] di.poll_after_toggle [of m v active s] assms(2)
    show ?thesis by (auto simp: checkbox_mask_def)
  qed
qed

theorem gui_checkbox_toggle_witness:
  "\<exists>s'. jmrg_checkbox_toggled rds_get_di rds_set_di 4 True (Some rds_state_zero) = Some s' \<and>
    (rds_get_di (Some s') AND 4 \<noteq> 0) \<and> rds_get_di (Some s') AND NOT 4 = 0"
proof -
  have "checkbox_access RDS_FIELD_DI = Some (rds_get_di, rds_set_di)" "checkbox_mask RDS_FIELD_DI 4"
    by (simp_all add: checkbox_access_def checkbox_mask_def)
  from gui_checkbox_toggle [OF this, of True rds_state_zero]
  show ?thesis by (auto simp: rds_get_di_def rds_state_zero_def)
qed

subsection \<open>Display fields, programme type and switch\<close>

text \<open>The programme identification that is shown, typed again, is the same.\<close>

lemma strtol_show_hex:
  assumes "n < 2 ^ 63"
  shows "strtol (show_base 16 n @ 0 # rest) 16 = int n"
proof (rule strtol_plain [OF _ _ _ assms])
  have "\<forall>c \<in> set (show_base 16 n). c \<noteq> 0x78 \<and> c \<noteq> 0x58"
    using show_base_digits [of 16 n] by (auto simp: list_all_iff is_base_digit_def byte_digit_def Let_def)
  moreover obtain d ds where d: "show_base 16 n = d # ds" by (cases "show_base 16 n") auto
  ultimately have "hd (ds @ [0]) \<noteq> 0x78" "hd (ds @ [0]) \<noteq> 0x58" by (cases ds; simp)+
  then have "skip_0x 16 (show_base 16 n @ 0 # rest) = show_base 16 n @ 0 # rest"
    unfolding d by (cases ds; cases rest; cases "tl ds") auto
  then show "scan_base 16 0 (skip_0x 16 (show_base 16 n @ 0 # rest)) = n"
    using scan_base_show_0 [of 16 n rest] by simp
qed (use hd_show_base [of 16 n] in \<open>auto intro: is_base_digit_mono\<close>)

lemma gui_pi_roundtrip:
  assumes "gv_valid v" "gv_visible v"
    and "jmrg_display_field_poll v RDS_FIELD_PI (Some s) w = Some (True, txt, b)"
  shows "jmrg_set_button_clicked abi RDS_FIELD_PI i flag (txt, Some s') = Some ([0], Some (s'\<lparr>st_pi := st_pi s\<rparr>))"
proof -
  let ?n = "unat (st_pi s)"
  have n: "?n < 2 ^ 16" using unsigned_less [of "st_pi s"] by simp
  have "length (show_base 16 ?n) \<le> 4" using length_show_base [of 16 ?n 3] n by simp
  then have "\<exists>rest. txt = show_base 16 ?n @ 0 # rest"
    using assms snprintf_fits [OF base_digits_nonzero [OF show_base_digits], of 16 ?n 5 "replicate 8 0" "[]"]
    by (cases w) (auto simp: jmrg_display_field_poll_def rds_get_pi_def)
  then obtain rest where "txt = show_base 16 ?n @ 0 # rest" ..
  moreover have "?n < 2 ^ 63" using n by (rule order_less_trans) simp
  ultimately have "strtol txt 16 = int ?n" using strtol_show_hex by simp
  then have "strtol txt 16 = uint (st_pi s)" by simp
  moreover have "uint (st_pi s) AND 0xFFFF = uint (st_pi s)"
    using take_bit_eq_mask [of 16 "uint (st_pi s)"] uint_lt2p [of "st_pi s"]
    by (simp add: mask_numeral take_bit_int_eq_self)
  ultimately show ?thesis by (simp add: jmrg_set_button_clicked_def rds_set_pi_def)
qed

text \<open>
  The name of the programme type is never shown in place of a programme type name: the field is not
  updated while no name is set.
\<close>

lemma gui_ptyn_never_default:
  assumes "jmrg_display_field_poll v RDS_FIELD_PTYN (Some s) (txt, b) = Some (again, txt', b')"
  shows "txt' = txt \<or> txt' = take RDS_PTYN_LENGTH (st_ptyn s) @ [0]"
  using assms by (auto simp: jmrg_display_field_poll_def rds_get_ptyn_def split: if_splits)

text \<open>The programme type: the combo box has all 32, and an entry that is chosen is the one that is set.\<close>

lemma pty_name_nat: "n < 256 \<Longrightarrow>
  rds_codes_get_pty_name (word_of_int (int n)) = Some (if n < 32 then pty_codes ! n else [])"
  by (simp add: rds_codes_get_pty_name_def nth_int_def length_pty_codes unsigned_of_nat take_bit_nat_eq_self)

lemma cbox_ptys_eq: "n \<le> 32 \<Longrightarrow> cbox_ptys (int n) = Some (drop n pty_codes)"
proof (induction "32 - n" arbitrary: n)
  case 0
  then have "n = 32" by simp
  moreover have "rds_codes_get_pty_name 32 = Some []" using pty_name_nat [of 32] by simp
  ultimately show ?case by (subst cbox_ptys.simps) (simp add: length_pty_codes)
next
  case (Suc k)
  then have n: "n < 32" by simp
  have "cbox_ptys (int n + 1) = Some (drop (Suc n) pty_codes)"
    using Suc.hyps(1) [of "Suc n"] Suc.hyps(2) n by (simp add: add.commute)
  moreover have "pty_codes ! n \<noteq> []" using pty_codes_entries n by (simp add: list_all_length length_pty_codes)
  moreover have "drop n pty_codes = pty_codes ! n # drop (Suc n) pty_codes"
    using n by (simp add: Cons_nth_drop_Suc length_pty_codes)
  ultimately show ?case using pty_name_nat [of n] n by (simp add: cbox_ptys.simps [of "int n"])
qed

lemma gui_pty_roundtrip:
  assumes "shown v" "0 \<le> i" "i < int (length pty_codes)"
  shows "jmrg_cbox_text_poll v RDS_FIELD_PTY (jmrg_cbox_text_changed RDS_FIELD_PTY i (Some s)) old = Some (True, i)"
proof -
  have "uint (word_of_int i :: uint8) = i" using assms(2,3)
    by (simp add: length_pty_codes unsigned_of_int take_bit_int_eq_self)
  moreover from this have "(word_of_int i :: uint8) \<le> 31" using assms(3) by (simp add: word_le_def length_pty_codes)
  moreover have "uint (ucast (ucast (word_of_int i :: uint8) :: 5 word) :: uint8) = i"
    using assms(2,3) by (simp add: length_pty_codes unsigned_ucast_eq unsigned_of_int take_bit_int_eq_self)
  ultimately show ?thesis
    using assms(1) by (simp add: jmrg_cbox_text_poll_def jmrg_cbox_text_changed_def shown_def rds_set_pty_def rds_get_pty_def)
qed

lemma gui_switch_roundtrip:
  "shown v \<Longrightarrow> jmrg_switch_poll v (jmrg_switch_toggle on val) old = (True, on)"
  by (simp add: jmrg_switch_poll_def jmrg_switch_toggle_def shown_def)

subsection \<open>The dynamic name\<close>

text \<open>
  What happens to a display field while it exists: a file is chosen or the switch turned off
  (\<^verbatim>\<open>file-set\<close>), the threads run if the dynamic name is active, other clients set fields.
\<close>

datatype fc_event = Fc_Set dyn_results bool | Fc_Consumer | Fc_File "byte list option" | Fc_Client rds_cmd

fun fc_step :: "char_abi \<Rightarrow> fc_event \<Rightarrow> value_map \<times> rds_encoder_state \<Rightarrow> value_map \<times> rds_encoder_state" where
  "fc_step abi (Fc_Set io chosen) s = jmrg_file_chooser_done abi io chosen s"
| "fc_step abi Fc_Consumer s =
     (if dps_active (vm_dps (fst s)) \<noteq> 0
      then vm_dps_set (dynps_consume abi (vm_dps (fst s), Some (snd s)), []) s else s)"
| "fc_step abi (Fc_File f) s =
     (if dps_active (vm_dps (fst s)) \<noteq> 0
      then ((fst s)\<lparr>vm_dps := dynps_filemon f (vm_dps (fst s))\<rparr>, snd s) else s)"
| "fc_step abi (Fc_Client c) s = (fst s, st_of (snd s) (snd (rds_apply abi c (Some (snd s)))))"

text \<open>The name \<open>nm\<close>, without a zero byte, as the contents of a buffer up to its first zero byte.\<close>

definition holds_name :: "cstring \<Rightarrow> cstring \<Rightarrow> bool" where
  "holds_name nm buf \<longleftrightarrow> take (strnlen buf RDS_PS_LENGTH) buf = nm"

definition name_ok :: "char_abi \<Rightarrow> cstring \<Rightarrow> bool" where
  "name_ok abi nm \<longleftrightarrow> nm \<noteq> [] \<and> length nm \<le> 8 \<and> 0 \<notin> set nm \<and> list_all (char_ok abi) nm"

text \<open>The station's name is \<open>nm\<close>: in the encoder, or kept by the dynamic name while that is active.\<close>

definition keeps_name :: "cstring \<Rightarrow> value_map \<times> rds_encoder_state \<Rightarrow> bool" where
  "keeps_name nm s \<longleftrightarrow> vm_type (fst s) = RDS_FIELD_PS \<and> length (st_ps (snd s)) = 8 \<and>
     (if dps_active (vm_dps (fst s)) \<noteq> 0 then holds_name nm (dps_fixed_ps (vm_dps (fst s)))
      else holds_name nm (st_ps (snd s)) \<and> st_ps_set (snd s) = 1)"

lemma holds_name_length: "holds_name nm buf \<Longrightarrow> strnlen buf RDS_PS_LENGTH = length nm"
  using strnlen_le_length [of buf 8] by (auto simp: holds_name_def)

lemma rds_set_ps_name:
  assumes "holds_name nm buf" "name_ok abi nm"
  shows "\<exists>st'. rds_set_ps abi (Some st) (Some buf) = (0, Some st') \<and> holds_name nm (st_ps st') \<and>
    st_ps_set st' = 1 \<and> length (st_ps st') = 8"
proof -
  have n: "strnlen buf RDS_PS_LENGTH = length nm" by (rule holds_name_length [OF assms(1)])
  have "ps_char abi c = c" if "c \<in> set nm" for c
    using that assms(2) by (auto simp: name_ok_def list_all_iff char_ok_def ps_char_def)
  then have "map (ps_char abi) nm = nm" by (simp add: map_idI)
  moreover have "take (length nm) buf = nm" using assms(1) n by (simp add: holds_name_def)
  ultimately have "rds_set_ps abi (Some st) (Some buf) =
      (0, Some (st\<lparr>st_ps := nm @ replicate (8 - length nm) 0, st_ps_set := 1, st_ps_idx := 0\<rparr>))"
    using rds_set_ps_eq [OF n, of abi st] assms(2) by (simp add: name_ok_def)
  moreover have "holds_name nm (nm @ replicate (8 - length nm) 0)"
  proof (cases "length nm = 8")
    case True
    then show ?thesis using assms(2) strnlen_full [of nm 8 "[]"] by (simp add: holds_name_def name_ok_def)
  next
    case False
    then obtain k where "8 - length nm = Suc k" using assms(2) by (metis name_ok_def Suc_diff_Suc le_neq_implies_less)
    then show ?thesis
      using assms(2) False strnlen_prefix [of nm 8 "replicate k 0"] by (simp add: holds_name_def name_ok_def)
  qed
  ultimately show ?thesis using assms(2) by (simp add: name_ok_def)
qed

lemma holds_name_copy: "holds_name nm ps \<Longrightarrow> length ps = 8 \<Longrightarrow> holds_name nm (strncpy (replicate 9 0) ps RDS_PS_LENGTH)"
  using strnlen_strncpy [of ps] by (simp add: holds_name_def)

text \<open>Stopping restores the name.\<close>

lemma rds_dynps_destroy_name:
  assumes "holds_name nm (dps_fixed_ps d)" "name_ok abi nm"
  shows "\<exists>st'. fst (rds_dynps_destroy abi (d, Some st)) = (d\<lparr>dps_active := 0\<rparr>, Some st') \<and>
    holds_name nm (st_ps st') \<and> st_ps_set st' = 1 \<and> length (st_ps st') = 8"
  using rds_set_ps_name [OF assms, of st] by (auto simp: rds_dynps_destroy_def)

lemma vm_stop_dps_name:
  assumes "keeps_name nm s" "name_ok abi nm"
  shows "keeps_name nm (vm_stop_dps abi s)" "dps_active (vm_dps (fst (vm_stop_dps abi s))) = 0"
  using assms rds_dynps_destroy_name [of nm "vm_dps (fst s)" abi "snd s"]
  by (auto simp: vm_stop_dps_def vm_dps_set_def keeps_name_def split: prod.splits)

text \<open>Starting keeps it, whether the start fails or not.\<close>

lemma rds_dynps_init_name:
  assumes "holds_name nm (st_ps st)" "length (st_ps st) = 8" "st_ps_set st = 1" "name_ok abi nm"
    and "rds_dynps_init abi ifd wfd c1 c2 d st = (ret, (d', p), calls)" "dps_active d = 0"
  shows "\<exists>st'. p = Some st' \<and> length (st_ps st') = 8 \<and>
    (if dps_active d' \<noteq> 0 then holds_name nm (dps_fixed_ps d') else holds_name nm (st_ps st') \<and> st_ps_set st' = 1)"
proof -
  let ?F = "strncpy (replicate 9 0) (st_ps st) RDS_PS_LENGTH"
  have "holds_name nm ?F" by (rule holds_name_copy [OF assms(1,2)])
  then have stop: "\<exists>st'. fst (rds_dynps_destroy abi (e, Some st)) = (e\<lparr>dps_active := 0\<rparr>, Some st') \<and>
      holds_name nm (st_ps st') \<and> st_ps_set st' = 1 \<and> length (st_ps st') = 8"
    if "dps_fixed_ps e = ?F" for e
    using rds_dynps_destroy_name [of nm e abi st] that assms(4) by simp
  let ?d1 = "rds_dynps_zero\<lparr>dps_fixed_ps := ?F, dps_inotify_fd := ifd\<rparr>"
  let ?d2 = "?d1\<lparr>dps_watch_fd := wfd\<rparr>"
  let ?d3 = "?d2\<lparr>dps_active := 1, dps_filemon_tid := snd c1\<rparr>"
  let ?d4 = "?d3\<lparr>dps_consumer_tid := snd c2\<rparr>"
  have "dps_fixed_ps rds_dynps_zero = replicate 9 0" by (simp add: rds_dynps_zero_def)
  with assms(3,5) have "\<exists>e \<in> {?d1, ?d2, ?d3, ?d4}. rds_dynps_destroy abi (e, Some st) = ((d', p), calls) \<or> d' = ?d4 \<and> p = Some st"
    by (auto simp: rds_dynps_init_def Let_def split: if_splits)
  then obtain e where "e \<in> {?d1, ?d2, ?d3, ?d4}"
    and e: "rds_dynps_destroy abi (e, Some st) = ((d', p), calls) \<or> d' = ?d4 \<and> p = Some st" by blast
  then have F: "dps_fixed_ps e = ?F" by auto
  from e show ?thesis
  proof
    assume "rds_dynps_destroy abi (e, Some st) = ((d', p), calls)"
    with stop [OF F] show ?thesis by auto
  next
    assume "d' = ?d4 \<and> p = Some st"
    with assms(2) \<open>holds_name nm ?F\<close> show ?thesis by simp
  qed
qed

lemma file_chooser_done_name:
  assumes "keeps_name nm s" "name_ok abi nm"
  shows "keeps_name nm (jmrg_file_chooser_done abi io chosen s)"
proof -
  let ?s = "vm_stop_dps abi s"
  obtain ifd wfd c1 c2 where io: "io = (ifd, wfd, c1, c2)" by (cases io) auto
  obtain ret d' p calls where i: "rds_dynps_init abi ifd wfd c1 c2 (vm_dps (fst ?s)) (snd ?s) = (ret, (d', p), calls)"
    by (metis prod.collapse)
  have s: "keeps_name nm ?s" "dps_active (vm_dps (fst ?s)) = 0" using vm_stop_dps_name [OF assms] by auto
  then have "holds_name nm (st_ps (snd ?s))" "length (st_ps (snd ?s)) = 8" "st_ps_set (snd ?s) = 1"
    by (simp_all add: keeps_name_def)
  from rds_dynps_init_name [OF this assms(2) i s(2)] s(1) i assms(1) show ?thesis
    by (auto simp: jmrg_file_chooser_done_def io vm_dps_set_def Let_def keeps_name_def split: prod.splits)
qed

lemma dynps_consume_name:
  assumes "length (st_ps st) = 8"
  shows "\<exists>st'. snd (dynps_consume abi (d, Some st)) = Some st' \<and> length (st_ps st') = 8"
proof -
  have "\<exists>st'. snd (rds_set_ps abi (Some st) (Some p)) = Some st' \<and> length (st_ps st') = 8" for p
  proof (cases "strnlen p 8 = 0")
    case True
    then show ?thesis using assms by (simp add: rds_set_ps_def)
  next
    case False
    have "strnlen p 8 \<le> length p" by (rule strnlen_le_length)
    then show ?thesis using rds_set_ps_eq [OF refl False, of abi st] by simp
  qed
  with assms show ?thesis by (simp add: dynps_consume_def Let_def)
qed

lemma dynps_active_kept:
  "dps_active (fst (dynps_consume abi (d, p))) = dps_active d" "dps_active (dynps_filemon f d) = dps_active d"
  by (auto simp: dynps_consume_def dynps_filemon_def Let_def split: option.splits prod.splits)

lemma client_name:
  assumes "keeps_name nm s" "\<nexists>p. c = Set_Ps p"
  shows "keeps_name nm (fst s, st_of (snd s) (snd (rds_apply abi c (Some (snd s)))))"
proof -
  have "st_ps (st_of (snd s) (snd (rds_apply abi c (Some (snd s))))) = st_ps (snd s) \<and>
      st_ps_set (st_of (snd s) (snd (rds_apply abi c (Some (snd s))))) = st_ps_set (snd s)"
    using assms(2) rds_set_rt_keeps_ps [of "snd s" abi]
    by (cases c) (auto simp: state_defs Let_def rds_set_ptyn_def split: option.splits)
  with assms(1) show ?thesis by (simp add: keeps_name_def)
qed

lemma fc_step_name:
  assumes "keeps_name nm s" "name_ok abi nm" "\<nexists>p. e = Fc_Client (Set_Ps p)"
  shows "keeps_name nm (fc_step abi e s)"
proof (cases e)
  case (Fc_Set io chosen)
  then show ?thesis using file_chooser_done_name [OF assms(1,2)] by simp
next
  case Fc_Consumer
  then show ?thesis
    using assms(1) dynps_consume_fixed [of abi "vm_dps (fst s)" "Some (snd s)"]
      dynps_consume_name [of "snd s" abi "vm_dps (fst s)"]
      dynps_active_kept(1) [of abi "vm_dps (fst s)" "Some (snd s)"]
    by (auto simp: vm_dps_set_def keeps_name_def split: prod.splits)
next
  case (Fc_File f)
  then show ?thesis
    using assms(1) by (auto simp: keeps_name_def dynps_filemon_fixed dynps_active_kept)
next
  case (Fc_Client c)
  then show ?thesis using client_name [OF assms(1)] assms(3) by auto
qed

text \<open>
  CN: while the display field of the name exists, files may be chosen, changed and turned off, starts
  may fail and other clients may set other fields; when the widget ends, no thread of it is active
  and the encoder has the name that it had at first.
\<close>

theorem gui_restores_name:
  assumes "keeps_name nm s" "name_ok abi nm" "\<forall>p. Fc_Client (Set_Ps p) \<notin> set es"
  shows "holds_name nm (st_ps (snd (jmrg_free_vmap abi (fold (fc_step abi) es s)))) \<and>
    st_ps_set (snd (jmrg_free_vmap abi (fold (fc_step abi) es s))) = 1 \<and>
    dps_active (vm_dps (fst (jmrg_free_vmap abi (fold (fc_step abi) es s)))) = 0"
proof -
  have "keeps_name nm (fold (fc_step abi) es s)"
    using assms(1,3)
  proof (induction es arbitrary: s)
    case (Cons e es)
    have "keeps_name nm (fc_step abi e s)" by (rule fc_step_name [OF Cons.prems(1) assms(2)]) (use Cons.prems(2) in auto)
    with Cons show ?case by simp
  qed simp
  then have "holds_name nm (st_ps (snd (vm_stop_dps abi (fold (fc_step abi) es s))))"
    "st_ps_set (snd (vm_stop_dps abi (fold (fc_step abi) es s))) = 1"
    "dps_active (vm_dps (fst (vm_stop_dps abi (fold (fc_step abi) es s)))) = 0"
    using vm_stop_dps_name [OF _ assms(2), of "fold (fc_step abi) es s"] by (auto simp: keeps_name_def)
  then show ?thesis
    by (auto simp: jmrg_free_vmap_def vm_stop_drt_def vm_drt_set_def rds_dynrt_destroy_def rds_set_rt_keeps_ps split: prod.splits)
qed

text \<open>The name A; a file is chosen, its text HI shown, and the switch turned off.\<close>

definition example_vmap :: value_map where
  "example_vmap = \<lparr>vm_type = RDS_FIELD_PS, vm_dps = rds_dynps_zero, vm_drt = rds_dynrt_zero, vm_sw = False, vm_calls = []\<rparr>"

theorem gui_restores_name_witness:
  "holds_name [0x41] (st_ps (snd (jmrg_free_vmap Signed_Char (fold (fc_step Signed_Char)
     [Fc_Set (3, 1, (0, 7), (0, 8)) True, Fc_File (Some [0x48, 0x49, 0x0A]), Fc_Consumer,
      Fc_Set (3, 1, (0, 7), (0, 8)) False] (example_vmap, example_st)))))"
proof -
  let ?es = "[Fc_Set (3, 1, (0, 7), (0, 8)) True, Fc_File (Some [0x48, 0x49, 0x0A]), Fc_Consumer,
      Fc_Set (3, 1, (0, 7), (0, 8)) False]"
  have k: "keeps_name [0x41] (example_vmap, example_st)"
    by (simp add: keeps_name_def example_vmap_def example_st_def rds_dynps_zero_def holds_name_def strnlen_def)
  have n: "name_ok Signed_Char [0x41]"
    by (simp add: name_ok_def char_ok_def char_int_def)
  have c: "\<forall>p. Fc_Client (Set_Ps p) \<notin> set ?es" by simp
  from gui_restores_name [OF k n c] show ?thesis by blast
qed

end
