(* ===== verification/Spec2Isabelle.thy ===== *)
theory Spec2Isabelle
  imports Rds_Dyn Rds_Encoder Filters Fmmod_Init Rds_Tool Fmmod_Tool Daemon Gui_Panel
begin

text \<open>JMPXRDS.\<close>

end
